(* ===== verification/Prelude.thy ===== *)
theory Prelude
  imports Main "HOL-Library.Word" "HOL-Library.Multiset"
begin

text \<open>
  Shared vocabulary of the development: the machine integers and fixed-size byte arrays of
  the Rust code as words, the \<open>Result\<close> type with the \<open>?\<close> operator and the iterator
  adaptors the code uses on it, checked and saturating integer arithmetic, decimal printing and
  parsing, ranges of \<open>u64\<close>, and the generic lemmas on them.

  Unsigned integers are words, so \<open>+\<close>, \<open>-\<close> and \<open>*\<close> wrap around: this is the
  arithmetic of the release builds that the repository ships (\<open>docker/Dockerfile.*\<close> build
  with \<open>cargo build --release\<close>, and no profile of \<open>Cargo.toml\<close> turns overflow checks on).
\<close>

section \<open>Types\<close>

type_synonym byte = "8 word"
type_synonym u16 = "16 word"
type_synonym u32 = "32 word"
type_synonym u64 = "64 word"
type_synonym u128 = "128 word"

text \<open>\<open>FixedBytes<20>\<close> and \<open>FixedBytes<32>\<close>, read as big-endian numbers (their derived
  order is the order of the bytes, which is the order of the numbers).\<close>

type_synonym address = "160 word"
type_synonym b256 = "256 word"

text \<open>An \<open>anyhow::Error\<close> is kept as its \<open>Display\<close> text, all that the code reads of it.\<close>

type_synonym anyhow_error = string

named_theorems result_simps "unfolding of the Result combinators"
named_theorems num_simps "integer operations as facts on natural numbers"

section \<open>Results\<close>

text \<open>\<open>Result<A, E>\<close> is \<open>'e + 'a\<close> with the error on the left; \<open>rbind r f\<close> is
  \<open>f(r?)\<close>.\<close>

definition rbind :: "'e + 'a \<Rightarrow> ('a \<Rightarrow> 'e + 'b) \<Rightarrow> 'e + 'b" where
  "rbind r f = (case r of Inl e \<Rightarrow> Inl e | Inr a \<Rightarrow> f a)"

definition map_err :: "('e \<Rightarrow> 'f) \<Rightarrow> 'e + 'a \<Rightarrow> 'f + 'a" where
  "map_err g r = (case r of Inl e \<Rightarrow> Inl (g e) | Inr a \<Rightarrow> Inr a)"

definition ok_or :: "'a option \<Rightarrow> 'e \<Rightarrow> 'e + 'a" where
  "ok_or x e = (case x of None \<Rightarrow> Inl e | Some a \<Rightarrow> Inr a)"

definition is_ok :: "'e + 'a \<Rightarrow> bool" where
  "is_ok r = (case r of Inl _ \<Rightarrow> False | Inr _ \<Rightarrow> True)"

text \<open>\<open>iter.map(f).collect::<Result<Vec<_>, _>>()\<close>, \<open>Option::transpose\<close> of a mapped
  option, and \<open>try_for_each\<close>: each stops at the first error.\<close>

fun collect_results :: "('a \<Rightarrow> 'e + 'b) \<Rightarrow> 'a list \<Rightarrow> 'e + 'b list" where
  "collect_results f [] = Inr []"
| "collect_results f (x # xs) =
     rbind (f x) (\<lambda>y. rbind (collect_results f xs) (\<lambda>ys. Inr (y # ys)))"

definition transpose_map :: "('a \<Rightarrow> 'e + 'b) \<Rightarrow> 'a option \<Rightarrow> 'e + 'b option" where
  "transpose_map f x =
     (case x of None \<Rightarrow> Inr None | Some a \<Rightarrow> rbind (f a) (\<lambda>b. Inr (Some b)))"

fun try_for_each :: "('a \<Rightarrow> 'e + unit) \<Rightarrow> 'a list \<Rightarrow> 'e + unit" where
  "try_for_each f [] = Inr ()"
| "try_for_each f (x # xs) = rbind (f x) (\<lambda>_. try_for_each f xs)"

lemma rbind_simps [simp]: "rbind (Inl e) f = Inl e" "rbind (Inr a) f = f a"
  by (simp_all add: rbind_def)

lemma rbind_assoc: "rbind (rbind r f) g = rbind r (\<lambda>x. rbind (f x) g)"
  by (cases r) simp_all

lemma rbind_Inr_iff [result_simps]: "rbind r f = Inr b \<longleftrightarrow> (\<exists>a. r = Inr a \<and> f a = Inr b)"
  by (cases r) auto

lemma rbind_Inl_iff [result_simps]:
  "rbind r f = Inl e \<longleftrightarrow> r = Inl e \<or> (\<exists>a. r = Inr a \<and> f a = Inl e)"
  by (cases r) auto

lemma map_err_simps [simp]: "map_err g (Inl e) = Inl (g e)" "map_err g (Inr a) = Inr a"
  by (simp_all add: map_err_def)

lemma map_err_Inr_iff [result_simps]: "map_err g r = Inr a \<longleftrightarrow> r = Inr a"
  by (cases r) auto

lemma map_err_Inl_iff: "map_err g r = Inl e \<longleftrightarrow> (\<exists>e'. r = Inl e' \<and> e = g e')"
  by (cases r) auto

lemma ok_or_simps [simp]: "ok_or None e = Inl e" "ok_or (Some a) e = Inr a"
  by (simp_all add: ok_or_def)

lemma ok_or_Inr_iff [result_simps]: "ok_or x e = Inr a \<longleftrightarrow> x = Some a"
  by (cases x) auto

lemma is_ok_simps [simp]: "is_ok (Inr a)" "\<not> is_ok (Inl e)"
  by (simp_all add: is_ok_def)

lemma is_ok_iff: "is_ok r \<longleftrightarrow> (\<exists>a. r = Inr a)"
  by (cases r) auto

lemma transpose_map_simps [simp]:
  "transpose_map f None = Inr None"
  "transpose_map f (Some a) = rbind (f a) (\<lambda>b. Inr (Some b))"
  by (simp_all add: transpose_map_def)

lemma collect_results_map:
  assumes "\<And>x. x \<in> set xs \<Longrightarrow> f (g x) = Inr x"
  shows "collect_results f (map g xs) = Inr xs"
  using assms by (induction xs) auto

lemma collect_results_Inr_iff:
  "collect_results f xs = Inr ys \<longleftrightarrow> list_all2 (\<lambda>x y. f x = Inr y) xs ys"
  by (induction xs arbitrary: ys) (auto simp: result_simps list_all2_Cons1)

lemma collect_results_total:
  "(\<exists>ys. collect_results f xs = Inr ys) \<longleftrightarrow> (\<forall>x\<in>set xs. is_ok (f x))"
  by (induction xs) (auto simp: result_simps is_ok_iff)

lemma try_for_each_Inr_iff: "try_for_each f xs = Inr u \<longleftrightarrow> (\<forall>x\<in>set xs. f x = Inr ())"
  by (induction xs) (auto simp: result_simps)

lemma try_for_each_InlD: "try_for_each f xs = Inl e \<Longrightarrow> \<exists>x\<in>set xs. f x = Inl e"
  by (induction xs) (auto simp: result_simps)

text \<open>The error that is reported is that of the first element with one.\<close>

lemma try_for_each_first:
  "try_for_each f xs = Inl e \<Longrightarrow> \<exists>j<length xs. f (xs ! j) = Inl e \<and> (\<forall>i<j. f (xs ! i) = Inr ())"
proof (induction xs)
  case (Cons x xs)
  show ?case
  proof (cases "f x")
    case (Inl a)
    with Cons.prems show ?thesis by (intro exI [of _ 0]) simp
  next
    case (Inr u)
    with Cons obtain j where "j < length xs" "f (xs ! j) = Inl e" "\<forall>i<j. f (xs ! i) = Inr ()" by auto
    with Inr show ?thesis by (intro exI [of _ "Suc j"]) (auto simp: nth_Cons split: nat.split)
  qed
qed simp

section \<open>Integer arithmetic\<close>

definition checked_add :: "'a::len word \<Rightarrow> 'a word \<Rightarrow> 'a word option" where
  "checked_add a b = (if uint a + uint b < 2 ^ LENGTH('a) then Some (a + b) else None)"

definition checked_sub :: "'a::len word \<Rightarrow> 'a word \<Rightarrow> 'a word option" where
  "checked_sub a b = (if b \<le> a then Some (a - b) else None)"

definition saturating_sub :: "'a::len word \<Rightarrow> 'a word \<Rightarrow> 'a word" where
  "saturating_sub a b = (if a < b then 0 else a - b)"

definition saturating_mul :: "'a::len word \<Rightarrow> 'a word \<Rightarrow> 'a word" where
  "saturating_mul a b = (if uint a * uint b < 2 ^ LENGTH('a) then a * b else - 1)"

lemma uint_bounds_as_unat:
  "uint a + uint (b :: 'a::len word) < 2 ^ LENGTH('a) \<longleftrightarrow> unat a + unat b < 2 ^ LENGTH('a)"
  "uint a * uint (b :: 'a::len word) < 2 ^ LENGTH('a) \<longleftrightarrow> unat a * unat b < 2 ^ LENGTH('a)"
proof -
  have "uint a + uint b = int (unat a + unat b)" and "uint a * uint b = int (unat a * unat b)"
    and "(2 :: int) ^ LENGTH('a) = int (2 ^ LENGTH('a))" by simp_all
  then show "uint a + uint b < 2 ^ LENGTH('a) \<longleftrightarrow> unat a + unat b < 2 ^ LENGTH('a)"
    and "uint a * uint b < 2 ^ LENGTH('a) \<longleftrightarrow> unat a * unat b < 2 ^ LENGTH('a)"
    by (simp_all only: of_nat_less_iff)
qed

lemma checked_add_as_unat:
  "checked_add a (b :: 'a::len word) = (if unat a + unat b < 2 ^ LENGTH('a) then Some (a + b) else None)"
  by (simp only: checked_add_def uint_bounds_as_unat)

lemma saturating_mul_as_unat:
  "saturating_mul a (b :: 'a::len word) = (if unat a * unat b < 2 ^ LENGTH('a) then a * b else - 1)"
  by (simp only: saturating_mul_def uint_bounds_as_unat)

lemma checked_add_Some_iff [num_simps]:
  "checked_add a (b :: 'a::len word) = Some c
     \<longleftrightarrow> unat a + unat b < 2 ^ LENGTH('a) \<and> unat c = unat a + unat b"
proof -
  have "unat (a + b) = unat a + unat b" if "unat a + unat b < 2 ^ LENGTH('a)"
    using that by (simp add: unat_word_ariths)
  then show ?thesis
    by (auto simp: checked_add_as_unat intro: word_unat_eq_iff [THEN iffD2])
qed

lemma checked_add_None_iff [num_simps]:
  "checked_add a (b :: 'a::len word) = None \<longleftrightarrow> 2 ^ LENGTH('a) \<le> unat a + unat b"
  by (auto simp: checked_add_as_unat)

lemma checked_sub_Some_iff [num_simps]:
  "checked_sub a (b :: 'a::len word) = Some c \<longleftrightarrow> unat a = unat b + unat c"
proof
  assume "checked_sub a b = Some c"
  then have "b \<le> a" and "c = a - b" by (auto simp: checked_sub_def split: if_splits)
  then show "unat a = unat b + unat c" by (simp add: unat_sub word_le_nat_alt)
next
  assume *: "unat a = unat b + unat c"
  then have "b \<le> a" by (simp add: word_le_nat_alt)
  moreover from this * have "unat (a - b) = unat c" by (simp add: unat_sub)
  ultimately show "checked_sub a b = Some c"
    by (auto simp: checked_sub_def intro: word_unat_eq_iff [THEN iffD2])
qed

lemma checked_sub_None_iff [num_simps]: "checked_sub a b = None \<longleftrightarrow> unat a < unat b"
  by (auto simp: checked_sub_def word_le_nat_alt)

lemma unat_saturating_sub [num_simps]: "unat (saturating_sub a b) = unat a - unat b"
  by (auto simp: saturating_sub_def word_less_nat_alt unat_sub word_le_nat_alt not_less)

lemma unat_add_no_wrap [num_simps]:
  "unat a + unat (b :: 'a::len word) < 2 ^ LENGTH('a) \<Longrightarrow> unat (a + b) = unat a + unat b"
  by (simp add: unat_word_ariths)

lemma unat_mult_no_wrap [num_simps]:
  "unat a * unat (b :: 'a::len word) < 2 ^ LENGTH('a) \<Longrightarrow> unat (a * b) = unat a * unat b"
  by (simp add: unat_word_ariths)

lemma unat_of_nat_small [num_simps]:
  "n < 2 ^ LENGTH('a) \<Longrightarrow> unat (of_nat n :: 'a::len word) = n"
  by (simp add: unat_of_nat)

lemma unat_eq_iff_of_nat:
  "n < 2 ^ LENGTH('a) \<Longrightarrow> unat (w :: 'a::len word) = n \<longleftrightarrow> w = of_nat n"
  by (metis unat_of_nat_small word_unat_eq_iff)

lemma unat_less_power [simp]: "unat (w :: 'a::len word) < 2 ^ LENGTH('a)"
  by (rule unsigned_less)

lemma unat_max: "unat (max a (b :: 'a::len word)) = max (unat a) (unat b)"
  by (auto simp: max_def word_le_nat_alt)

lemma unat_min: "unat (min a (b :: 'a::len word)) = min (unat a) (unat b)"
  by (auto simp: min_def word_le_nat_alt)

text \<open>\<open>iter.sum()\<close> on an unsigned type wraps in a release build.\<close>

lemma unat_sum_list_no_wrap:
  fixes xs :: "'a::len word list"
  assumes "sum_list (map unat xs) < 2 ^ LENGTH('a)"
  shows "unat (sum_list xs) = sum_list (map unat xs)"
  using assms by (induction xs) (auto simp: unat_add_no_wrap)

section \<open>Ranges\<close>

text \<open>\<open>RangeBounds<u64>\<close>: a pair of bounds; \<open>a..b\<close> and \<open>..=b\<close> are the two forms
  the code builds.\<close>

datatype bound = Included u64 | Excluded u64 | Unbounded

type_synonym u64_range = "bound \<times> bound"

definition range_half_open :: "u64 \<Rightarrow> u64 \<Rightarrow> u64_range" where
  "range_half_open a b = (Included a, Excluded b)"

definition range_to_inclusive :: "u64 \<Rightarrow> u64_range" where
  "range_to_inclusive b = (Unbounded, Included b)"

fun above_bound :: "bound \<Rightarrow> u64 \<Rightarrow> bool" where
  "above_bound (Included a) x = (a \<le> x)"
| "above_bound (Excluded a) x = (a < x)"
| "above_bound Unbounded x = True"

fun below_bound :: "bound \<Rightarrow> u64 \<Rightarrow> bool" where
  "below_bound (Included b) x = (x \<le> b)"
| "below_bound (Excluded b) x = (x < b)"
| "below_bound Unbounded x = True"

definition range_contains :: "u64_range \<Rightarrow> u64 \<Rightarrow> bool" where
  "range_contains r x = (above_bound (fst r) x \<and> below_bound (snd r) x)"

lemma range_contains_simps [simp]:
  "range_contains (range_half_open a b) x \<longleftrightarrow> a \<le> x \<and> x < b"
  "range_contains (range_to_inclusive b) x \<longleftrightarrow> x \<le> b"
  by (simp_all add: range_contains_def range_half_open_def range_to_inclusive_def)

section \<open>Panics\<close>

text \<open>A call that returns, or panics.\<close>

datatype 'a outcome = Returned 'a | Panicked

definition bind_outcome :: "'a outcome \<Rightarrow> ('a \<Rightarrow> 'b outcome) \<Rightarrow> 'b outcome" where
  "bind_outcome r f = (case r of Returned a \<Rightarrow> f a | Panicked \<Rightarrow> Panicked)"

section \<open>Lists and multisets\<close>

text \<open>A loop that pushes each element into one of two vectors.\<close>

lemma mset_filter_partition: "mset (filter P xs) + mset (filter (\<lambda>x. \<not> P x) xs) = mset xs"
  by (induction xs) auto

lemma sorted_map_filter_less:
  assumes "sorted (map f xs)"
  shows "takeWhile (\<lambda>x. f x < c) xs = filter (\<lambda>x. f x < c) (xs :: 'a list)"
  using assms
proof (induction xs)
  case Nil
  then show ?case by simp
next
  case (Cons x xs)
  then have "filter (\<lambda>y. f y < c) xs = []" if "\<not> f x < c"
    using that by (force simp: filter_empty_conv)
  with Cons show ?case by auto
qed

lemma sum_list_map_mset_cong:
  "mset xs = mset ys \<Longrightarrow> sum_list (map f xs) = sum_list (map (f :: 'a \<Rightarrow> nat) ys)"
  by (metis mset_map sum_mset_sum_list)

end
