(* ===== verification/Eip712.thy ===== *)
theory Eip712
  imports Text
begin

text \<open>
  The crate \<open>eip712_message\<close> (\<open>crates/eip712_message/src/lib.rs\<close>): signed messages, their
  construction with a wallet, signer recovery, and the canonical signature bytes that identify a
  message. The EIP-712 hash, ECDSA signing and recovery, and the byte form of a signature belong to
  the \<open>alloy\<close> library, which is not part of the repository: they are the fields of the record
  \<open>crypto\<close> and the argument \<open>hash\<close>, and the laws the code relies on are the predicates
  \<open>signing_law\<close> and \<open>normalization_law\<close>.
\<close>

section \<open>The interface of the cryptographic library\<close>

text \<open>\<open>'sg\<close> is the library's \<open>Signature\<close>, \<open>'k\<close> its \<open>PrivateKeySigner\<close>.\<close>

record ('sg, 'k) crypto =
  sign_hash_sync :: "'k \<Rightarrow> b256 \<Rightarrow> string + 'sg"
  recover_address_from_prehash :: "'sg \<Rightarrow> b256 \<Rightarrow> string + address"
  key_address :: "'k \<Rightarrow> address"
  normalized_s :: "'sg \<Rightarrow> 'sg"
  sig_as_bytes :: "'sg \<Rightarrow> byte list"
  sig_try_from :: "byte list \<Rightarrow> string + 'sg"

text \<open>A signature made with a key recovers to the address of that key.\<close>

definition signing_law :: "('sg, 'k) crypto \<Rightarrow> bool" where
  "signing_law C \<longleftrightarrow>
     (\<forall>k h sg. sign_hash_sync C k h = Inr sg \<longrightarrow>
        recover_address_from_prehash C sg h = Inr (key_address C k))"

text \<open>Normalising to the low-S form changes neither the signer nor a normalised signature.\<close>

definition normalization_law :: "('sg, 'k) crypto \<Rightarrow> bool" where
  "normalization_law C \<longleftrightarrow>
     (\<forall>sg h. recover_address_from_prehash C (normalized_s C sg) h =
        recover_address_from_prehash C sg h) \<and>
     (\<forall>sg. normalized_s C (normalized_s C sg) = normalized_s C sg)"

text \<open>The 65-byte form of a signature is read back.\<close>

definition signature_bytes_law :: "('sg, 'k) crypto \<Rightarrow> bool" where
  "signature_bytes_law C \<longleftrightarrow> (\<forall>sg. sig_try_from C (sig_as_bytes C sg) = Inr sg)"

section \<open>The texts of the library's values\<close>

text \<open>\<open>Display\<close>, \<open>Debug\<close> and \<open>{:#X}\<close> of addresses and 32-byte values, \<open>Debug\<close> of
  signature bytes, and \<open>Address::from_str\<close>.\<close>

record alloy_fmt =
  fmt_address :: "address \<Rightarrow> string"
  fmt_address_debug :: "address \<Rightarrow> string"
  fmt_b256 :: "b256 \<Rightarrow> string"
  fmt_b256_debug :: "b256 \<Rightarrow> string"
  fmt_b256_upper :: "b256 \<Rightarrow> string"
  fmt_signature_bytes :: "byte list \<Rightarrow> string"
  parse_address :: "string \<Rightarrow> string + address"

text \<open>What the code relies on in these texts: the debug form of an address is read back, that of a
  32-byte value is \<open>0x\<close> and 64 digits, of which the last 40 are read as the address in its last
  20 bytes, and neither contains a colon.\<close>

definition address_text_law :: "alloy_fmt \<Rightarrow> bool" where
  "address_text_law F \<longleftrightarrow>
     (\<forall>a. parse_address F (fmt_address_debug F a) = Inr a \<and> CHR '':'' \<notin> set (fmt_address_debug F a))"

definition b256_text_law :: "alloy_fmt \<Rightarrow> bool" where
  "b256_text_law F \<longleftrightarrow>
     (\<forall>c. length (fmt_b256_debug F c) = 66 \<and>
        parse_address F (drop 26 (fmt_b256_debug F c)) = Inr (ucast c))"

section \<open>Signed messages\<close>

datatype eip712_error = WalletError string | SignatureError string

text \<open>\<open>Display\<close> of the error is transparent: the text of the library's error.\<close>

fun eip712_error_to_string :: "eip712_error \<Rightarrow> string" where
  "eip712_error_to_string (WalletError s) = s"
| "eip712_error_to_string (SignatureError s) = s"

record eip712_domain =
  dom_name :: string
  dom_version :: string
  dom_chain_id :: u64
  dom_verifying_contract :: address

record ('m, 'sg) signed_message =
  message :: 'm
  signature :: 'sg

type_synonym signature_bytes = "byte list"

definition get_signature_bytes :: "('sg, 'k) crypto \<Rightarrow> 'sg \<Rightarrow> signature_bytes" where
  "get_signature_bytes C sg = (let canonical = normalized_s C sg in sig_as_bytes C canonical)"

definition signed_message_new ::
    "('sg, 'k) crypto \<Rightarrow> (eip712_domain \<Rightarrow> 'm \<Rightarrow> b256) \<Rightarrow> eip712_domain \<Rightarrow> 'm \<Rightarrow> 'k
       \<Rightarrow> eip712_error + ('m, 'sg) signed_message" where
  "signed_message_new C hash domain m wallet =
     (let recovery_message_hash = hash domain m in
      rbind (map_err WalletError (sign_hash_sync C wallet recovery_message_hash))
        (\<lambda>sg. Inr \<lparr>message = m, signature = sg\<rparr>))"

definition recover_signer ::
    "('sg, 'k) crypto \<Rightarrow> (eip712_domain \<Rightarrow> 'm \<Rightarrow> b256) \<Rightarrow> eip712_domain
       \<Rightarrow> ('m, 'sg) signed_message \<Rightarrow> eip712_error + address" where
  "recover_signer C hash domain sm =
     (let recovery_message_hash = hash domain (message sm) in
      rbind (map_err SignatureError
               (recover_address_from_prehash C (signature sm) recovery_message_hash))
        (\<lambda>recovered_address. Inr recovered_address))"

text \<open>\<open>unique_hash\<close>: the struct hash of the contents, whatever the signature
  (\<open>eip712_hash_struct\<close> is the library's).\<close>

definition unique_hash :: "('m \<Rightarrow> b256) \<Rightarrow> ('m, 'sg) signed_message \<Rightarrow> b256" where
  "unique_hash hash_struct sm = hash_struct (message sm)"

section \<open>Lemmas\<close>

lemma signed_message_new_Inr_iff [result_simps]:
  "signed_message_new C hash d m k = Inr sm \<longleftrightarrow>
     message sm = m \<and> sign_hash_sync C k (hash d m) = Inr (signature sm)"
  by (cases sm) (auto simp: signed_message_new_def result_simps)

lemma recover_signer_Inr_iff [result_simps]:
  "recover_signer C hash d sm = Inr a \<longleftrightarrow>
     recover_address_from_prehash C (signature sm) (hash d (message sm)) = Inr a"
  by (auto simp: recover_signer_def result_simps)

text \<open>A message built with a wallet recovers to the wallet's address.\<close>

lemma recover_signer_new:
  assumes "signing_law C" and "signed_message_new C hash d m k = Inr sm"
  shows "recover_signer C hash d sm = Inr (key_address C k)"
  using assms by (auto simp: signing_law_def result_simps)

text \<open>Two signatures with one canonical form give the same bytes.\<close>

lemma get_signature_bytes_normalized:
  "normalization_law C \<Longrightarrow> get_signature_bytes C (normalized_s C sg) = get_signature_bytes C sg"
  by (simp add: get_signature_bytes_def normalization_law_def)

end
