(* ===== verification/Receipt.thy ===== *)
theory Receipt
  imports Eip712
begin

text \<open>
  The crate \<open>receipt\<close> (\<open>crates/receipt/src\<close>): the errors of \<open>error.rs\<close>, the typestates
  of \<open>state.rs\<close>, the wrapper \<open>ReceiptWithState\<close> of \<open>received_receipt.rs\<close> with its
  check pipeline, the batch checks of \<open>checks.rs\<close>, and the aggregation errors of \<open>rav.rs\<close>.

  A user-supplied check is a function of the state it shares with the context (\<open>'st\<close>), the
  request's \<open>Context\<close> (\<open>'c\<close>, the code's type map) and the receipt.
\<close>

section \<open>Errors and states\<close>

datatype receipt_error =
    InvalidCollectionID (err_collection_id: b256)
  | InvalidSignature (err_source_message: string)
  | InvalidTimestamp (err_received_timestamp: u64) (err_timestamp_min: u64)
  | InvalidValue (err_received_value: u128)
  | NonUniqueReceipt
  | SubtractEscrowFailed
  | CheckFailure string
  | RetryableCheck string

text \<open>The \<open>Display\<close> texts of \<open>error.rs\<close>; the hexadecimal form of a 32-byte value is the
  library's (\<open>show_b256\<close>).\<close>

fun receipt_error_to_string :: "(b256 \<Rightarrow> string) \<Rightarrow> receipt_error \<Rightarrow> string" where
  "receipt_error_to_string show_b256 (InvalidCollectionID i) =
     ''invalid collection ID: '' @ show_b256 i"
| "receipt_error_to_string show_b256 (InvalidSignature m) =
     ''Signature check failed:'' @ [CHR 0x0A] @ m"
| "receipt_error_to_string show_b256 (InvalidTimestamp r t) =
     ''invalid timestamp: '' @ show_word r @ '' (expected min '' @ show_word t @ '')''"
| "receipt_error_to_string show_b256 (InvalidValue v) = ''Invalid Value: '' @ show_word v @ '' ''"
| "receipt_error_to_string show_b256 NonUniqueReceipt = ''Receipt is not unique''"
| "receipt_error_to_string show_b256 SubtractEscrowFailed = ''Attempt to collect escrow failed''"
| "receipt_error_to_string show_b256 (CheckFailure m) =
     ''Issue encountered while performing check: '' @ m"
| "receipt_error_to_string show_b256 (RetryableCheck m) =
     ''Retryable check error encountered: '' @ m"

datatype checking_state = Checking
datatype failed_state = Failed receipt_error
datatype checked_state = Checked

record ('s, 'r) receipt_with_state =
  rx_receipt :: 'r
  rx_state :: 's

type_synonym 'r checking_receipt = "(checking_state, 'r) receipt_with_state"
type_synonym 'r failed_receipt = "(failed_state, 'r) receipt_with_state"
type_synonym 'r checked_receipt = "(checked_state, 'r) receipt_with_state"

datatype check_error = Retryable anyhow_error | CheckFailed anyhow_error

datatype aggregation_error =
    AggregateOverflow
  | NoValidReceiptsForRavRequest
  | OtherAggregationError anyhow_error

fun aggregation_error_to_string :: "aggregation_error \<Rightarrow> string" where
  "aggregation_error_to_string AggregateOverflow = ''Aggregating receipt results in overflow''"
| "aggregation_error_to_string NoValidReceiptsForRavRequest =
     ''Failed to produce rav request, no valid receipts''"
| "aggregation_error_to_string (OtherAggregationError e) = e"

text \<open>The traits \<open>WithValueAndTimestamp\<close> and \<open>WithUniqueId\<close> of \<open>lib.rs\<close>, as the
  operations a receipt type brings along.\<close>

record ('r, 'u) receipt_ops =
  op_value :: "'r \<Rightarrow> u128"
  op_timestamp_ns :: "'r \<Rightarrow> u64"
  op_unique_id :: "'r \<Rightarrow> 'u"

definition signed_message_ops ::
    "('sg, 'k) crypto \<Rightarrow> ('m \<Rightarrow> u128) \<Rightarrow> ('m \<Rightarrow> u64)
       \<Rightarrow> (('m, 'sg) signed_message, signature_bytes) receipt_ops" where
  "signed_message_ops C val ts =
     \<lparr>op_value = \<lambda>sm. val (message sm),
      op_timestamp_ns = \<lambda>sm. ts (message sm),
      op_unique_id = \<lambda>sm. get_signature_bytes C (signature sm)\<rparr>"

section \<open>The receipt wrapper\<close>

definition receipt_new :: "'r \<Rightarrow> 'r checking_receipt" where
  "receipt_new r = \<lparr>rx_receipt = r, rx_state = Checking\<rparr>"

definition signed_receipt :: "('s, 'r) receipt_with_state \<Rightarrow> 'r" where
  "signed_receipt rx = rx_receipt rx"

definition perform_state_error ::
    "('s, 'r) receipt_with_state \<Rightarrow> receipt_error \<Rightarrow> 'r failed_receipt" where
  "perform_state_error rx e = \<lparr>rx_receipt = rx_receipt rx, rx_state = Failed e\<rparr>"

definition perform_state_changes ::
    "('s, 'r) receipt_with_state \<Rightarrow> 't \<Rightarrow> ('t, 'r) receipt_with_state" where
  "perform_state_changes rx new_state = \<lparr>rx_receipt = rx_receipt rx, rx_state = new_state\<rparr>"

fun state_error :: "failed_state \<Rightarrow> receipt_error" where
  "state_error (Failed e) = e"

definition receipt_error_of :: "'r failed_receipt \<Rightarrow> receipt_error" where
  "receipt_error_of rx = state_error (rx_state rx)"

type_synonym ('st, 'c, 'r) receipt_check = "'st \<Rightarrow> 'c \<Rightarrow> 'r checking_receipt \<Rightarrow> check_error + unit"

fun check_error_to_receipt_error :: "check_error \<Rightarrow> receipt_error" where
  "check_error_to_receipt_error (Retryable e) = RetryableCheck e"
| "check_error_to_receipt_error (CheckFailed e) = CheckFailure e"

fun perform_checks ::
    "'st \<Rightarrow> 'c \<Rightarrow> ('st, 'c, 'r) receipt_check list \<Rightarrow> 'r checking_receipt
       \<Rightarrow> receipt_error + unit" where
  "perform_checks st ctx [] rx = Inr ()"
| "perform_checks st ctx (check # checks) rx =
     rbind (map_err check_error_to_receipt_error (check st ctx rx))
       (\<lambda>_. perform_checks st ctx checks rx)"

text \<open>\<open>Err\<close> for a retryable error, else \<open>Ok\<close> of the receipt in its final state.\<close>

definition finalize_receipt_checks ::
    "'st \<Rightarrow> 'c \<Rightarrow> ('st, 'c, 'r) receipt_check list \<Rightarrow> 'r checking_receipt
       \<Rightarrow> string + ('r failed_receipt + 'r checked_receipt)" where
  "finalize_receipt_checks st ctx checks rx =
     (case perform_checks st ctx checks rx of
        Inl (RetryableCheck e) \<Rightarrow> Inl e
      | Inl e \<Rightarrow> Inr (Inl (perform_state_error rx e))
      | Inr _ \<Rightarrow> Inr (Inr (perform_state_changes rx Checked)))"

section \<open>Built-in checks\<close>

text \<open>\<open>StatefulTimestampCheck\<close>: the minimum timestamp lives in the shared state and is read
  through \<open>min_timestamp\<close> at each check; a receipt must be strictly later.\<close>

definition stateful_timestamp_check ::
    "('st \<Rightarrow> u64) \<Rightarrow> ('r \<Rightarrow> u64) \<Rightarrow> (b256 \<Rightarrow> string) \<Rightarrow> ('st, 'c, 'r) receipt_check" where
  "stateful_timestamp_check min_timestamp ts show_b256 st ctx rx =
     (let min_timestamp_ns = min_timestamp st; r = signed_receipt rx in
      if ts r \<le> min_timestamp_ns
      then Inl (CheckFailed (receipt_error_to_string show_b256
                               (InvalidTimestamp (ts r) min_timestamp_ns)))
      else Inr ())"

text \<open>\<open>CheckBatch::check_batch\<close> of \<open>TimestampCheck\<close>: passing and failing receipts, each
  in the order of the input.\<close>

fun timestamp_check_loop ::
    "('r \<Rightarrow> u64) \<Rightarrow> u64 \<Rightarrow> 'r checking_receipt list
       \<Rightarrow> 'r checking_receipt list \<times> 'r failed_receipt list" where
  "timestamp_check_loop ts min_timestamp_ns [] = ([], [])"
| "timestamp_check_loop ts min_timestamp_ns (rx # rxs) =
     (let receipt_timestamp_ns = ts (signed_receipt rx);
          (checking, failed) = timestamp_check_loop ts min_timestamp_ns rxs in
      if min_timestamp_ns \<le> receipt_timestamp_ns then (rx # checking, failed)
      else (checking,
            perform_state_error rx (InvalidTimestamp receipt_timestamp_ns min_timestamp_ns) # failed))"

definition timestamp_check_batch ::
    "('r, 'u) receipt_ops \<Rightarrow> u64 \<Rightarrow> 'r checking_receipt list
       \<Rightarrow> eip712_error + ('r checking_receipt list \<times> 'r failed_receipt list)" where
  "timestamp_check_batch ops min_timestamp_ns rxs =
     Inr (timestamp_check_loop (op_timestamp_ns ops) min_timestamp_ns rxs)"

text \<open>\<open>check_batch\<close> of \<open>UniqueCheck\<close>: the first receipt with an identifier passes, every
  later one with the same identifier fails.\<close>

fun unique_check_loop ::
    "('r \<Rightarrow> 'u) \<Rightarrow> 'u set \<Rightarrow> 'r checking_receipt list
       \<Rightarrow> 'r checking_receipt list \<times> 'r failed_receipt list" where
  "unique_check_loop uid signatures [] = ([], [])"
| "unique_check_loop uid signatures (rx # rxs) =
     (let unique_id = uid (rx_receipt rx);
          (checking, failed) = unique_check_loop uid (insert unique_id signatures) rxs in
      if unique_id \<notin> signatures then (rx # checking, failed)
      else (checking, perform_state_error rx NonUniqueReceipt # failed))"

definition unique_check_batch ::
    "('r, 'u) receipt_ops \<Rightarrow> 'r checking_receipt list
       \<Rightarrow> eip712_error + ('r checking_receipt list \<times> 'r failed_receipt list)" where
  "unique_check_batch ops rxs = Inr (unique_check_loop (op_unique_id ops) {} rxs)"

section \<open>Lemmas\<close>

named_theorems rx_simps "projections of the receipt wrapper"

lemma rx_projections [simp, rx_simps]:
  "rx_receipt (receipt_new r) = r"
  "rx_receipt (perform_state_error rx e) = rx_receipt rx"
  "rx_state (perform_state_error rx e) = Failed e"
  "rx_receipt (perform_state_changes rx s) = rx_receipt rx"
  "rx_state (perform_state_changes rx s) = s"
  by (simp_all add: receipt_new_def perform_state_error_def perform_state_changes_def)

lemma receipt_error_of_state_error [simp]: "receipt_error_of (perform_state_error rx e) = e"
  by (simp add: receipt_error_of_def)

lemma check_error_to_receipt_error_inj:
  "check_error_to_receipt_error e = check_error_to_receipt_error e' \<longleftrightarrow> e = e'"
  by (cases e; cases e') simp_all

subsection \<open>The check pipeline\<close>

lemma perform_checks_Inr_iff [result_simps]:
  "perform_checks st ctx checks rx = Inr u \<longleftrightarrow> (\<forall>check\<in>set checks. check st ctx rx = Inr ())"
  by (induction checks) (auto simp: result_simps)

text \<open>The error is the one of the first check that fails.\<close>

lemma perform_checks_InlD:
  "perform_checks st ctx checks rx = Inl e \<Longrightarrow>
     \<exists>check\<in>set checks. \<exists>e'. check st ctx rx = Inl e' \<and> e = check_error_to_receipt_error e'"
  by (induction checks) (auto simp: result_simps map_err_Inl_iff)

lemma perform_checks_first_error:
  assumes "\<forall>c\<in>set pre. c st ctx rx = Inr ()" and "check st ctx rx = Inl e"
  shows "perform_checks st ctx (pre @ check # post) rx = Inl (check_error_to_receipt_error e)"
  using assms by (induction pre) auto

lemma finalize_cases:
  "finalize_receipt_checks st ctx checks rx =
     (case perform_checks st ctx checks rx of
        Inl e \<Rightarrow> (case e of RetryableCheck m \<Rightarrow> Inl m | _ \<Rightarrow> Inr (Inl (perform_state_error rx e)))
      | Inr _ \<Rightarrow> Inr (Inr (perform_state_changes rx Checked)))"
  by (simp add: finalize_receipt_checks_def split: sum.split receipt_error.split)

lemma finalize_checked_iff:
  "finalize_receipt_checks st ctx checks rx = Inr (Inr c) \<longleftrightarrow>
     c = perform_state_changes rx Checked \<and> (\<forall>check\<in>set checks. check st ctx rx = Inr ())"
proof (cases "perform_checks st ctx checks rx")
  case (Inl e)
  then show ?thesis
    using perform_checks_Inr_iff [of st ctx checks rx "()"]
    by (auto simp: finalize_cases split: receipt_error.splits)
next
  case (Inr u)
  then have "\<forall>check\<in>set checks. check st ctx rx = Inr ()"
    by (simp add: perform_checks_Inr_iff)
  with Inr show ?thesis by (auto simp: finalize_cases)
qed

lemma finalize_failed_iff:
  "finalize_receipt_checks st ctx checks rx = Inr (Inl f) \<longleftrightarrow>
     (\<exists>m. perform_checks st ctx checks rx = Inl (CheckFailure m) \<and>
          f = perform_state_error rx (CheckFailure m))"
proof (cases "perform_checks st ctx checks rx")
  case (Inl e)
  then obtain e' where "e = check_error_to_receipt_error e'"
    by (auto dest: perform_checks_InlD)
  with Inl show ?thesis by (cases e') (auto simp: finalize_cases)
next
  case (Inr u)
  then show ?thesis by (simp add: finalize_cases)
qed

lemma finalize_retry_iff:
  "finalize_receipt_checks st ctx checks rx = Inl m \<longleftrightarrow>
     perform_checks st ctx checks rx = Inl (RetryableCheck m)"
  by (auto simp: finalize_cases split: sum.splits receipt_error.splits)

lemma finalize_receipt:
  "finalize_receipt_checks st ctx checks rx = Inr (Inr c) \<Longrightarrow> rx_receipt c = rx_receipt rx"
  "finalize_receipt_checks st ctx checks rx = Inr (Inl f) \<Longrightarrow> rx_receipt f = rx_receipt rx"
  by (auto simp: finalize_checked_iff finalize_failed_iff)

lemma stateful_timestamp_check_Inr_iff [result_simps]:
  "stateful_timestamp_check mt ts sh st ctx rx = Inr u \<longleftrightarrow> mt st < ts (rx_receipt rx)"
  by (auto simp: stateful_timestamp_check_def signed_receipt_def Let_def)

subsection \<open>Batch checks\<close>

lemma timestamp_check_loop_filter:
  "timestamp_check_loop ts m rxs =
     (filter (\<lambda>rx. m \<le> ts (rx_receipt rx)) rxs,
      map (\<lambda>rx. perform_state_error rx (InvalidTimestamp (ts (rx_receipt rx)) m))
        (filter (\<lambda>rx. \<not> m \<le> ts (rx_receipt rx)) rxs))"
  by (induction rxs) (auto simp: signed_receipt_def Let_def)

lemma unique_check_passing_subset:
  "unique_check_loop uid seen rxs = (ok, bad) \<Longrightarrow>
     set ok \<subseteq> set rxs \<and> (\<forall>rx\<in>set ok. uid (rx_receipt rx) \<notin> seen)"
  by (induction rxs arbitrary: seen ok bad) (fastforce simp: Let_def split: prod.splits if_splits)+

lemma unique_check_distinct:
  "unique_check_loop uid seen rxs = (ok, bad) \<Longrightarrow> distinct (map (\<lambda>rx. uid (rx_receipt rx)) ok)"
proof (induction rxs arbitrary: seen ok bad)
  case Nil
  then show ?case by simp
next
  case (Cons rx rxs)
  obtain ok' bad' where rest: "unique_check_loop uid (insert (uid (rx_receipt rx)) seen) rxs = (ok', bad')"
    by fastforce
  have "uid (rx_receipt rx) \<notin> (\<lambda>y. uid (rx_receipt y)) ` set ok'"
    using unique_check_passing_subset [OF rest] by fastforce
  with Cons.IH [OF rest] Cons.prems rest show ?case
    by (auto simp: Let_def split: if_splits)
qed

lemma unique_check_covers:
  "unique_check_loop uid seen rxs = (ok, bad) \<Longrightarrow>
     (\<lambda>rx. uid (rx_receipt rx)) ` set rxs - seen = (\<lambda>rx. uid (rx_receipt rx)) ` set ok"
proof (induction rxs arbitrary: seen ok bad)
  case Nil
  then show ?case by simp
next
  case (Cons rx rxs)
  let ?u = "\<lambda>rx. uid (rx_receipt rx)"
  obtain ok' bad' where rest: "unique_check_loop uid (insert (?u rx) seen) rxs = (ok', bad')"
    by fastforce
  then have IH: "?u ` set ok' = ?u ` set rxs - insert (?u rx) seen" by (simp add: Cons.IH)
  have ok: "ok = (if ?u rx \<notin> seen then rx # ok' else ok')"
    using Cons.prems rest by (auto simp: Let_def split: if_splits)
  show ?case by (cases "?u rx \<in> seen") (simp_all add: ok IH, blast+)
qed

lemma unique_check_partition:
  "unique_check_loop uid seen rxs = (ok, bad) \<Longrightarrow>
     image_mset rx_receipt (mset ok) + image_mset rx_receipt (mset bad)
       = image_mset rx_receipt (mset rxs)"
  by (induction rxs arbitrary: seen ok bad) (fastforce simp: Let_def split: prod.splits if_splits)+

lemma unique_check_failed_error:
  "unique_check_loop uid seen rxs = (ok, bad) \<Longrightarrow> f \<in> set bad \<Longrightarrow>
     rx_state f = Failed NonUniqueReceipt"
  by (induction rxs arbitrary: seen ok bad) (fastforce simp: Let_def split: prod.splits if_splits)+

lemma unique_check_all_pass:
  "distinct (map (\<lambda>rx. uid (rx_receipt rx)) rxs) \<Longrightarrow>
     (\<forall>rx\<in>set rxs. uid (rx_receipt rx) \<notin> seen) \<Longrightarrow> unique_check_loop uid seen rxs = (rxs, [])"
proof (induction rxs arbitrary: seen)
  case Nil
  then show ?case by simp
next
  case (Cons rx rxs)
  have "unique_check_loop uid (insert (uid (rx_receipt rx)) seen) rxs = (rxs, [])"
    using Cons.prems by (intro Cons.IH) (auto simp: image_iff)
  with Cons.prems show ?case by (simp add: Let_def)
qed

end
