(* ===== verification/Graph.thy ===== *)
theory Graph
  imports Receipt
begin

text \<open>
  The crate \<open>graph\<close> (\<open>crates/graph/src/receipt.rs\<close>, \<open>rav.rs\<close>): the receipt and the
  Receipt Aggregate Voucher (RAV) of The Graph, the construction of a receipt, and the aggregation
  of a batch of receipts onto an optional previous RAV.
\<close>

section \<open>Receipts\<close>

record receipt =
  rcpt_collection_id :: b256
  rcpt_payer :: address
  rcpt_data_service :: address
  rcpt_service_provider :: address
  rcpt_timestamp_ns :: u64
  rcpt_nonce :: u64
  rcpt_value :: u128

type_synonym 'sg signed_receipt = "(receipt, 'sg) signed_message"

text \<open>The system clock is an argument: the nanoseconds since the epoch (\<open>as_nanos\<close> is a
  \<open>u128\<close>, the cast to \<open>u64\<close> drops the high bits), or the text of a
  \<open>SystemTimeError\<close>.\<close>

definition timestamp_u64_ns :: "string + u128 \<Rightarrow> string + u64" where
  "timestamp_u64_ns since_epoch = rbind since_epoch (\<lambda>nanos. Inr (ucast nanos))"

definition receipt_create ::
    "string + u128 \<Rightarrow> u64 \<Rightarrow> b256 \<Rightarrow> address \<Rightarrow> address \<Rightarrow> address \<Rightarrow> u128 \<Rightarrow> string + receipt" where
  "receipt_create since_epoch random_nonce collection_id payer data_service service_provider value =
     rbind (timestamp_u64_ns since_epoch) (\<lambda>timestamp_ns.
       Inr \<lparr>rcpt_collection_id = collection_id,
            rcpt_payer = payer,
            rcpt_data_service = data_service,
            rcpt_service_provider = service_provider,
            rcpt_timestamp_ns = timestamp_ns,
            rcpt_nonce = random_nonce,
            rcpt_value = value\<rparr>)"

definition signed_receipt_ops ::
    "('sg, 'k) crypto \<Rightarrow> ('sg signed_receipt, signature_bytes) receipt_ops" where
  "signed_receipt_ops C = signed_message_ops C rcpt_value rcpt_timestamp_ns"

section \<open>Receipt Aggregate Vouchers\<close>

record rav =
  rav_collectionId :: b256
  rav_payer :: address
  rav_serviceProvider :: address
  rav_dataService :: address
  rav_timestampNs :: u64
  rav_valueAggregate :: u128
  rav_metadata :: "byte list"

type_synonym 'sg signed_rav = "(rav, 'sg) signed_message"

text \<open>The loop of \<open>aggregate_receipts\<close>: the running maximum of the timestamps and the
  checked running sum of the values.\<close>

fun aggregate_loop :: "'sg signed_receipt list \<Rightarrow> u64 \<Rightarrow> u128 \<Rightarrow> aggregation_error + (u64 \<times> u128)" where
  "aggregate_loop [] timestamp_max value_aggregate = Inr (timestamp_max, value_aggregate)"
| "aggregate_loop (receipt # receipts) timestamp_max value_aggregate =
     rbind (ok_or (checked_add value_aggregate (rcpt_value (message receipt))) AggregateOverflow)
       (\<lambda>value_aggregate'.
          aggregate_loop receipts (max timestamp_max (rcpt_timestamp_ns (message receipt)))
            value_aggregate')"

definition aggregate_receipts ::
    "b256 \<Rightarrow> address \<Rightarrow> address \<Rightarrow> address \<Rightarrow> 'sg signed_receipt list \<Rightarrow> 'sg signed_rav option
       \<Rightarrow> aggregation_error + rav" where
  "aggregate_receipts collection_id payer data_service service_provider receipts previous_rav =
     (let (timestamp_max, value_aggregate) =
            (case previous_rav of
               Some prev_rav \<Rightarrow> (rav_timestampNs (message prev_rav), rav_valueAggregate (message prev_rav))
             | None \<Rightarrow> (0, 0)) in
      rbind (aggregate_loop receipts timestamp_max value_aggregate)
        (\<lambda>(timestamp_max, value_aggregate).
           Inr \<lparr>rav_collectionId = collection_id,
                rav_payer = payer,
                rav_serviceProvider = service_provider,
                rav_dataService = data_service,
                rav_timestampNs = timestamp_max,
                rav_valueAggregate = value_aggregate,
                rav_metadata = []\<rparr>))"

text \<open>\<open>impl Aggregate<SignedReceipt> for ReceiptAggregateVoucher\<close>: the identity of the RAV is
  that of the first receipt.\<close>

definition aggregate_checked ::
    "'sg signed_receipt checked_receipt list \<Rightarrow> 'sg signed_rav option \<Rightarrow> aggregation_error + rav" where
  "aggregate_checked receipts previous_rav =
     (case receipts of
        [] \<Rightarrow> Inl NoValidReceiptsForRavRequest
      | first # _ \<Rightarrow>
          aggregate_receipts
            (rcpt_collection_id (message (signed_receipt first)))
            (rcpt_payer (message (signed_receipt first)))
            (rcpt_data_service (message (signed_receipt first)))
            (rcpt_service_provider (message (signed_receipt first)))
            (map signed_receipt receipts)
            previous_rav)"

section \<open>Specification of aggregation\<close>

text \<open>What a RAV promises: the value owed so far and the latest time it covers, as plain numbers.\<close>

definition prev_value :: "'sg signed_rav option \<Rightarrow> nat" where
  "prev_value p = (case p of None \<Rightarrow> 0 | Some r \<Rightarrow> unat (rav_valueAggregate (message r)))"

definition prev_timestamp :: "'sg signed_rav option \<Rightarrow> u64" where
  "prev_timestamp p = (case p of None \<Rightarrow> 0 | Some r \<Rightarrow> rav_timestampNs (message r))"

definition total_value :: "'sg signed_receipt list \<Rightarrow> nat" where
  "total_value rs = sum_list (map (\<lambda>r. unat (rcpt_value (message r))) rs)"

definition latest_timestamp :: "'sg signed_receipt list \<Rightarrow> u64 \<Rightarrow> u64" where
  "latest_timestamp rs t = fold max (map (\<lambda>r. rcpt_timestamp_ns (message r)) rs) t"

lemma prev_simps [simp]:
  "prev_value None = 0" "prev_timestamp None = 0"
  "prev_value (Some r) = unat (rav_valueAggregate (message r))"
  "prev_timestamp (Some r) = rav_timestampNs (message r)"
  by (simp_all add: prev_value_def prev_timestamp_def)

lemma total_value_simps [simp]:
  "total_value [] = 0"
  "total_value (r # rs) = unat (rcpt_value (message r)) + total_value rs"
  "total_value (rs @ rs') = total_value rs + total_value rs'"
  by (simp_all add: total_value_def)

lemma latest_timestamp_simps [simp]:
  "latest_timestamp [] t = t"
  "latest_timestamp (r # rs) t = latest_timestamp rs (max t (rcpt_timestamp_ns (message r)))"
  "latest_timestamp (rs @ rs') t = latest_timestamp rs' (latest_timestamp rs t)"
  by (simp_all add: latest_timestamp_def max.commute)

lemma latest_timestamp_Max:
  "latest_timestamp rs t = Max (insert t ((\<lambda>r. rcpt_timestamp_ns (message r)) ` set rs))"
proof (induction rs arbitrary: t)
  case Nil
  then show ?case by simp
next
  case (Cons r rs)
  then show ?case
    by (cases "rs = []") (simp_all add: Max_insert max.assoc max.left_commute max.commute)
qed

lemma latest_timestamp_ge:
  "t \<le> latest_timestamp rs t"
  "r \<in> set rs \<Longrightarrow> rcpt_timestamp_ns (message r) \<le> latest_timestamp rs t"
  unfolding latest_timestamp_Max by (rule Max_ge; simp)+

lemma latest_timestamp_attained:
  "latest_timestamp rs t = t \<or> (\<exists>r\<in>set rs. latest_timestamp rs t = rcpt_timestamp_ns (message r))"
proof -
  have "latest_timestamp rs t \<in> insert t ((\<lambda>r. rcpt_timestamp_ns (message r)) ` set rs)"
    unfolding latest_timestamp_Max by (intro Max_in) auto
  then show ?thesis by auto
qed

lemma total_value_mset_cong: "mset rs = mset rs' \<Longrightarrow> total_value rs = total_value rs'"
  unfolding total_value_def by (rule sum_list_map_mset_cong)

lemma latest_timestamp_mset_cong: "mset rs = mset rs' \<Longrightarrow> latest_timestamp rs t = latest_timestamp rs' t"
  unfolding latest_timestamp_Max by (drule mset_eq_setD) simp

section \<open>The loop computes the specification\<close>

lemma aggregate_loop_Inr_iff:
  "aggregate_loop rs t v = Inr (t', v') \<longleftrightarrow>
     unat v + total_value rs < 2 ^ 128 \<and> unat v' = unat v + total_value rs \<and>
     t' = latest_timestamp rs t"
proof (induction rs arbitrary: t v)
  case Nil
  have "unat v < 2 ^ 128" using unat_less_power [of v] by simp
  then show ?case by (auto intro: word_unat_eq_iff [THEN iffD2])
next
  case (Cons r rs)
  let ?x = "rcpt_value (message r)"
  show ?case
  proof (cases "checked_add v ?x")
    case None
    then have "2 ^ 128 \<le> unat v + unat ?x" by (simp add: num_simps)
    with None show ?thesis by simp
  next
    case (Some v1)
    then have "unat v1 = unat v + unat ?x" by (simp add: num_simps)
    with Some Cons.IH show ?thesis by (simp add: add.assoc)
  qed
qed

lemma aggregate_loop_Inl_iff:
  "aggregate_loop rs t v = Inl e \<longleftrightarrow> e = AggregateOverflow \<and> 2 ^ 128 \<le> unat v + total_value rs"
proof (cases "aggregate_loop rs t v")
  case (Inl e')
  have "e' = AggregateOverflow"
    using Inl by (induction rs arbitrary: t v) (auto simp: result_simps ok_or_def split: option.splits)
  moreover have "2 ^ 128 \<le> unat v + total_value rs"
  proof (rule ccontr)
    assume *: "\<not> ?thesis"
    then have "unat (of_nat (unat v + total_value rs) :: u128) = unat v + total_value rs"
      by (intro unat_of_nat_small) simp
    with * have "aggregate_loop rs t v =
        Inr (latest_timestamp rs t, of_nat (unat v + total_value rs))"
      by (simp only: aggregate_loop_Inr_iff) simp
    with Inl show False by simp
  qed
  ultimately show ?thesis using Inl by auto
next
  case (Inr p)
  moreover obtain t' v' where "p = (t', v')" by (cases p)
  ultimately show ?thesis using aggregate_loop_Inr_iff [of rs t v t' v'] by simp
qed

lemma aggregate_receipts_Inr_iff:
  "aggregate_receipts c p d s rs prev = Inr r \<longleftrightarrow>
     prev_value prev + total_value rs < 2 ^ 128 \<and>
     r = \<lparr>rav_collectionId = c, rav_payer = p, rav_serviceProvider = s, rav_dataService = d,
          rav_timestampNs = latest_timestamp rs (prev_timestamp prev),
          rav_valueAggregate = of_nat (prev_value prev + total_value rs), rav_metadata = []\<rparr>"
proof -
  have *: "unat (w :: u128) = n \<longleftrightarrow> w = of_nat n" if "n < 2 ^ 128" for w n
    using that by (intro unat_eq_iff_of_nat) simp
  show ?thesis
    by (cases prev)
       (auto simp: aggregate_receipts_def result_simps aggregate_loop_Inr_iff *)
qed

lemma aggregate_receipts_Inl_iff:
  "aggregate_receipts c p d s rs prev = Inl e \<longleftrightarrow>
     e = AggregateOverflow \<and> 2 ^ 128 \<le> prev_value prev + total_value rs"
  by (cases prev) (auto simp: aggregate_receipts_def result_simps aggregate_loop_Inl_iff)

end
