(* ===== verification/Adapters.thy ===== *)
theory Adapters
  imports Graph
begin

text \<open>
  The errors of the crate \<open>core\<close> (\<open>crates/core/src/error.rs\<close>) and the adapters of
  \<open>crates/core/src/manager/adapters\<close>: the traits a context implements, as a record of
  operations on the context's state, the default method \<open>check_signature\<close>, and
  \<open>safe_truncate_receipts\<close>.

  The locale \<open>unstable_sort\<close> states what \<open>sort_unstable_by_key\<close> promises and proves the
  truncation correct for every sort that keeps the promise. The locale \<open>receipt_context\<close> states
  what the documentation of the traits asks of a context; the manager's guarantees are proved from
  it, and the in-memory context is an instance.
\<close>

section \<open>Errors\<close>

text \<open>Payloads that the code renders to text are kept as the value they are rendered from.\<close>

datatype 'v core_error =
    CoreAggregateOverflow
  | InvalidSystemTime string
  | CoreWalletError string
  | CoreSignatureError eip712_error
  | VerificationFailed (expected_address: address) (received_address: address)
  | InvalidReceivedRav (err_received_rav: 'v) (err_expected_rav: 'v)
  | AdapterError string
  | CoreNoValidReceiptsForRavRequest
  | RavCollectionIdMismatch (err_prev_id: b256) (err_new_id: b256)
  | RavCollectionIdNotUniform
  | DuplicateReceiptSignature signature_bytes
  | ReceiptTimestampLowerThanRav (lower_rav_ts: u64) (lower_receipt_ts: u64)
  | TimestampRangeError (err_min_timestamp_ns: u64) (err_max_timestamp_ns: u64)
  | ReceiptError receipt_error
  | InvalidRecoveredSigner address
  | FailedToVerifySigner string

text \<open>The \<open>Display\<close> texts of \<open>error.rs\<close>.\<close>

fun core_error_to_string :: "alloy_fmt \<Rightarrow> 'v core_error \<Rightarrow> string" where
  "core_error_to_string F CoreAggregateOverflow = ''Aggregating receipt results in overflow''"
| "core_error_to_string F (InvalidSystemTime e) = ''Failed to get current system time: '' @ e @ '' ''"
| "core_error_to_string F (CoreWalletError e) = e"
| "core_error_to_string F (CoreSignatureError e) = eip712_error_to_string e"
| "core_error_to_string F (VerificationFailed a b) =
     ''Expected address '' @ fmt_address F a @ '' but received '' @ fmt_address F b"
| "core_error_to_string F (InvalidReceivedRav r e) = ''Received RAV does not match expected RAV''"
| "core_error_to_string F (AdapterError e) = ''Error from adapter.'' @ [CHR 0x0A] @ '' Caused by: '' @ e"
| "core_error_to_string F CoreNoValidReceiptsForRavRequest =
     ''Failed to produce rav request, no valid receipts''"
| "core_error_to_string F (RavCollectionIdMismatch p n) =
     ''Previous RAV collection id ('' @ fmt_b256_upper F p
       @ '') doesn't match the collection id from the new receipt ('' @ fmt_b256_upper F n @ '').''"
| "core_error_to_string F RavCollectionIdNotUniform =
     ''All receipts should have the same collection id, but they don't''"
| "core_error_to_string F (DuplicateReceiptSignature sg) =
     ''Duplicate receipt signature: '' @ fmt_signature_bytes F sg"
| "core_error_to_string F (ReceiptTimestampLowerThanRav v r) =
     ''Receipt timestamp ('' @ show_word r @ '') is less or equal than previous rav timestamp (''
       @ show_word v @ '')''"
| "core_error_to_string F (TimestampRangeError a b) =
     ''Timestamp range error: min_timestamp_ns: '' @ show_word a @ '', max_timestamp_ns: ''
       @ show_word b @ ''. Adjust timestamp buffer.''"
| "core_error_to_string F (ReceiptError e) = ''Receipt error: '' @ receipt_error_to_string (fmt_b256 F) e"
| "core_error_to_string F (InvalidRecoveredSigner a) =
     ''Recovered sender address invalid '' @ fmt_address F a"
| "core_error_to_string F (FailedToVerifySigner e) = ''Failed to check the signer: '' @ e"

section \<open>The adapter traits\<close>

text \<open>An adapter works through a shared reference: it takes the context's state and returns the
  new one beside its result. Its error is the text of the user's error type.\<close>

record ('ctx, 'r, 'sv) adapters =
  update_last_rav :: "'sv \<Rightarrow> 'ctx \<Rightarrow> (string + unit) \<times> 'ctx"
  last_rav :: "'ctx \<Rightarrow> string + 'sv option"
  store_receipt :: "'r checking_receipt \<Rightarrow> 'ctx \<Rightarrow> (string + u64) \<times> 'ctx"
  remove_receipts_in_timestamp_range :: "u64_range \<Rightarrow> 'ctx \<Rightarrow> (string + unit) \<times> 'ctx"
  retrieve_receipts_in_timestamp_range ::
    "u64_range \<Rightarrow> u64 option \<Rightarrow> 'ctx \<Rightarrow> string + 'r checking_receipt list"
  verify_signer :: "address \<Rightarrow> 'ctx \<Rightarrow> string + bool"

definition check_signature ::
    "('ctx, 'r, 'sv) adapters \<Rightarrow> ('sg, 'k) crypto \<Rightarrow> (eip712_domain \<Rightarrow> 'm \<Rightarrow> b256)
       \<Rightarrow> ('m, 'sg) signed_message \<Rightarrow> eip712_domain \<Rightarrow> 'ctx \<Rightarrow> 'v core_error + unit" where
  "check_signature A C hash signed_msg domain_separator c =
     rbind (map_err CoreSignatureError (recover_signer C hash domain_separator signed_msg))
       (\<lambda>recovered_address.
          rbind (map_err FailedToVerifySigner (verify_signer A recovered_address c))
            (\<lambda>verified. if verified then Inr () else Inl (InvalidRecoveredSigner recovered_address)))"

lemma check_signature_Inr_iff [result_simps]:
  "check_signature A C hash sm d c = Inr u \<longleftrightarrow>
     (\<exists>a. recover_signer C hash d sm = Inr a \<and> verify_signer A a c = Inr True)"
  by (auto simp: check_signature_def result_simps)

section \<open>Truncation\<close>

text \<open>\<open>sort_unstable_by_key\<close> may permute elements with equal keys. The model takes the stable
  order, one of the permitted ones; the locale below shows that the multiset of the truncated
  receipts is the same for every permitted order.\<close>

definition sort_unstable_by_key :: "('a \<Rightarrow> 'b::linorder) \<Rightarrow> 'a list \<Rightarrow> 'a list" where
  "sort_unstable_by_key key xs = sort_key key xs"

text \<open>\<open>srt\<close> is the sort by \<open>ts\<close> that the function calls.\<close>

definition safe_truncate_with ::
    "('x list \<Rightarrow> 'x list) \<Rightarrow> ('x \<Rightarrow> u64) \<Rightarrow> 'x list \<Rightarrow> u64 \<Rightarrow> 'x list" where
  "safe_truncate_with srt ts receipts limit =
     (if length receipts \<le> unat limit then receipts
      else if limit = 0 then []
      else
        let sorted_receipts = srt receipts;
            last_timestamp = ts (sorted_receipts ! (unat limit - 1));
            after_last_timestamp = ts (sorted_receipts ! unat limit);
            truncated = take (unat limit) sorted_receipts in
        if last_timestamp = after_last_timestamp
        then filter (\<lambda>rx. ts rx \<noteq> last_timestamp) truncated
        else truncated)"

definition safe_truncate_receipts ::
    "('r \<Rightarrow> u64) \<Rightarrow> ('s, 'r) receipt_with_state list \<Rightarrow> u64 \<Rightarrow> ('s, 'r) receipt_with_state list" where
  "safe_truncate_receipts ts receipts limit =
     safe_truncate_with (sort_unstable_by_key (\<lambda>rx. ts (signed_receipt rx)))
       (\<lambda>rx. ts (signed_receipt rx)) receipts limit"

text \<open>The cut: the timestamp of the first receipt past the limit, in the sorted order.\<close>

definition cut_timestamp :: "('x \<Rightarrow> u64) \<Rightarrow> 'x list \<Rightarrow> u64 \<Rightarrow> u64" where
  "cut_timestamp ts receipts limit = sort (map ts receipts) ! unat limit"

locale unstable_sort =
  fixes ts :: "'x \<Rightarrow> u64" and srt :: "'x list \<Rightarrow> 'x list"
  assumes permutes: "mset (srt xs) = mset xs"
    and orders: "sorted (map ts (srt xs))"
begin

lemma length_srt [simp]: "length (srt xs) = length xs"
  by (rule mset_eq_length [OF permutes])

lemma map_ts_srt: "map ts (srt xs) = sort (map ts xs)"
  by (rule properties_for_sort [symmetric]) (simp_all add: orders permutes)

lemma nth_ts_srt: "i < length xs \<Longrightarrow> ts (srt xs ! i) = sort (map ts xs) ! i"
  by (simp flip: map_ts_srt)

lemma take_le_cut:
  assumes "unat n < length xs" and "x \<in> set (take (unat n) (srt xs))"
  shows "ts x \<le> cut_timestamp ts xs n"
proof -
  from assms(2) obtain i where i: "i < unat n" "i < length xs" "x = srt xs ! i"
    by (auto simp: in_set_conv_nth)
  then have "ts x = sort (map ts xs) ! i" by (simp add: nth_ts_srt)
  also have "\<dots> \<le> sort (map ts xs) ! unat n"
    using assms(1) i by (intro sorted_nth_mono) auto
  finally show ?thesis by (simp add: cut_timestamp_def)
qed

lemma drop_ge_cut:
  assumes "x \<in> set (drop (unat n) (srt xs))"
  shows "cut_timestamp ts xs n \<le> ts x"
proof -
  from assms obtain i where i: "unat n + i < length xs" "x = srt xs ! (unat n + i)"
    by (auto simp: in_set_conv_nth add.commute less_diff_conv)
  then have "ts x = sort (map ts xs) ! (unat n + i)" by (simp add: nth_ts_srt)
  moreover have "sort (map ts xs) ! unat n \<le> sort (map ts xs) ! (unat n + i)"
    using i by (intro sorted_nth_mono) auto
  ultimately show ?thesis by (simp add: cut_timestamp_def)
qed

lemma filter_below_cut:
  assumes "unat n < length xs"
  shows "filter (\<lambda>x. ts x < cut_timestamp ts xs n) (srt xs) =
         filter (\<lambda>x. ts x < cut_timestamp ts xs n) (take (unat n) (srt xs))"
proof -
  have "filter (\<lambda>x. ts x < cut_timestamp ts xs n) (drop (unat n) (srt xs)) = []"
    using drop_ge_cut by (auto simp: filter_empty_conv not_less)
  then show ?thesis
    by (metis append_Nil2 append_take_drop_id filter_append)
qed

text \<open>Truncation keeps exactly the receipts before the cut.\<close>

lemma truncate_filter:
  assumes "unat n < length xs"
  shows "safe_truncate_with srt ts xs n = filter (\<lambda>x. ts x < cut_timestamp ts xs n) (srt xs)"
proof (cases "n = 0")
  case True
  with assms filter_below_cut [OF assms] show ?thesis
    by (simp add: safe_truncate_with_def)
next
  case False
  let ?c = "cut_timestamp ts xs n" and ?zs = "take (unat n) (srt xs)"
  let ?l = "ts (srt xs ! (unat n - 1))"
  from False have pos: "0 < unat n" by (simp add: unat_gt_0)
  have c: "ts (srt xs ! unat n) = ?c"
    using assms by (simp add: nth_ts_srt cut_timestamp_def)
  have l: "ts x \<le> ?l" if "x \<in> set ?zs" for x
  proof -
    from that obtain i where "i < unat n" "i < length xs" "x = srt xs ! i"
      by (auto simp: in_set_conv_nth)
    with assms show ?thesis by (simp add: nth_ts_srt sorted_nth_mono)
  qed
  have "?l \<le> ?c"
    using assms pos by (simp add: nth_ts_srt cut_timestamp_def sorted_nth_mono)
  have "filter (\<lambda>x. ts x < ?c) ?zs =
      (if ?l = ?c then filter (\<lambda>x. ts x \<noteq> ?l) ?zs else ?zs)"
  proof (cases "?l = ?c")
    case True
    then show ?thesis
      using take_le_cut [OF assms] by (auto intro!: filter_cong simp: order.strict_iff_order)
  next
    case False
    with \<open>?l \<le> ?c\<close> l have "\<forall>x\<in>set ?zs. ts x < ?c"
      by (meson order.strict_iff_order order.strict_trans1)
    with False show ?thesis by (simp add: filter_id_conv)
  qed
  with False assms c show ?thesis
    by (simp add: safe_truncate_with_def Let_def filter_below_cut)
qed

lemma truncate_mset:
  "mset (safe_truncate_with srt ts xs n) =
     (if length xs \<le> unat n then mset xs
      else filter_mset (\<lambda>x. ts x < cut_timestamp ts xs n) (mset xs))"
proof (cases "length xs \<le> unat n")
  case True
  then show ?thesis by (simp add: safe_truncate_with_def)
next
  case False
  then have "unat n < length xs" by simp
  then show ?thesis by (simp add: truncate_filter permutes)
qed

lemma truncate_length: "length (safe_truncate_with srt ts xs n) \<le> unat n"
proof (cases "length xs \<le> unat n")
  case True
  then show ?thesis by (simp add: safe_truncate_with_def)
next
  case False
  then have *: "unat n < length xs" by simp
  have "length (filter (\<lambda>x. ts x < cut_timestamp ts xs n) (take (unat n) (srt xs))) \<le> unat n"
    by (rule order_trans [OF length_filter_le]) simp
  with * show ?thesis by (simp add: truncate_filter filter_below_cut)
qed

end

interpretation key_sort: unstable_sort ts "sort_unstable_by_key ts"
  for ts :: "'x \<Rightarrow> u64"
  by unfold_locales (simp_all add: sort_unstable_by_key_def)

section \<open>The interface of a context\<close>

text \<open>
  \<open>stored\<close> is the multiset of the receipts that the context holds, \<open>saved\<close> its last RAV.
  A context with \<open>room\<close> can take one more receipt. A limited retrieval returns at most that
  many receipts and leaves none behind at a timestamp that it returns.
\<close>

locale receipt_context =
  fixes A :: "('ctx, 'r, ('v, 'sg) signed_message) adapters"
    and ts :: "'r \<Rightarrow> u64"
    and inv :: "'ctx \<Rightarrow> bool"
    and room :: "'ctx \<Rightarrow> bool"
    and stored :: "'ctx \<Rightarrow> 'r multiset"
    and saved :: "'ctx \<Rightarrow> ('v, 'sg) signed_message option"
  assumes last_rav_saved: "inv c \<Longrightarrow> last_rav A c = Inr (saved c)"
    and update_saves:
      "inv c \<Longrightarrow> \<exists>c'. update_last_rav A v c = (Inr (), c') \<and> inv c' \<and>
         saved c' = Some v \<and> stored c' = stored c"
    and store_adds:
      "inv c \<Longrightarrow> room c \<Longrightarrow> \<exists>i c'. store_receipt A rx c = (Inr i, c') \<and> inv c' \<and>
         stored c' = add_mset (rx_receipt rx) (stored c) \<and> saved c' = saved c"
    and remove_filters:
      "inv c \<Longrightarrow> \<exists>c'. remove_receipts_in_timestamp_range A R c = (Inr (), c') \<and> inv c' \<and>
         stored c' = filter_mset (\<lambda>r. \<not> range_contains R (ts r)) (stored c) \<and> saved c' = saved c"
    and retrieve_all:
      "inv c \<Longrightarrow> \<exists>rxs. retrieve_receipts_in_timestamp_range A R None c = Inr rxs \<and>
         image_mset rx_receipt (mset rxs) = filter_mset (\<lambda>r. range_contains R (ts r)) (stored c)"
    and retrieve_limited:
      "inv c \<Longrightarrow> \<exists>rxs P. retrieve_receipts_in_timestamp_range A R (Some n) c = Inr rxs \<and>
         length rxs \<le> unat n \<and>
         image_mset rx_receipt (mset rxs) =
           filter_mset P (filter_mset (\<lambda>r. range_contains R (ts r)) (stored c)) \<and>
         (\<forall>r r'. P r \<and> \<not> P r' \<longrightarrow> ts r < ts r')"

end
