(* ===== verification/Manager.thy ===== *)
theory Manager
  imports Adapters
begin

text \<open>
  The manager of the crate \<open>core\<close> (\<open>crates/core/src/manager/core.rs\<close>, with
  \<open>rav_request.rs\<close> and the clock and domain helpers of \<open>lib.rs\<close>): it verifies and stores
  receipts and RAVs, builds a RAV request from the stored receipts, and removes the receipts that a
  RAV covers. Every operation takes the adapters, the manager's fields and the context's state; the
  mutating ones return the new state. The guarantees are proved inside the locale
  \<open>receipt_context\<close>, from the contract of the adapters alone.
\<close>

section \<open>State and requests\<close>

record ('ctx, 'c, 'r) manager =
  mgr_checks :: "('ctx, 'c, 'r) receipt_check list"
  mgr_domain_separator :: eip712_domain

definition manager_new ::
    "eip712_domain \<Rightarrow> ('ctx, 'c, 'r) receipt_check list \<Rightarrow> ('ctx, 'c, 'r) manager" where
  "manager_new domain_separator checks =
     \<lparr>mgr_checks = checks, mgr_domain_separator = domain_separator\<rparr>"

record ('r, 'v, 'sv) rav_request =
  req_valid_receipts :: "'r checked_receipt list"
  req_previous_rav :: "'sv option"
  req_invalid_receipts :: "'r failed_receipt list"
  req_expected_rav :: "aggregation_error + 'v"

definition get_current_timestamp_u64_ns :: "string + u128 \<Rightarrow> 'v core_error + u64" where
  "get_current_timestamp_u64_ns since_epoch =
     rbind (map_err InvalidSystemTime since_epoch) (\<lambda>nanos. Inr (ucast nanos))"

definition graph_tally_eip712_domain :: "u64 \<Rightarrow> address \<Rightarrow> eip712_domain" where
  "graph_tally_eip712_domain chain_id verifying_contract_address =
     \<lparr>dom_name = ''GraphTallyCollector'', dom_version = ''1'',
      dom_chain_id = chain_id, dom_verifying_contract = verifying_contract_address\<rparr>"

section \<open>RAVs\<close>

definition get_previous_rav ::
    "('ctx, 'r, 'sv) adapters \<Rightarrow> 'ctx \<Rightarrow> 'v core_error + 'sv option" where
  "get_previous_rav A c = map_err AdapterError (last_rav A c)"

definition verify_and_store_rav ::
    "('ctx, 'r, ('v, 'sg) signed_message) adapters \<Rightarrow> ('sg, 'k) crypto
       \<Rightarrow> (eip712_domain \<Rightarrow> 'v \<Rightarrow> b256) \<Rightarrow> ('ctx, 'c, 'r) manager
       \<Rightarrow> 'v \<Rightarrow> ('v, 'sg) signed_message \<Rightarrow> 'ctx \<Rightarrow> ('v core_error + unit) \<times> 'ctx" where
  "verify_and_store_rav A C hash M expected signed_rav c =
     (case check_signature A C hash signed_rav (mgr_domain_separator M) c of
        Inl e \<Rightarrow> (Inl e, c)
      | Inr _ \<Rightarrow>
          if message signed_rav \<noteq> expected
          then (Inl (InvalidReceivedRav (message signed_rav) expected), c)
          else (case update_last_rav A signed_rav c of
                  (Inl e, c') \<Rightarrow> (Inl (AdapterError e), c')
                | (Inr _, c') \<Rightarrow> (Inr (), c')))"

section \<open>RAV requests\<close>

text \<open>The last loop of \<open>collect_receipts\<close>: a retryable error stops it.\<close>

fun finalize_loop ::
    "'ctx \<Rightarrow> 'c \<Rightarrow> ('ctx, 'c, 'r) receipt_check list \<Rightarrow> 'r checking_receipt list
       \<Rightarrow> 'r checked_receipt list \<Rightarrow> 'r failed_receipt list
       \<Rightarrow> 'v core_error + ('r checked_receipt list \<times> 'r failed_receipt list)" where
  "finalize_loop c ctx checks [] checked_receipts failed_receipts =
     Inr (checked_receipts, failed_receipts)"
| "finalize_loop c ctx checks (rx # rxs) checked_receipts failed_receipts =
     (case finalize_receipt_checks c ctx checks rx of
        Inl e \<Rightarrow> Inl (ReceiptError (RetryableCheck e))
      | Inr (Inr chk) \<Rightarrow> finalize_loop c ctx checks rxs (checked_receipts @ [chk]) failed_receipts
      | Inr (Inl bad) \<Rightarrow> finalize_loop c ctx checks rxs checked_receipts (failed_receipts @ [bad]))"

text \<open>The subtraction of the buffer wraps around when the buffer exceeds the clock.\<close>

definition collect_receipts ::
    "('ctx, 'r, 'sv) adapters \<Rightarrow> ('r, 'u) receipt_ops \<Rightarrow> ('ctx, 'c, 'r) manager
       \<Rightarrow> string + u128 \<Rightarrow> 'c \<Rightarrow> u64 \<Rightarrow> u64 \<Rightarrow> u64 option \<Rightarrow> 'ctx
       \<Rightarrow> 'v core_error + ('r checked_receipt list \<times> 'r failed_receipt list)" where
  "collect_receipts A ops M since_epoch ctx timestamp_buffer_ns min_timestamp_ns limit c =
     rbind (get_current_timestamp_u64_ns since_epoch) (\<lambda>now.
     let max_timestamp_ns = now - timestamp_buffer_ns in
     if max_timestamp_ns < min_timestamp_ns
     then Inl (TimestampRangeError min_timestamp_ns max_timestamp_ns)
     else
       rbind (map_err AdapterError
                (retrieve_receipts_in_timestamp_range A
                   (range_half_open min_timestamp_ns max_timestamp_ns) limit c))
         (\<lambda>checking_receipts.
       rbind (map_err CoreSignatureError (timestamp_check_batch ops min_timestamp_ns checking_receipts))
         (\<lambda>(checking_receipts, already_failed).
       rbind (map_err CoreSignatureError (unique_check_batch ops checking_receipts))
         (\<lambda>(checking_receipts, already_failed').
       finalize_loop c ctx (mgr_checks M) checking_receipts [] (already_failed @ already_failed')))))"

text \<open>The first timestamp that the previous RAV does not cover; the addition wraps around at the
  greatest timestamp.\<close>

definition min_timestamp_after :: "('v \<Rightarrow> u64) \<Rightarrow> ('v, 'sg) signed_message option \<Rightarrow> u64" where
  "min_timestamp_after rav_ts prev =
     (case prev of Some rav \<Rightarrow> rav_ts (message rav) + 1 | None \<Rightarrow> 0)"

text \<open>\<open>agg\<close> is \<open>Rav::aggregate_receipts\<close>, \<open>rav_ts\<close> the timestamp of a RAV.\<close>

definition create_rav_request ::
    "('ctx, 'r, ('v, 'sg) signed_message) adapters \<Rightarrow> ('r, 'u) receipt_ops \<Rightarrow> ('v \<Rightarrow> u64)
       \<Rightarrow> ('r checked_receipt list \<Rightarrow> ('v, 'sg) signed_message option \<Rightarrow> aggregation_error + 'v)
       \<Rightarrow> ('ctx, 'c, 'r) manager \<Rightarrow> string + u128 \<Rightarrow> 'c \<Rightarrow> u64 \<Rightarrow> u64 option \<Rightarrow> 'ctx
       \<Rightarrow> 'v core_error + ('r, 'v, ('v, 'sg) signed_message) rav_request" where
  "create_rav_request A ops rav_ts agg M since_epoch ctx timestamp_buffer_ns receipts_limit c =
     rbind (get_previous_rav A c) (\<lambda>prev.
     let min_timestamp_ns = min_timestamp_after rav_ts prev in
     rbind (collect_receipts A ops M since_epoch ctx timestamp_buffer_ns min_timestamp_ns
              receipts_limit c)
       (\<lambda>(valid, invalid).
          Inr \<lparr>req_valid_receipts = valid, req_previous_rav = prev, req_invalid_receipts = invalid,
               req_expected_rav = agg valid prev\<rparr>))"

section \<open>Receipts\<close>

definition remove_obsolete_receipts ::
    "('ctx, 'r, ('v, 'sg) signed_message) adapters \<Rightarrow> ('v \<Rightarrow> u64) \<Rightarrow> 'ctx
       \<Rightarrow> ('v core_error + unit) \<times> 'ctx" where
  "remove_obsolete_receipts A rav_ts c =
     (case get_previous_rav A c of
        Inl e \<Rightarrow> (Inl e, c)
      | Inr None \<Rightarrow> (Inr (), c)
      | Inr (Some lr) \<Rightarrow>
          (case remove_receipts_in_timestamp_range A (range_to_inclusive (rav_ts (message lr))) c of
             (Inl e, c') \<Rightarrow> (Inl (AdapterError e), c')
           | (Inr _, c') \<Rightarrow> (Inr (), c')))"

definition verify_and_store_receipt ::
    "('ctx, 'r, 'sv) adapters \<Rightarrow> ('ctx, 'c, 'r) manager \<Rightarrow> 'c \<Rightarrow> 'r \<Rightarrow> 'ctx
       \<Rightarrow> ('v core_error + unit) \<times> 'ctx" where
  "verify_and_store_receipt A M ctx r c =
     (let received_receipt = receipt_new r in
      case perform_checks c ctx (mgr_checks M) received_receipt of
        Inl e \<Rightarrow> (Inl (ReceiptError e), c)
      | Inr _ \<Rightarrow>
          (case store_receipt A received_receipt c of
             (Inl e, c') \<Rightarrow> (Inl (AdapterError e), c')
           | (Inr _, c') \<Rightarrow> (Inr (), c')))"

section \<open>Lemmas independent of the context\<close>

abbreviation passes_all :: "'ctx \<Rightarrow> 'c \<Rightarrow> ('ctx, 'c, 'r) receipt_check list \<Rightarrow> 'r checking_receipt \<Rightarrow> bool" where
  "passes_all c ctx checks rx \<equiv> (\<forall>chk\<in>set checks. chk c ctx rx = Inr ())"

lemma finalize_loop_Inr:
  assumes "finalize_loop c ctx checks rxs ok0 bad0 = (Inr (ok, bad) :: 'v core_error + _)"
  shows "\<exists>ok' bad'. ok = ok0 @ ok' \<and> bad = bad0 @ bad' \<and>
     map rx_receipt ok' = map rx_receipt (filter (passes_all c ctx checks) rxs) \<and>
     map rx_receipt bad' = map rx_receipt (filter (\<lambda>rx. \<not> passes_all c ctx checks rx) rxs)"
  using assms
proof (induction rxs arbitrary: ok0 bad0)
  case Nil
  then show ?case by simp
next
  case (Cons rx rxs)
  from Cons.prems obtain res where fin: "finalize_receipt_checks c ctx checks rx = Inr res"
    by (auto split: sum.splits)
  show ?case
  proof (cases res)
    case (Inl b)
    with fin have b: "finalize_receipt_checks c ctx checks rx = Inr (Inl b)" by simp
    then have no: "\<not> passes_all c ctx checks rx"
      using perform_checks_Inr_iff [of c ctx checks rx "()"] by (auto simp: finalize_failed_iff)
    from Cons.prems b have "finalize_loop c ctx checks rxs ok0 (bad0 @ [b]) =
      (Inr (ok, bad) :: 'v core_error + _)" by simp
    from Cons.IH [OF this] obtain ok' bad' where
      "ok = ok0 @ ok'" "bad = (bad0 @ [b]) @ bad'"
      "map rx_receipt ok' = map rx_receipt (filter (passes_all c ctx checks) rxs)"
      "map rx_receipt bad' = map rx_receipt (filter (\<lambda>rx. \<not> passes_all c ctx checks rx) rxs)"
      by blast
    with no finalize_receipt(2) [OF b] show ?thesis
      by (intro exI [of _ ok'] exI [of _ "b # bad'"]) (simp only: filter.simps, simp)
  next
    case (Inr k)
    with fin have k: "finalize_receipt_checks c ctx checks rx = Inr (Inr k)" by simp
    then have yes: "passes_all c ctx checks rx" by (simp add: finalize_checked_iff)
    from Cons.prems k have "finalize_loop c ctx checks rxs (ok0 @ [k]) bad0 =
      (Inr (ok, bad) :: 'v core_error + _)" by simp
    from Cons.IH [OF this] obtain ok' bad' where
      "ok = (ok0 @ [k]) @ ok'" "bad = bad0 @ bad'"
      "map rx_receipt ok' = map rx_receipt (filter (passes_all c ctx checks) rxs)"
      "map rx_receipt bad' = map rx_receipt (filter (\<lambda>rx. \<not> passes_all c ctx checks rx) rxs)"
      by blast
    with yes finalize_receipt(1) [OF k] show ?thesis
      by (intro exI [of _ "k # ok'"] exI [of _ bad']) (simp only: filter.simps, simp)
  qed
qed

lemma finalize_loop_total:
  assumes "\<forall>rx\<in>set rxs. \<forall>m. perform_checks c ctx checks rx \<noteq> Inl (RetryableCheck m)"
  shows "\<exists>res. finalize_loop c ctx checks rxs ok bad = Inr res"
  using assms
proof (induction rxs arbitrary: ok bad)
  case Nil
  then show ?case by simp
next
  case (Cons rx rxs)
  then show ?case
    by (auto simp: finalize_retry_iff split: sum.split)
qed

section \<open>Guarantees over any context\<close>

lemma finalize_loop_InlD:
  assumes "finalize_loop c ctx checks rxs ok bad = Inl e"
  shows "\<exists>rx\<in>set rxs. \<exists>chk\<in>set checks. \<exists>m. chk c ctx rx = Inl (Retryable m) \<and>
    e = ReceiptError (RetryableCheck m)"
  using assms
proof (induction rxs arbitrary: ok bad)
  case (Cons rx rxs)
  show ?case
  proof (cases "finalize_receipt_checks c ctx checks rx")
    case (Inl m)
    then have "perform_checks c ctx checks rx = Inl (RetryableCheck m)"
      by (simp add: finalize_retry_iff)
    then obtain chk e' where "chk \<in> set checks" "chk c ctx rx = Inl e'"
        "RetryableCheck m = check_error_to_receipt_error e'"
      by (blast dest: perform_checks_InlD)
    moreover from this(3) have "e' = Retryable m" by (cases e') simp_all
    ultimately show ?thesis using Cons.prems Inl by auto
  next
    case (Inr res)
    with Cons show ?thesis by (cases res) fastforce+
  qed
qed simp

text \<open>\<open>P\<close> selects what a retrieval with \<open>limit\<close> returned, among the receipts in range.\<close>

definition within_limit :: "('r \<Rightarrow> u64) \<Rightarrow> u64 option \<Rightarrow> ('r \<Rightarrow> bool) \<Rightarrow> 'x list \<Rightarrow> bool" where
  "within_limit ts limit P rxs \<longleftrightarrow>
     (\<forall>r r'. P r \<and> \<not> P r' \<longrightarrow> ts r < ts r') \<and>
     (case limit of None \<Rightarrow> P = (\<lambda>_. True) | Some n \<Rightarrow> length rxs \<le> unat n)"

lemma within_limit_length:
  "within_limit ts limit P xs \<Longrightarrow> length ys = length xs \<Longrightarrow> within_limit ts limit P ys"
  by (auto simp: within_limit_def split: option.splits)

context receipt_context
begin

lemma retrieve_spec:
  assumes "inv c"
  shows "\<exists>rxs P. retrieve_receipts_in_timestamp_range A R limit c = Inr rxs \<and>
    image_mset rx_receipt (mset rxs) =
       filter_mset P (filter_mset (\<lambda>r. range_contains R (ts r)) (stored c)) \<and>
    within_limit ts limit P rxs"
proof (cases limit)
  case None
  with retrieve_all [OF assms, of R] show ?thesis
    by (auto simp: within_limit_def intro!: exI [of _ "\<lambda>_. True"])
next
  case (Some n)
  with retrieve_limited [OF assms, of R n] show ?thesis by (auto simp: within_limit_def)
qed

text \<open>What a successful \<open>collect_receipts\<close> has done: retrieved the range, set aside the
  receipts with a repeated identifier, and sorted the rest by the manager's checks. The built-in
  timestamp check never fails, because the range already excludes earlier receipts.\<close>

lemma collect_receipts_steps:
  assumes c: "inv c" and ops: "op_timestamp_ns ops = ts"
    and run: "collect_receipts A ops M since_epoch ctx buffer min_ts limit c =
       (Inr (ok, bad) :: 'v core_error + _)"
  obtains now rxs P uok ubad ok_bad where
    "since_epoch = Inr now" "min_ts \<le> ucast now - buffer"
    "image_mset rx_receipt (mset rxs) = filter_mset P
       (filter_mset (\<lambda>r. min_ts \<le> ts r \<and> ts r < ucast now - buffer) (stored c))"
    "within_limit ts limit P rxs"
    "unique_check_loop (op_unique_id ops) {} rxs = (uok, ubad)"
    "bad = ubad @ ok_bad"
    "map rx_receipt ok = map rx_receipt (filter (passes_all c ctx (mgr_checks M)) uok)"
    "map rx_receipt ok_bad = map rx_receipt (filter (\<lambda>rx. \<not> passes_all c ctx (mgr_checks M) rx) uok)"
proof -
  from run obtain now where now: "since_epoch = Inr now"
    by (auto simp: collect_receipts_def get_current_timestamp_u64_ns_def result_simps)
  let ?max = "ucast now - buffer :: u64"
  from run now have le: "min_ts \<le> ?max"
    by (auto simp: collect_receipts_def get_current_timestamp_u64_ns_def Let_def not_less
             split: if_splits)
  obtain rxs P where rxs:
      "retrieve_receipts_in_timestamp_range A (range_half_open min_ts ?max) limit c = Inr rxs"
      "image_mset rx_receipt (mset rxs) =
         filter_mset P (filter_mset (\<lambda>r. range_contains (range_half_open min_ts ?max) (ts r)) (stored c))"
      "within_limit ts limit P rxs"
    using retrieve_spec [OF c, of "range_half_open min_ts ?max" limit] by blast
  have "min_ts \<le> ts (rx_receipt rx)" if "rx \<in> set rxs" for rx
  proof -
    have "rx_receipt rx \<in># image_mset rx_receipt (mset rxs)" using that by simp
    then show ?thesis unfolding rxs(2) by simp
  qed
  then have early: "timestamp_check_loop ts min_ts rxs = (rxs, [])"
    by (auto simp: timestamp_check_loop_filter filter_id_conv filter_empty_conv)
  obtain uok ubad where uniq: "unique_check_loop (op_unique_id ops) {} rxs = (uok, ubad)"
    by fastforce
  from run now rxs(1) early uniq le ops
  have "finalize_loop c ctx (mgr_checks M) uok [] ubad = (Inr (ok, bad) :: 'v core_error + _)"
    by (simp add: collect_receipts_def get_current_timestamp_u64_ns_def Let_def
        timestamp_check_batch_def unique_check_batch_def not_less [symmetric])
  from finalize_loop_Inr [OF this] obtain ok_bad where fin:
      "bad = ubad @ ok_bad"
      "map rx_receipt ok = map rx_receipt (filter (passes_all c ctx (mgr_checks M)) uok)"
      "map rx_receipt ok_bad = map rx_receipt (filter (\<lambda>rx. \<not> passes_all c ctx (mgr_checks M) rx) uok)"
    by auto
  show ?thesis
    by (rule that [OF now le _ rxs(3) uniq fin]) (use rxs(2) in simp_all)
qed

text \<open>There are three errors, and each names its cause.\<close>

lemma collect_receipts_Inl:
  assumes "inv c"
    and run: "collect_receipts A ops M since_epoch ctx buffer min_ts limit c = (Inl e :: 'v core_error + _)"
  shows "(\<exists>m. since_epoch = Inl m \<and> e = InvalidSystemTime m) \<or>
    (\<exists>now. since_epoch = Inr now \<and> ucast now - buffer < min_ts \<and>
       e = TimestampRangeError min_ts (ucast now - buffer)) \<or>
    (\<exists>r\<in>#stored c. \<exists>chk\<in>set (mgr_checks M). \<exists>m.
       chk c ctx (receipt_new r) = Inl (Retryable m) \<and> e = ReceiptError (RetryableCheck m))"
proof (cases since_epoch)
  case (Inl m)
  with run show ?thesis by (simp add: collect_receipts_def get_current_timestamp_u64_ns_def)
next
  case (Inr now)
  let ?max = "ucast now - buffer :: u64"
  show ?thesis
  proof (cases "?max < min_ts")
    case True
    with run Inr show ?thesis
      by (simp add: collect_receipts_def get_current_timestamp_u64_ns_def Let_def)
  next
    case False
    from retrieve_spec [OF assms(1), of "range_half_open min_ts ?max" limit] obtain rxs P where rxs:
      "retrieve_receipts_in_timestamp_range A (range_half_open min_ts ?max) limit c = Inr rxs"
      "image_mset rx_receipt (mset rxs) = filter_mset P (filter_mset
         (\<lambda>r. range_contains (range_half_open min_ts ?max) (ts r)) (stored c))"
      by blast
    then have sub: "image_mset rx_receipt (mset rxs) \<subseteq># stored c"
      by (simp add: filter_filter_mset)
    obtain tok tbad where t: "timestamp_check_loop (op_timestamp_ns ops) min_ts rxs = (tok, tbad)"
      by fastforce
    then have tok: "set tok \<subseteq> set rxs" by (auto simp: timestamp_check_loop_filter)
    obtain uok ubad where u: "unique_check_loop (op_unique_id ops) {} tok = (uok, ubad)"
      by fastforce
    from run Inr False rxs(1) t u have
      "finalize_loop c ctx (mgr_checks M) uok [] (tbad @ ubad) = Inl e"
      by (simp add: collect_receipts_def get_current_timestamp_u64_ns_def Let_def
          timestamp_check_batch_def unique_check_batch_def)
    then obtain rx chk m where *: "rx \<in> set uok" "chk \<in> set (mgr_checks M)"
        "chk c ctx rx = Inl (Retryable m)" "e = ReceiptError (RetryableCheck m)"
      by (blast dest: finalize_loop_InlD)
    have "rx_receipt rx \<in># image_mset rx_receipt (mset rxs)"
      using *(1) tok unique_check_passing_subset [OF u] by auto
    then have "rx_receipt rx \<in># stored c" by (rule mset_subset_eqD [OF sub])
    moreover have "rx = receipt_new (rx_receipt rx)"
      by (cases rx; cases "rx_state rx") (simp add: receipt_new_def)
    ultimately show ?thesis using * by metis
  qed
qed

text \<open>The valid and the failed receipts together are exactly the retrieved ones.\<close>

lemma collect_receipts_mset:
  assumes "inv c" and "op_timestamp_ns ops = ts"
    and "collect_receipts A ops M since_epoch ctx buffer min_ts limit c =
       (Inr (ok, bad) :: 'v core_error + _)"
  shows "\<exists>now P. since_epoch = Inr now \<and>
    image_mset rx_receipt (mset ok) + image_mset rx_receipt (mset bad) = filter_mset P
       (filter_mset (\<lambda>r. min_ts \<le> ts r \<and> ts r < ucast now - buffer) (stored c)) \<and>
    within_limit ts limit P (map rx_receipt ok @ map rx_receipt bad)"
proof -
  let ?m = "\<lambda>xs. image_mset rx_receipt (mset xs)"
  from assms obtain now rxs P uok ubad ok_bad where steps:
    "since_epoch = Inr now" 
    "?m rxs = filter_mset P
       (filter_mset (\<lambda>r. min_ts \<le> ts r \<and> ts r < ucast now - buffer) (stored c))"
    "within_limit ts limit P rxs"
    "unique_check_loop (op_unique_id ops) {} rxs = (uok, ubad)"
    "bad = ubad @ ok_bad"
    "map rx_receipt ok = map rx_receipt (filter (passes_all c ctx (mgr_checks M)) uok)"
    "map rx_receipt ok_bad = map rx_receipt (filter (\<lambda>rx. \<not> passes_all c ctx (mgr_checks M) rx) uok)"
    by (rule collect_receipts_steps)
  have "mset (map rx_receipt ok) + mset (map rx_receipt ok_bad) = mset (map rx_receipt uok)"
    unfolding steps(6,7) by (simp flip: image_mset_union add: mset_filter_partition)
  then have checked: "?m ok + ?m ok_bad = ?m uok" by simp
  have "?m ok + ?m bad = (?m ok + ?m ok_bad) + ?m ubad" by (simp add: steps(5) ac_simps)
  also have "\<dots> = ?m rxs" unfolding checked by (rule unique_check_partition [OF steps(4)])
  finally have all: "?m ok + ?m bad = ?m rxs" .
  then have "length ok + length bad = length rxs"
    by (metis size_image_mset size_mset size_union)
  then have "within_limit ts limit P (map rx_receipt ok @ map rx_receipt bad)"
    by (intro within_limit_length [OF steps(3)]) simp
  with all steps(1,2) show ?thesis by (intro exI [of _ now] exI [of _ P]) simp
qed

text \<open>Every valid receipt lies in the requested window, passes all checks, and no two share an
  identifier.\<close>

lemma collect_receipts_valid:
  assumes "inv c" and "op_timestamp_ns ops = ts"
    and "collect_receipts A ops M since_epoch ctx buffer min_ts limit c =
       (Inr (ok, bad) :: 'v core_error + _)"
  shows "distinct (map (\<lambda>rx. op_unique_id ops (rx_receipt rx)) ok)"
    and "k \<in> set ok \<Longrightarrow> min_ts \<le> ts (rx_receipt k) \<and>
       passes_all c ctx (mgr_checks M) (receipt_new (rx_receipt k))"
proof -
  let ?uid = "op_unique_id ops"
  from assms obtain now rxs P uok ubad ok_bad where
    "since_epoch = Inr now" and "bad = ubad @ ok_bad" and steps:
    "image_mset rx_receipt (mset rxs) = filter_mset P
       (filter_mset (\<lambda>r. min_ts \<le> ts r \<and> ts r < ucast now - buffer) (stored c))"
    "unique_check_loop ?uid {} rxs = (uok, ubad)"
    "map rx_receipt ok = map rx_receipt (filter (passes_all c ctx (mgr_checks M)) uok)"
    by (rule collect_receipts_steps)
  have "distinct (map (\<lambda>rx. ?uid (rx_receipt rx)) (filter (passes_all c ctx (mgr_checks M)) uok))"
    using unique_check_distinct [OF steps(2)] by (simp add: distinct_map inj_on_def)
  then have "distinct (map ?uid (map rx_receipt (filter (passes_all c ctx (mgr_checks M)) uok)))"
    by (simp add: comp_def)
  then have "distinct (map ?uid (map rx_receipt ok))" by (simp only: steps(3))
  then show "distinct (map (\<lambda>rx. ?uid (rx_receipt rx)) ok)" by (simp add: comp_def)
  assume "k \<in> set ok"
  then have "rx_receipt k \<in> set (map rx_receipt ok)" by simp
  then obtain u where u: "u \<in> set uok" "passes_all c ctx (mgr_checks M) u" "rx_receipt k = rx_receipt u"
    unfolding steps(3) by auto
  have "u = receipt_new (rx_receipt u)"
    by (cases u; cases "rx_state u") (simp add: receipt_new_def)
  moreover have "min_ts \<le> ts (rx_receipt u)"
  proof -
    have "u \<in> set rxs" using unique_check_passing_subset [OF steps(2)] u(1) by auto
    then have "rx_receipt u \<in># image_mset rx_receipt (mset rxs)" by simp
    then show ?thesis unfolding steps(1) by simp
  qed
  ultimately show "min_ts \<le> ts (rx_receipt k) \<and>
      passes_all c ctx (mgr_checks M) (receipt_new (rx_receipt k))"
    using u by simp
qed

lemma create_rav_request_Inr:
  assumes "inv c"
    and "create_rav_request A ops rav_ts agg M since_epoch ctx buffer limit c = Inr req"
  shows "req_previous_rav req = saved c" and "req_expected_rav req = agg (req_valid_receipts req) (saved c)"
    and "collect_receipts A ops M since_epoch ctx buffer (min_timestamp_after rav_ts (saved c)) limit c
           = (Inr (req_valid_receipts req, req_invalid_receipts req) :: 'v core_error + _)"
  using assms
  by (auto simp: create_rav_request_def get_previous_rav_def last_rav_saved result_simps Let_def)

text \<open>Nothing is lost: a stored receipt that the new RAV's timestamp covers and the previous one
  does not is among the receipts of the request.\<close>

lemma request_covers:
  assumes c: "inv c" and ops: "op_timestamp_ns ops = ts"
    and run: "create_rav_request A ops rav_ts agg M since_epoch ctx buffer limit c = Inr req"
    and v: "v \<in> set (req_valid_receipts req)" and T: "T \<le> ts (rx_receipt v)"
  shows "filter_mset (\<lambda>r. min_timestamp_after rav_ts (saved c) \<le> ts r \<and> ts r \<le> T) (stored c)
     \<subseteq># image_mset rx_receipt (mset (req_valid_receipts req)) +
       image_mset rx_receipt (mset (req_invalid_receipts req))"
proof -
  let ?min = "min_timestamp_after rav_ts (saved c)"
  let ?all = "image_mset rx_receipt (mset (req_valid_receipts req)) +
       image_mset rx_receipt (mset (req_invalid_receipts req))"
  from collect_receipts_mset [OF c ops create_rav_request_Inr(3) [OF c run]]
  obtain now P where P: "?all = filter_mset P
       (filter_mset (\<lambda>r. ?min \<le> ts r \<and> ts r < ucast (now :: u128) - buffer) (stored c))"
     "\<forall>r r'. P r \<and> \<not> P r' \<longrightarrow> ts r < ts r'"
    unfolding within_limit_def by blast
  from v have "rx_receipt v \<in># ?all" by simp
  then have vP: "P (rx_receipt v)" "ts (rx_receipt v) < ucast now - buffer" unfolding P(1) by simp_all
  have "P r \<and> ts r < ucast now - buffer" if "ts r \<le> T" for r
    using that T vP P(2) by (meson leD le_less_trans order_trans)
  then have "filter_mset (\<lambda>r. ?min \<le> ts r \<and> ts r \<le> T) (stored c) =
      filter_mset (\<lambda>r. ts r \<le> T) ?all"
    unfolding P(1) by (auto simp: filter_filter_mset intro!: filter_mset_cong)
  then show ?thesis by (simp only: multiset_filter_subset)
qed

text \<open>The RAV is stored exactly when the signer is accepted and the message is the expected one;
  otherwise the context is unchanged.\<close>

lemma verify_and_store_rav_ok:
  assumes "inv c" and "check_signature A C hash sr (mgr_domain_separator M) c = (Inr () :: 'v core_error + unit)"
    and "message sr = expected"
  shows "\<exists>c'. verify_and_store_rav A C hash M expected sr c = (Inr (), c') \<and>
     inv c' \<and> saved c' = Some sr \<and> stored c' = stored c"
  using assms update_saves [OF assms(1), of sr] by (auto simp: verify_and_store_rav_def)

lemma verify_and_store_rav_result:
  assumes "inv c" and "verify_and_store_rav A C hash M expected sr c = (res, c')"
  shows "inv c' \<and> stored c' = stored c \<and>
     (case res of
        Inr _ \<Rightarrow> saved c' = Some sr \<and> message sr = expected \<and>
          (\<exists>a. recover_signer C hash (mgr_domain_separator M) sr = Inr a \<and> verify_signer A a c = Inr True)
      | Inl e \<Rightarrow> c' = c)"
proof (cases "check_signature A C hash sr (mgr_domain_separator M) c :: 'v core_error + unit")
  case (Inl e)
  show ?thesis using assms by (auto simp: verify_and_store_rav_def Inl)
next
  case (Inr u)
  then have "check_signature A C hash sr (mgr_domain_separator M) c = (Inr () :: 'v core_error + unit)"
    by simp
  then have "\<exists>a. recover_signer C hash (mgr_domain_separator M) sr = Inr a \<and> verify_signer A a c = Inr True"
    by (simp add: check_signature_Inr_iff)
  with assms update_saves [OF assms(1), of sr] show ?thesis
    by (auto simp: verify_and_store_rav_def Inr split: if_splits)
qed

lemma remove_obsolete_receipts_result:
  assumes "inv c"
  shows "\<exists>c'. remove_obsolete_receipts A rav_ts c = (Inr (), c') \<and> inv c' \<and> saved c' = saved c \<and>
     stored c' = (case saved c of None \<Rightarrow> stored c
        | Some lr \<Rightarrow> filter_mset (\<lambda>r. rav_ts (message lr) < ts r) (stored c))"
proof (cases "saved c")
  case None
  with assms show ?thesis
    by (simp add: remove_obsolete_receipts_def get_previous_rav_def last_rav_saved)
next
  case (Some lr)
  with assms remove_filters [OF assms, of "range_to_inclusive (rav_ts (message lr))"] show ?thesis
    by (auto simp: remove_obsolete_receipts_def get_previous_rav_def last_rav_saved not_le)
qed

lemma verify_and_store_receipt_result:
  assumes "inv c" and "room c"
  shows "\<exists>res c'. verify_and_store_receipt A M ctx r c = (res, c') \<and> inv c' \<and> saved c' = saved c \<and>
     (if passes_all c ctx (mgr_checks M) (receipt_new r)
      then res = Inr () \<and> stored c' = add_mset r (stored c)
      else (\<exists>e. res = Inl (ReceiptError e)) \<and> c' = c)"
proof (cases "perform_checks c ctx (mgr_checks M) (receipt_new r)")
  case (Inl e)
  then have "\<not> passes_all c ctx (mgr_checks M) (receipt_new r)"
    using perform_checks_Inr_iff [of c ctx "mgr_checks M" "receipt_new r" "()"] by simp
  with Inl assms show ?thesis by (auto simp: verify_and_store_receipt_def)
next
  case (Inr u)
  then have "passes_all c ctx (mgr_checks M) (receipt_new r)"
    by (simp add: perform_checks_Inr_iff)
  with Inr store_adds [OF assms, of "receipt_new r"] show ?thesis
    by (auto simp: verify_and_store_receipt_def)
qed

end

end
