(* ===== verification/Memory.thy ===== *)
theory Memory
  imports Manager "HOL-Library.AList"
begin

text \<open>
  The in-memory context (\<open>crates/core/src/manager/context/memory.rs\<close>): its state, the adapter
  implementations, the escrow operations and the checks of its \<open>checks\<close> module. It is an
  instance of the locale \<open>receipt_context\<close>.

  A \<open>HashMap\<close> iterated by the code is the list of its entries in iteration order, with
  distinct keys; the order is arbitrary, and \<open>retrieve_order_irrelevant\<close> shows that the
  retrieved multiset does not depend on it. The maps behind \<open>Arc<RwLock<_>>\<close> are the fields of
  one record, so the minimum timestamp that the context shares with its
  \<open>StatefulTimestampCheck\<close> is a field too.
\<close>

section \<open>State\<close>

datatype in_memory_error = InMemoryAdapterError string

fun in_memory_error_to_string :: "in_memory_error \<Rightarrow> string" where
  "in_memory_error_to_string (InMemoryAdapterError e) = ''something went wrong: '' @ e"

record 'sg in_memory_context =
  rav_storage :: "'sg signed_rav option"
  receipt_storage :: "(u64 \<times> 'sg signed_receipt checking_receipt) list"
  unique_id :: u64
  sender_escrow_storage :: "address \<rightharpoonup> u128"
  timestamp_check :: u64
  sender_address :: "address option"

definition in_memory_new ::
    "'sg signed_rav option \<Rightarrow> (u64 \<times> 'sg signed_receipt checking_receipt) list
       \<Rightarrow> (address \<rightharpoonup> u128) \<Rightarrow> u64 \<Rightarrow> 'sg in_memory_context" where
  "in_memory_new ravs receipts escrows min_timestamp =
     \<lparr>rav_storage = ravs, receipt_storage = receipts, unique_id = 0,
      sender_escrow_storage = escrows, timestamp_check = min_timestamp, sender_address = None\<rparr>"

definition with_sender_address :: "address \<Rightarrow> 'sg in_memory_context \<Rightarrow> 'sg in_memory_context" where
  "with_sender_address a c = c\<lparr>sender_address := Some a\<rparr>"

abbreviation stored_timestamp :: "'sg signed_receipt checking_receipt \<Rightarrow> u64" where
  "stored_timestamp rx \<equiv> rcpt_timestamp_ns (message (signed_receipt rx))"

section \<open>Receipts\<close>

definition retrieve_receipt_by_id ::
    "u64 \<Rightarrow> 'sg in_memory_context \<Rightarrow> in_memory_error + 'sg signed_receipt checking_receipt" where
  "retrieve_receipt_by_id receipt_id c =
     ok_or (map_of (receipt_storage c) receipt_id)
       (InMemoryAdapterError ''No receipt found with ID'')"

definition retrieve_receipts_by_timestamp ::
    "u64 \<Rightarrow> 'sg in_memory_context
       \<Rightarrow> in_memory_error + (u64 \<times> 'sg signed_receipt checking_receipt) list" where
  "retrieve_receipts_by_timestamp timestamp_ns c =
     Inr (filter (\<lambda>(_, rx). stored_timestamp rx = timestamp_ns) (receipt_storage c))"

definition mem_retrieve_receipts ::
    "u64_range \<Rightarrow> u64 option \<Rightarrow> 'sg in_memory_context
       \<Rightarrow> in_memory_error + 'sg signed_receipt checking_receipt list" where
  "mem_retrieve_receipts timestamp_range_ns limit c =
     (let receipts_in_range =
            map snd (filter (\<lambda>(_, rx). range_contains timestamp_range_ns (stored_timestamp rx))
                       (receipt_storage c)) in
      case limit of
        Some n \<Rightarrow>
          if unat n < length receipts_in_range
          then Inr (safe_truncate_receipts (\<lambda>r. rcpt_timestamp_ns (message r)) receipts_in_range n)
          else Inr receipts_in_range
      | None \<Rightarrow> Inr receipts_in_range)"

definition retrieve_receipts_upto_timestamp ::
    "u64 \<Rightarrow> 'sg in_memory_context \<Rightarrow> in_memory_error + 'sg signed_receipt checking_receipt list" where
  "retrieve_receipts_upto_timestamp timestamp_ns c =
     mem_retrieve_receipts (range_to_inclusive timestamp_ns) None c"

definition remove_receipt_by_id ::
    "u64 \<Rightarrow> 'sg in_memory_context \<Rightarrow> (in_memory_error + unit) \<times> 'sg in_memory_context" where
  "remove_receipt_by_id receipt_id c =
     (ok_or (map_option (\<lambda>_. ()) (map_of (receipt_storage c) receipt_id))
        (InMemoryAdapterError ''No receipt found with ID''),
      c\<lparr>receipt_storage := AList.delete receipt_id (receipt_storage c)\<rparr>)"

text \<open>The loop stops at the first missing identifier; earlier removals stay.\<close>

fun remove_receipts_by_ids ::
    "u64 list \<Rightarrow> 'sg in_memory_context \<Rightarrow> (in_memory_error + unit) \<times> 'sg in_memory_context" where
  "remove_receipts_by_ids [] c = (Inr (), c)"
| "remove_receipts_by_ids (i # ids) c =
     (case remove_receipt_by_id i c of
        (Inl e, c') \<Rightarrow> (Inl e, c')
      | (Inr _, c') \<Rightarrow> remove_receipts_by_ids ids c')"

definition mem_store_receipt ::
    "'sg signed_receipt checking_receipt \<Rightarrow> 'sg in_memory_context
       \<Rightarrow> (in_memory_error + u64) \<times> 'sg in_memory_context" where
  "mem_store_receipt rx c =
     (let id_previous = unique_id c in
      (Inr id_previous,
       c\<lparr>receipt_storage := AList.update id_previous rx (receipt_storage c),
         unique_id := unique_id c + 1\<rparr>))"

definition mem_remove_receipts ::
    "u64_range \<Rightarrow> 'sg in_memory_context \<Rightarrow> (in_memory_error + unit) \<times> 'sg in_memory_context" where
  "mem_remove_receipts timestamp_ns c =
     (Inr (), c\<lparr>receipt_storage :=
        filter (\<lambda>(_, rx). \<not> range_contains timestamp_ns (stored_timestamp rx)) (receipt_storage c)\<rparr>)"

section \<open>RAVs, escrow, signers\<close>

definition mem_update_last_rav ::
    "'sg signed_rav \<Rightarrow> 'sg in_memory_context \<Rightarrow> (in_memory_error + unit) \<times> 'sg in_memory_context" where
  "mem_update_last_rav r c =
     (let timestamp = rav_timestampNs (message r) in
      (Inr (), c\<lparr>rav_storage := Some r, timestamp_check := timestamp\<rparr>))"

definition mem_last_rav :: "'sg in_memory_context \<Rightarrow> in_memory_error + 'sg signed_rav option" where
  "mem_last_rav c = Inr (rav_storage c)"

definition escrow :: "address \<Rightarrow> 'sg in_memory_context \<Rightarrow> in_memory_error + u128" where
  "escrow sender_id c =
     (case sender_escrow_storage c sender_id of
        Some e \<Rightarrow> Inr e
      | None \<Rightarrow> Inl (InMemoryAdapterError ''No escrow exists for provided sender ID.''))"

definition increase_escrow :: "address \<Rightarrow> u128 \<Rightarrow> 'sg in_memory_context \<Rightarrow> 'sg in_memory_context" where
  "increase_escrow sender_id v c =
     (let new_value = (case sender_escrow_storage c sender_id of None \<Rightarrow> 0 | Some e \<Rightarrow> e) + v in
      c\<lparr>sender_escrow_storage := (sender_escrow_storage c)(sender_id \<mapsto> new_value)\<rparr>)"

definition reduce_escrow ::
    "address \<Rightarrow> u128 \<Rightarrow> 'sg in_memory_context \<Rightarrow> (in_memory_error + unit) \<times> 'sg in_memory_context" where
  "reduce_escrow sender_id v c =
     (case Option.bind (sender_escrow_storage c sender_id) (\<lambda>current. checked_sub current v) of
        Some new_value \<Rightarrow>
          (Inr (), c\<lparr>sender_escrow_storage := (sender_escrow_storage c)(sender_id \<mapsto> new_value)\<rparr>)
      | None \<Rightarrow>
          (Inl (InMemoryAdapterError ''Provided value is greater than existing escrow.''), c))"

definition mem_verify_signer :: "address \<Rightarrow> 'sg in_memory_context \<Rightarrow> in_memory_error + bool" where
  "mem_verify_signer signer_address c =
     Inr (case sender_address c of Some sender \<Rightarrow> signer_address = sender | None \<Rightarrow> False)"

definition in_memory_adapters ::
    "('sg in_memory_context, 'sg signed_receipt, 'sg signed_rav) adapters" where
  "in_memory_adapters =
     \<lparr>update_last_rav = \<lambda>r c. apfst (map_err in_memory_error_to_string) (mem_update_last_rav r c),
      last_rav = \<lambda>c. map_err in_memory_error_to_string (mem_last_rav c),
      store_receipt = \<lambda>rx c. apfst (map_err in_memory_error_to_string) (mem_store_receipt rx c),
      remove_receipts_in_timestamp_range =
        \<lambda>r c. apfst (map_err in_memory_error_to_string) (mem_remove_receipts r c),
      retrieve_receipts_in_timestamp_range =
        \<lambda>r n c. map_err in_memory_error_to_string (mem_retrieve_receipts r n c),
      verify_signer = \<lambda>a c. map_err in_memory_error_to_string (mem_verify_signer a c)\<rparr>"

section \<open>Checks\<close>

definition collection_id_check ::
    "b256 set \<Rightarrow> (b256 \<Rightarrow> string) \<Rightarrow> ('st, 'c, 'sg signed_receipt) receipt_check" where
  "collection_id_check collection_ids show_b256 st ctx rx =
     (let received_id = rcpt_collection_id (message (signed_receipt rx)) in
      if received_id \<in> collection_ids then Inr ()
      else Inl (CheckFailed (receipt_error_to_string show_b256 (InvalidCollectionID received_id))))"

definition signature_check ::
    "('sg, 'k) crypto \<Rightarrow> (eip712_domain \<Rightarrow> receipt \<Rightarrow> b256) \<Rightarrow> eip712_domain \<Rightarrow> address set
       \<Rightarrow> (b256 \<Rightarrow> string) \<Rightarrow> ('st, 'c, 'sg signed_receipt) receipt_check" where
  "signature_check C hash domain_separator valid_signers show_b256 st ctx rx =
     (case recover_signer C hash domain_separator (signed_receipt rx) of
        Inl e \<Rightarrow> Inl (CheckFailed (receipt_error_to_string show_b256
                        (InvalidSignature (eip712_error_to_string e))))
      | Inr recovered_address \<Rightarrow>
          if recovered_address \<notin> valid_signers
          then Inl (CheckFailed (receipt_error_to_string show_b256 (InvalidSignature ''Invalid signer'')))
          else Inr ())"

definition get_full_list_of_checks ::
    "('sg, 'k) crypto \<Rightarrow> (eip712_domain \<Rightarrow> receipt \<Rightarrow> b256) \<Rightarrow> (b256 \<Rightarrow> string) \<Rightarrow> eip712_domain
       \<Rightarrow> address set \<Rightarrow> b256 set \<Rightarrow> ('st, 'c, 'sg signed_receipt) receipt_check list" where
  "get_full_list_of_checks C hash show_b256 domain_separator valid_signers collection_ids =
     [collection_id_check collection_ids show_b256,
      signature_check C hash domain_separator valid_signers show_b256]"

section \<open>The context keeps its contract\<close>

text \<open>Identifiers are distinct and below the counter; there is room until the counter is at its
  greatest value.\<close>

definition mem_inv :: "'sg in_memory_context \<Rightarrow> bool" where
  "mem_inv c \<longleftrightarrow> distinct (map fst (receipt_storage c)) \<and>
     (\<forall>i\<in>fst ` set (receipt_storage c). i < unique_id c)"

definition mem_room :: "'sg in_memory_context \<Rightarrow> bool" where
  "mem_room c \<longleftrightarrow> unique_id c < - 1"

definition mem_stored :: "'sg in_memory_context \<Rightarrow> 'sg signed_receipt multiset" where
  "mem_stored c = image_mset rx_receipt (mset (map snd (receipt_storage c)))"

lemmas mem_adapter_defs =
  in_memory_adapters_def mem_update_last_rav_def mem_last_rav_def mem_store_receipt_def
  mem_remove_receipts_def mem_verify_signer_def

lemma update_fresh: "k \<notin> fst ` set xs \<Longrightarrow> AList.update k v xs = xs @ [(k, v)]"
  by (induction xs) auto

lemma map_snd_filter: "map snd (filter (\<lambda>(_, rx). Q rx) xs) = filter Q (map snd xs)"
  by (induction xs) auto

lemma filter_mset_rx_receipt:
  "filter_mset (\<lambda>r. Q r) (image_mset rx_receipt M) = image_mset rx_receipt (filter_mset (\<lambda>rx. Q (rx_receipt rx)) M)"
  by (simp add: filter_mset_image_mset comp_def)

lemma less_succ: "(w :: u64) < - 1 \<Longrightarrow> w < w + 1"
  by unat_arith

lemma mem_retrieve_unlimited:
  "mem_retrieve_receipts R None c = Inr rxs \<Longrightarrow>
     image_mset rx_receipt (mset rxs) =
       filter_mset (\<lambda>r. range_contains R (rcpt_timestamp_ns (message r))) (mem_stored c)"
  by (auto simp: mem_retrieve_receipts_def mem_stored_def signed_receipt_def map_snd_filter
      filter_mset_rx_receipt)

text \<open>A limited retrieval is the unlimited one, cut at a timestamp.\<close>

lemma mem_retrieve_limited:
  assumes "mem_retrieve_receipts R None c = Inr all"
  shows "\<exists>rxs P. mem_retrieve_receipts R (Some n) c = Inr rxs \<and> length rxs \<le> unat n \<and>
    image_mset rx_receipt (mset rxs) = filter_mset P (image_mset rx_receipt (mset all)) \<and>
    (\<forall>r r'. P r \<and> \<not> P r' \<longrightarrow> rcpt_timestamp_ns (message r) < rcpt_timestamp_ns (message r'))"
proof (cases "unat n < length all")
  case False
  with assms show ?thesis
    by (intro exI [of _ all] exI [of _ "\<lambda>_. True"]) (simp add: mem_retrieve_receipts_def Let_def)
next
  case True
  let ?ts = "\<lambda>rx. rcpt_timestamp_ns (message (signed_receipt rx))"
  let ?cut = "cut_timestamp ?ts all n"
  let ?rxs = "safe_truncate_receipts (\<lambda>r. rcpt_timestamp_ns (message r)) all n"
  from True assms have run: "mem_retrieve_receipts R (Some n) c = Inr ?rxs"
    by (simp add: mem_retrieve_receipts_def Let_def)
  have len: "length ?rxs \<le> unat n"
    unfolding safe_truncate_receipts_def by (rule key_sort.truncate_length)
  have "mset ?rxs = filter_mset (\<lambda>rx. ?ts rx < ?cut) (mset all)"
    using True unfolding safe_truncate_receipts_def by (simp add: key_sort.truncate_mset)
  then have m: "image_mset rx_receipt (mset ?rxs) =
      filter_mset (\<lambda>r. rcpt_timestamp_ns (message r) < ?cut) (image_mset rx_receipt (mset all))"
    by (simp add: filter_mset_rx_receipt signed_receipt_def)
  show ?thesis
    by (intro exI [of _ ?rxs] exI [of _ "\<lambda>r. rcpt_timestamp_ns (message r) < ?cut"])
       (use run len m in \<open>auto simp: not_less\<close>)
qed

interpretation mem: receipt_context in_memory_adapters "\<lambda>r. rcpt_timestamp_ns (message r)"
    mem_inv mem_room mem_stored rav_storage
proof (unfold_locales, goal_cases)
  case (1 c)
  then show ?case by (simp add: mem_adapter_defs)
next
  case (2 c v)
  then show ?case by (simp add: mem_adapter_defs mem_inv_def mem_stored_def)
next
  case (3 c rx)
  then have fresh: "unique_id c \<notin> fst ` set (receipt_storage c)" by (auto simp: mem_inv_def)
  from 3 have "unique_id c < unique_id c + 1" by (simp add: mem_room_def less_succ)
  with 3 have "\<forall>i\<in>insert (unique_id c) (fst ` set (receipt_storage c)). i < unique_id c + 1"
    by (auto simp: mem_inv_def dest: order.strict_trans)
  with 3 fresh show ?case
    by (simp add: mem_adapter_defs mem_inv_def mem_stored_def update_fresh Let_def)
next
  case (4 c R)
  let ?f = "filter (\<lambda>(_, rx). \<not> range_contains R (stored_timestamp rx)) (receipt_storage c)"
  have "image_mset rx_receipt (mset (map snd ?f)) =
      filter_mset (\<lambda>r. \<not> range_contains R (rcpt_timestamp_ns (message r))) (mem_stored c)"
    unfolding map_snd_filter mset_filter filter_mset_rx_receipt mem_stored_def
    by (simp add: signed_receipt_def)
  moreover have "distinct (map fst ?f)" using 4 by (simp add: mem_inv_def distinct_map_filter)
  moreover have "\<forall>i\<in>fst ` set ?f. i < unique_id c" using 4 by (auto simp: mem_inv_def)
  ultimately show ?case by (simp add: mem_adapter_defs mem_inv_def mem_stored_def)
next
  case (5 c R)
  obtain rxs where "mem_retrieve_receipts R None c = Inr rxs"
    by (simp add: mem_retrieve_receipts_def Let_def)
  with mem_retrieve_unlimited [OF this] show ?case by (simp add: in_memory_adapters_def)
next
  case (6 c R n)
  obtain rxs where "mem_retrieve_receipts R None c = Inr rxs"
    by (simp add: mem_retrieve_receipts_def Let_def)
  with mem_retrieve_unlimited [OF this] mem_retrieve_limited [OF this, of n] show ?case
    by (auto simp: in_memory_adapters_def)
qed

text \<open>The iteration order of the map does not matter.\<close>

lemma safe_truncate_order_irrelevant:
  assumes "mset rxs = mset rxs'"
  shows "mset (safe_truncate_receipts ts rxs n) = mset (safe_truncate_receipts ts rxs' n)"
proof -
  let ?ts = "\<lambda>rx. ts (signed_receipt rx)"
  have "sort (map ?ts rxs) = sort (map ?ts rxs')"
    by (rule properties_for_sort) (use assms in simp_all)
  then have "cut_timestamp ?ts rxs n = cut_timestamp ?ts rxs' n"
    by (simp only: cut_timestamp_def)
  moreover have "length rxs = length rxs'" using assms by (rule mset_eq_length)
  ultimately show ?thesis
    unfolding safe_truncate_receipts_def key_sort.truncate_mset by (simp only: assms)
qed

lemma retrieve_order_irrelevant:
  assumes "mset (receipt_storage c) = mset (receipt_storage c')"
    and "mem_retrieve_receipts R limit c = Inr rxs" and "mem_retrieve_receipts R limit c' = Inr rxs'"
  shows "mset rxs = mset rxs'"
proof -
  let ?f = "\<lambda>c. filter (\<lambda>rx. range_contains R (stored_timestamp rx)) (map snd (receipt_storage c))"
  have "image_mset snd (mset (receipt_storage c)) = image_mset snd (mset (receipt_storage c'))"
    by (simp only: assms(1))
  then have m: "mset (?f c) = mset (?f c')" by simp
  then have "length (?f c) = length (?f c')" by (rule mset_eq_length)
  with assms(2,3) m safe_truncate_order_irrelevant [OF m] show ?thesis
    by (auto simp: mem_retrieve_receipts_def Let_def map_snd_filter simp del: mset_map mset_filter
        split: option.splits if_splits)
qed

end
