(* ===== verification/Interleaving.thy ===== *)
theory Interleaving
  imports Memory
begin

text \<open>
  The manager's operations are asynchronous and take a shared reference: between two calls that one
  of them makes to the context, another may make its own. Here the operations of
  \<open>crates/core/src/manager/core.rs\<close> are cut at these calls; a step relation lets the pieces of any
  number of them interleave. A task is an operation that is under way, with what it has read so far.

  Ghost components record what a payer was asked for: the receipts that were accepted so far, those
  that the stored RAV aggregates, and for each task on a RAV the receipts that the RAV claims.

  The locale \<open>lifecycle\<close> extends \<open>receipt_context\<close> by what \<open>Aggregate::aggregate_receipts\<close>
  promises of a RAV; inside it the invariants of the relation are proved, for every context and
  every kind of RAV.
\<close>

section \<open>Operations under way\<close>

text \<open>The fields of the manager and its environment that no step changes.\<close>

record ('ctx, 'c, 'r, 'u, 'v, 'sg, 'k) system =
  sys_adapters :: "('ctx, 'r, ('v, 'sg) signed_message) adapters"
  sys_ops :: "('r, 'u) receipt_ops"
  sys_rav_ts :: "'v \<Rightarrow> u64"
  sys_agg :: "'r checked_receipt list \<Rightarrow> ('v, 'sg) signed_message option \<Rightarrow> aggregation_error + 'v"
  sys_manager :: "('ctx, 'c, 'r) manager"
  sys_crypto :: "('sg, 'k) crypto"
  sys_rav_hash :: "eip712_domain \<Rightarrow> 'v \<Rightarrow> b256"

text \<open>\<open>Cleared\<close>: a receipt passed the checks and is not stored yet. \<open>Requested\<close>: a request has read
  the last RAV; \<open>Collecting\<close>: it has read the receipts too, and checks them one by one; \<open>Awaiting\<close>:
  its RAV is with the aggregator. \<open>Verified\<close>: an answer passed its checks and is not stored yet.
  \<open>Cleaning\<close>: a removal has read the timestamp of the last RAV. The multisets are ghosts.\<close>

datatype ('v, 'sg, 'r) task =
    Cleared "'r checking_receipt"
  | Requested "('v, 'sg) signed_message option" "'r multiset"
  | Collecting "('v, 'sg) signed_message option" "'r multiset"
      "'r checking_receipt list" "'r checked_receipt list" "'r failed_receipt list"
  | Awaiting 'v "'r multiset"
  | Verified "('v, 'sg) signed_message" "'r multiset"
  | Cleaning u64

fun on_request :: "('v, 'sg, 'r) task \<Rightarrow> bool" where
  "on_request (Cleared rx) = False"
| "on_request (Cleaning t) = False"
| "on_request t = True"

abbreviation receipts :: "('st, 'r) receipt_with_state list \<Rightarrow> 'r multiset" where
  "receipts rxs \<equiv> image_mset rx_receipt (mset rxs)"

text \<open>The clock, the context of the checks, the buffer and the limit are arbitrary at each step; a
  call that fails is a step too, with the state that it leaves. An answer may arrive more than once
  or never, and any task may be dropped. With \<open>overlap\<close>, a RAV is also stored for a request that is
  older than the last stored RAV; without it, the requests under way are given up when a RAV is
  stored.\<close>

inductive calls ::
    "('ctx, 'c, 'r, 'u, 'v, 'sg, 'k) system \<Rightarrow> ('ctx \<Rightarrow> bool) \<Rightarrow> bool \<Rightarrow> 'ctx \<Rightarrow> 'ctx
       \<Rightarrow> 'r multiset \<Rightarrow> 'r multiset \<Rightarrow> ('v, 'sg, 'r) task multiset \<Rightarrow> bool" for S room overlap c0 where
  start: "calls S room overlap c0 c0 {#} {#} {#}"
| check: "calls S room overlap c0 c accepted aggregated tasks \<Longrightarrow>
     perform_checks c ctx (mgr_checks (sys_manager S)) rx = Inr () \<Longrightarrow>
     calls S room overlap c0 c accepted aggregated (add_mset (Cleared rx) tasks)"
| store: "calls S room overlap c0 c accepted aggregated (add_mset (Cleared rx) tasks) \<Longrightarrow> room c \<Longrightarrow>
     store_receipt (sys_adapters S) rx c = (res, c') \<Longrightarrow>
     calls S room overlap c0 c' (if is_ok res then add_mset (rx_receipt rx) accepted else accepted)
       aggregated tasks"
| previous: "calls S room overlap c0 c accepted aggregated tasks \<Longrightarrow>
     last_rav (sys_adapters S) c = Inr prev \<Longrightarrow>
     calls S room overlap c0 c accepted aggregated (add_mset (Requested prev aggregated) tasks)"
| retrieve: "calls S room overlap c0 c accepted aggregated (add_mset (Requested prev claimed) tasks) \<Longrightarrow>
     min_ts = min_timestamp_after (sys_rav_ts S) prev \<Longrightarrow>
     max_ts = ucast (now :: u128) - buffer \<Longrightarrow> \<not> max_ts < min_ts \<Longrightarrow>
     retrieve_receipts_in_timestamp_range (sys_adapters S) (range_half_open min_ts max_ts) limit c = Inr rxs \<Longrightarrow>
     timestamp_check_batch (sys_ops S) min_ts rxs = Inr (later, early) \<Longrightarrow>
     unique_check_batch (sys_ops S) later = Inr (todo, repeated) \<Longrightarrow>
     calls S room overlap c0 c accepted aggregated
       (add_mset (Collecting prev claimed todo [] (early @ repeated)) tasks)"
| finalize: "calls S room overlap c0 c accepted aggregated
       (add_mset (Collecting prev claimed (rx # todo) ok bad) tasks) \<Longrightarrow>
     finalize_receipt_checks c ctx (mgr_checks (sys_manager S)) rx = Inr res \<Longrightarrow>
     calls S room overlap c0 c accepted aggregated (add_mset
       (case res of
          Inr k \<Rightarrow> Collecting prev claimed todo (ok @ [k]) bad
        | Inl b \<Rightarrow> Collecting prev claimed todo ok (bad @ [b])) tasks)"
| request: "calls S room overlap c0 c accepted aggregated
       (add_mset (Collecting prev claimed [] ok bad) tasks) \<Longrightarrow>
     sys_agg S ok prev = Inr expected \<Longrightarrow>
     calls S room overlap c0 c accepted aggregated
       (add_mset (Awaiting expected (claimed + receipts ok)) tasks)"
| verify: "calls S room overlap c0 c accepted aggregated tasks \<Longrightarrow> Awaiting expected claimed \<in># tasks \<Longrightarrow>
     check_signature (sys_adapters S) (sys_crypto S) (sys_rav_hash S) sr
       (mgr_domain_separator (sys_manager S)) c = (Inr () :: 'v core_error + unit) \<Longrightarrow>
     message sr = expected \<Longrightarrow>
     calls S room overlap c0 c accepted aggregated (add_mset (Verified sr claimed) tasks)"
| update: "calls S room overlap c0 c accepted aggregated (add_mset (Verified sr claimed) tasks) \<Longrightarrow>
     update_last_rav (sys_adapters S) sr c = (res, c') \<Longrightarrow>
     calls S room overlap c0 c' accepted (if is_ok res then claimed else aggregated)
       (if is_ok res \<and> \<not> overlap then filter_mset (\<lambda>t. \<not> on_request t) tasks else tasks)"
| obsolete: "calls S room overlap c0 c accepted aggregated tasks \<Longrightarrow>
     last_rav (sys_adapters S) c = Inr (Some lr) \<Longrightarrow>
     calls S room overlap c0 c accepted aggregated (add_mset (Cleaning (sys_rav_ts S (message lr))) tasks)"
| remove: "calls S room overlap c0 c accepted aggregated (add_mset (Cleaning t) tasks) \<Longrightarrow>
     remove_receipts_in_timestamp_range (sys_adapters S) (range_to_inclusive t) c = (res, c') \<Longrightarrow>
     calls S room overlap c0 c' accepted aggregated tasks"
| drop: "calls S room overlap c0 c accepted aggregated (add_mset t tasks) \<Longrightarrow>
     calls S room overlap c0 c accepted aggregated tasks"

section \<open>The contract of a RAV\<close>

locale lifecycle = receipt_context A ts inv room stored saved
  for A :: "('ctx, 'r, ('v, 'sg) signed_message) adapters"
    and ts :: "'r \<Rightarrow> u64"
    and inv :: "'ctx \<Rightarrow> bool"
    and room :: "'ctx \<Rightarrow> bool"
    and stored :: "'ctx \<Rightarrow> 'r multiset"
    and saved :: "'ctx \<Rightarrow> ('v, 'sg) signed_message option" +
  fixes ops :: "('r, 'u) receipt_ops"
    and val :: "'r \<Rightarrow> nat"
    and rav_ts :: "'v \<Rightarrow> u64"
    and rav_val :: "'v \<Rightarrow> nat"
    and agg :: "'r checked_receipt list \<Rightarrow> ('v, 'sg) signed_message option \<Rightarrow> aggregation_error + 'v"
  assumes ops_ts: "op_timestamp_ns ops = ts"
    and agg_value: "agg valid prev = Inr e \<Longrightarrow>
      rav_val e = (case prev of None \<Rightarrow> 0 | Some p \<Rightarrow> rav_val (message p)) +
        (\<Sum>r\<in>#receipts valid. val r)"
    and agg_covers: "agg valid prev = Inr e \<Longrightarrow> v \<in> set valid \<Longrightarrow> ts (rx_receipt v) \<le> rav_ts e"
    and agg_after: "agg valid (Some p) = Inr e \<Longrightarrow> rav_ts (message p) \<le> rav_ts e"
    and agg_attained: "agg valid prev = Inr e \<Longrightarrow>
      (\<exists>v\<in>set valid. rav_ts e = ts (rx_receipt v)) \<or>
      (\<exists>p. prev = Some p \<and> rav_ts e = rav_ts (message p))"
begin

section \<open>Invariants\<close>

text \<open>A RAV accounts for a collection of accepted receipts: it is worth exactly these, none is
  newer than it, and its timestamp is that of an accepted receipt.\<close>

definition accounts :: "'r multiset \<Rightarrow> 'v \<Rightarrow> 'r multiset \<Rightarrow> bool" where
  "accounts accepted v claimed \<longleftrightarrow> claimed \<subseteq># accepted \<and> rav_val v = (\<Sum>r\<in>#claimed. val r) \<and>
     (\<forall>r\<in>#claimed. ts r \<le> rav_ts v) \<and> (\<exists>r\<in>#accepted. ts r = rav_ts v)"

definition last_accounts :: "'r multiset \<Rightarrow> ('v, 'sg) signed_message option \<Rightarrow> 'r multiset \<Rightarrow> bool" where
  "last_accounts accepted prev claimed \<longleftrightarrow>
     (case prev of None \<Rightarrow> claimed = {#} | Some p \<Rightarrow> accounts accepted (message p) claimed)"

text \<open>The receipts that a RAV covers, one that may be absent.\<close>

definition before :: "('v, 'sg) signed_message option \<Rightarrow> 'r \<Rightarrow> bool" where
  "before prev r \<longleftrightarrow> (\<exists>p. prev = Some p \<and> ts r \<le> rav_ts (message p))"

abbreviation covered :: "'ctx \<Rightarrow> 'r \<Rightarrow> bool" where
  "covered c \<equiv> before (saved c)"

definition owed :: "'ctx \<Rightarrow> nat" where
  "owed c = (case saved c of None \<Rightarrow> 0 | Some p \<Rightarrow> rav_val (message p))"

text \<open>What every interleaving keeps: the last RAV, and each RAV that is under way, accounts for its
  receipts.\<close>

fun task_books :: "'r multiset \<Rightarrow> ('v, 'sg, 'r) task \<Rightarrow> bool" where
  "task_books accepted (Cleared rx) \<longleftrightarrow> True"
| "task_books accepted (Requested prev claimed) \<longleftrightarrow> last_accounts accepted prev claimed"
| "task_books accepted (Collecting prev claimed todo ok bad) \<longleftrightarrow>
     last_accounts accepted prev claimed \<and> claimed + receipts ok + receipts todo \<subseteq># accepted"
| "task_books accepted (Awaiting expected claimed) \<longleftrightarrow> accounts accepted expected claimed"
| "task_books accepted (Verified sr claimed) \<longleftrightarrow> accounts accepted (message sr) claimed"
| "task_books accepted (Cleaning t) \<longleftrightarrow> True"

definition books_inv :: "'ctx \<Rightarrow> 'r multiset \<Rightarrow> 'r multiset \<Rightarrow> ('v, 'sg, 'r) task multiset \<Rightarrow> bool" where
  "books_inv c accepted aggregated tasks \<longleftrightarrow> inv c \<and> stored c \<subseteq># accepted \<and>
     last_accounts accepted (saved c) aggregated \<and> (\<forall>t\<in>#tasks. task_books accepted t)"

text \<open>What holds beside it when the requests under way are given up as a RAV is stored: receipts
  leave the store only under the last RAV, a request builds on the last RAV, and a removal spares
  what the last RAV does not cover.\<close>

definition extends_last :: "'ctx \<Rightarrow> 'r multiset \<Rightarrow> 'v \<Rightarrow> 'r multiset \<Rightarrow> bool" where
  "extends_last c aggregated v claimed \<longleftrightarrow>
     aggregated \<subseteq># claimed \<and> (\<forall>r. covered c r \<longrightarrow> ts r \<le> rav_ts v)"

fun task_order :: "'ctx \<Rightarrow> 'r multiset \<Rightarrow> ('v, 'sg, 'r) task \<Rightarrow> bool" where
  "task_order c aggregated (Cleared rx) \<longleftrightarrow> True"
| "task_order c aggregated (Requested prev claimed) \<longleftrightarrow> prev = saved c \<and> claimed = aggregated"
| "task_order c aggregated (Collecting prev claimed todo ok bad) \<longleftrightarrow>
     prev = saved c \<and> claimed = aggregated"
| "task_order c aggregated (Awaiting expected claimed) \<longleftrightarrow> extends_last c aggregated expected claimed"
| "task_order c aggregated (Verified sr claimed) \<longleftrightarrow> extends_last c aggregated (message sr) claimed"
| "task_order c aggregated (Cleaning t) \<longleftrightarrow> (\<forall>r. ts r \<le> t \<longrightarrow> covered c r)"

definition order_inv :: "'ctx \<Rightarrow> 'r multiset \<Rightarrow> 'r multiset \<Rightarrow> ('v, 'sg, 'r) task multiset \<Rightarrow> bool" where
  "order_inv c accepted aggregated tasks \<longleftrightarrow>
     (\<forall>r\<in>#accepted - stored c. covered c r) \<and> (\<forall>t\<in>#tasks. task_order c aggregated t)"

section \<open>Each step keeps them\<close>

lemma before_cases:
  "last_accounts accepted prev claimed \<Longrightarrow> r \<in># claimed \<Longrightarrow> before prev r"
  by (auto simp: last_accounts_def accounts_def before_def split: option.splits)

lemma accounts_mono: "accounts accepted v claimed \<Longrightarrow> accepted \<subseteq># accepted' \<Longrightarrow> accounts accepted' v claimed"
  by (auto simp: accounts_def intro: subset_mset.order_trans dest: mset_subset_eqD)

lemma last_accounts_mono:
  "last_accounts accepted prev claimed \<Longrightarrow> accepted \<subseteq># accepted' \<Longrightarrow> last_accounts accepted' prev claimed"
  by (auto simp: last_accounts_def accounts_mono split: option.splits)

lemma task_books_mono: "task_books accepted t \<Longrightarrow> accepted \<subseteq># accepted' \<Longrightarrow> task_books accepted' t"
  by (cases t) (auto intro: accounts_mono last_accounts_mono subset_mset.order_trans)

lemma task_order_cong:
  assumes "saved c' = saved c"
  shows "task_order c' aggregated t = task_order c aggregated t"
  using assms by (cases t) (simp_all add: extends_last_def)

lemma last_accounts_sum:
  assumes "last_accounts accepted prev claimed"
  shows "(case prev of None \<Rightarrow> 0 | Some p \<Rightarrow> rav_val (message p)) = (\<Sum>r\<in>#claimed. val r)"
    and "prev = Some p \<Longrightarrow> \<exists>r\<in>#accepted. ts r = rav_ts (message p)"
  using assms by (auto simp: last_accounts_def accounts_def split: option.splits)

lemma books_aggregated:
  assumes "books_inv c accepted aggregated tasks"
  shows "aggregated \<subseteq># accepted" and "\<forall>r\<in>#aggregated. covered c r"
    and "owed c = (\<Sum>r\<in>#aggregated. val r)"
  using assms
  by (auto simp: books_inv_def last_accounts_def accounts_def before_def owed_def split: option.splits)

text \<open>Below the greatest timestamp, the receipts of a request are new to the RAV it has read, also
  when other RAVs were stored since.\<close>

lemma min_timestamp_not_before:
  assumes "\<forall>p. prev = Some p \<longrightarrow> rav_ts (message p) < - 1"
    and "min_timestamp_after rav_ts prev \<le> ts r"
  shows "\<not> before prev r"
proof (cases prev)
  case (Some p)
  with assms have "rav_ts (message p) < rav_ts (message p) + 1" "rav_ts (message p) + 1 \<le> ts r"
    by (auto simp: min_timestamp_after_def less_succ)
  with Some show ?thesis by (auto simp: before_def)
qed (simp add: before_def)

lemma subset_by_filter:
  assumes "X \<subseteq># N" and "Y \<subseteq># N" and "\<forall>x\<in>#X. P x" and "\<forall>x\<in>#Y. \<not> P x"
  shows "X + Y \<subseteq># N"
proof (rule mset_subset_eqI)
  fix a
  have "count Y a = 0" if "count X a \<noteq> 0"
    using that assms(3,4) by (meson count_eq_zero_iff)
  moreover have "count X a \<le> count N a" "count Y a \<le> count N a"
    using assms(1,2) by (simp_all add: mset_subset_eq_count)
  ultimately show "count (X + Y) a \<le> count N a" by (cases "count X a = 0") simp_all
qed

lemma retrieved_receipts:
  assumes inv: "inv c" and "op_timestamp_ns ops = ts"
    and "retrieve_receipts_in_timestamp_range A (range_half_open min_ts max_ts) limit c = Inr rxs"
    and "timestamp_check_batch ops min_ts rxs = Inr (later, early)"
    and "unique_check_batch ops later = Inr (todo, repeated)"
  shows "receipts todo \<subseteq># filter_mset (\<lambda>r. min_ts \<le> ts r) (stored c)"
proof -
  from retrieve_spec [OF inv, of "range_half_open min_ts max_ts" limit] assms(3)
  have "receipts rxs \<subseteq># filter_mset (\<lambda>r. min_ts \<le> ts r) (stored c)"
    by (auto simp: filter_filter_mset intro: filter_mset_mono_strong)
  moreover have "receipts later \<subseteq># receipts rxs"
    using assms(4) by (auto simp: timestamp_check_batch_def timestamp_check_loop_filter intro!: image_mset_subseteq_mono)
  moreover have "receipts todo \<subseteq># receipts later"
    using assms(5) unique_check_partition [of "op_unique_id ops" "{}" later todo repeated]
    by (metis mset_subset_eq_add_left sum.inject(2) unique_check_batch_def)
  ultimately show ?thesis by (meson subset_mset.order_trans)
qed

lemma books_retrieve:
  assumes B: "books_inv c accepted aggregated tasks" and prev: "last_accounts accepted prev claimed"
    and early: "\<forall>r\<in>#accepted. ts r < - 1"
    and todo: "receipts todo \<subseteq># filter_mset (\<lambda>r. min_timestamp_after rav_ts prev \<le> ts r) (stored c)"
  shows "claimed + receipts todo \<subseteq># accepted"
proof (rule subset_by_filter [where P = "before prev"])
  have last: "\<forall>p. prev = Some p \<longrightarrow> rav_ts (message p) < - 1"
    using last_accounts_sum(2) [OF prev] early by metis
  show "\<forall>r\<in>#claimed. before prev r" using before_cases [OF prev] by blast
  show "\<forall>r\<in>#receipts todo. \<not> before prev r"
    using mset_subset_eqD [OF todo] min_timestamp_not_before [OF last] by auto
  show "claimed \<subseteq># accepted" using prev by (auto simp: last_accounts_def accounts_def split: option.splits)
  have "receipts todo \<subseteq># stored c" using todo by (rule subset_mset.order_trans) simp
  with B show "receipts todo \<subseteq># accepted" by (auto simp: books_inv_def intro: subset_mset.order_trans)
qed

lemma books_request:
  assumes prev: "last_accounts accepted prev claimed" and all: "claimed + receipts ok \<subseteq># accepted"
    and agg: "agg ok prev = Inr expected"
  shows "accounts accepted expected (claimed + receipts ok)"
proof -
  have "rav_val expected = (\<Sum>r\<in>#claimed + receipts ok. val r)"
    using last_accounts_sum(1) [OF prev] agg_value [OF agg] by simp
  moreover have "ts r \<le> rav_ts expected" if "r \<in># claimed + receipts ok" for r
    using that before_cases [OF prev] agg_after agg agg_covers [OF agg]
    by (fastforce simp: before_def intro: order_trans)
  moreover have "\<exists>r\<in>#accepted. ts r = rav_ts expected"
    using agg_attained [OF agg]
  proof
    assume "\<exists>v\<in>set ok. rav_ts expected = ts (rx_receipt v)"
    then obtain v where "v \<in> set ok" "rav_ts expected = ts (rx_receipt v)" by blast
    moreover from this(1) have "rx_receipt v \<in># claimed + receipts ok" by simp
    ultimately show ?thesis using mset_subset_eqD [OF all] by metis
  qed (use last_accounts_sum(2) [OF prev] in metis)
  ultimately show ?thesis using all by (simp add: accounts_def)
qed

text \<open>The steps that change the state of the context.\<close>

lemma inv_store:
  assumes B: "books_inv c accepted aggregated tasks" and "room c" and run: "store_receipt A rx c = (res, c')"
  defines "accepted' \<equiv> (if is_ok res then add_mset (rx_receipt rx) accepted else accepted)"
  shows "books_inv c' accepted' aggregated tasks"
    and "order_inv c accepted aggregated tasks \<Longrightarrow> order_inv c' accepted' aggregated tasks"
proof -
  have "inv c" using B by (simp add: books_inv_def)
  from store_adds [OF this assms(2), of rx] run
  have c': "inv c'" "stored c' = add_mset (rx_receipt rx) (stored c)" "saved c' = saved c"
    and accepted': "accepted' = add_mset (rx_receipt rx) accepted" by (auto simp: accepted'_def)
  have "accepted \<subseteq># accepted'" by (simp add: accepted')
  then show "books_inv c' accepted' aggregated tasks"
    using B c' by (auto simp: books_inv_def accepted' intro: last_accounts_mono task_books_mono)
  show "order_inv c' accepted' aggregated tasks" if "order_inv c accepted aggregated tasks"
    using that c' by (simp add: order_inv_def accepted' task_order_cong [OF c'(3)])
qed

lemma inv_update:
  assumes B: "books_inv c accepted aggregated tasks" and sr: "accounts accepted (message sr) claimed"
    and run: "update_last_rav A sr c = (res, c')"
  shows "is_ok res" and "tasks' \<subseteq># tasks \<Longrightarrow> books_inv c' accepted claimed tasks'"
    and "order_inv c accepted aggregated tasks \<Longrightarrow> extends_last c aggregated (message sr) claimed \<Longrightarrow>
      order_inv c' accepted claimed (filter_mset (\<lambda>t. \<not> on_request t) tasks)"
proof -
  have "inv c" using B by (simp add: books_inv_def)
  from update_saves [OF this, of sr] run
  have c': "inv c'" "stored c' = stored c" "saved c' = Some sr" and "is_ok res" by auto
  show "is_ok res" by fact
  show "books_inv c' accepted claimed tasks'" if "tasks' \<subseteq># tasks"
    using B c' sr mset_subset_eqD [OF that] by (auto simp: books_inv_def last_accounts_def)
  show "order_inv c' accepted claimed (filter_mset (\<lambda>t. \<not> on_request t) tasks)"
    if O: "order_inv c accepted aggregated tasks" and "extends_last c aggregated (message sr) claimed"
  proof -
    have more: "covered c r \<Longrightarrow> covered c' r" for r
      using that(2) by (auto simp: extends_last_def c' before_def)
    have "task_order c' claimed t" if "t \<in># tasks" "\<not> on_request t" for t
      using that O more by (cases t) (auto simp: order_inv_def)
    with O more c'(2) show ?thesis by (auto simp: order_inv_def)
  qed
qed

lemma inv_remove:
  assumes B: "books_inv c accepted aggregated tasks"
    and run: "remove_receipts_in_timestamp_range A (range_to_inclusive t) c = (res, c')"
  shows "books_inv c' accepted aggregated tasks"
    and "order_inv c accepted aggregated tasks \<Longrightarrow> \<forall>r. ts r \<le> t \<longrightarrow> covered c r \<Longrightarrow>
      order_inv c' accepted aggregated tasks"
proof -
  have "inv c" using B by (simp add: books_inv_def)
  from remove_filters [OF this, of "range_to_inclusive t"] run
  have c': "inv c'" "saved c' = saved c" "stored c' = filter_mset (\<lambda>r. t < ts r) (stored c)"
    by (auto simp: not_le)
  have "stored c' \<subseteq># stored c" unfolding c'(3) by simp
  with B c'(1,2) show "books_inv c' accepted aggregated tasks"
    by (auto simp: books_inv_def intro: subset_mset.order_trans)
  show "order_inv c' accepted aggregated tasks"
    if O: "order_inv c accepted aggregated tasks" and t: "\<forall>r. ts r \<le> t \<longrightarrow> covered c r"
  proof -
    have "covered c r" if "r \<in># accepted - stored c'" for r
    proof (cases "covered c r")
      case False
      with t have "t < ts r" by (auto simp: not_le [symmetric])
      then have "count (stored c') r = count (stored c) r" by (simp add: c'(3))
      with that have "r \<in># accepted - stored c" by (simp add: in_diff_count)
      with O show ?thesis by (simp add: order_inv_def)
    qed
    with O c'(2) show ?thesis by (simp add: order_inv_def task_order_cong [OF c'(2)])
  qed
qed

text \<open>Both invariants of a state; a new task only has to meet its own part.\<close>

definition safe :: "bool \<Rightarrow> 'ctx \<Rightarrow> 'r multiset \<Rightarrow> 'r multiset \<Rightarrow> ('v, 'sg, 'r) task multiset \<Rightarrow> bool" where
  "safe overlap c accepted aggregated tasks \<longleftrightarrow> books_inv c accepted aggregated tasks \<and>
     (overlap \<or> order_inv c accepted aggregated tasks)"

lemma safe_add:
  "safe overlap c accepted aggregated (add_mset t tasks) \<longleftrightarrow> safe overlap c accepted aggregated tasks \<and>
     task_books accepted t \<and> (overlap \<or> task_order c aggregated t)"
  by (auto simp: safe_def books_inv_def order_inv_def)

lemma safeD:
  assumes "safe overlap c accepted aggregated tasks"
  shows "books_inv c accepted aggregated tasks" and "inv c" and "last_rav A c = Inr (saved c)"
    and "last_accounts accepted (saved c) aggregated"
    and "t \<in># tasks \<Longrightarrow> task_books accepted t \<and> (overlap \<or> task_order c aggregated t)"
  using assms by (auto simp: safe_def books_inv_def order_inv_def last_rav_saved)

lemma safe_retrieve:
  assumes safe: "safe overlap c accepted aggregated (add_mset (Requested prev claimed) tasks)"
    and "\<forall>r\<in>#accepted. ts r < - 1"
    and "retrieve_receipts_in_timestamp_range A
      (range_half_open (min_timestamp_after rav_ts prev) max_ts) limit c = Inr rxs"
    and "timestamp_check_batch ops (min_timestamp_after rav_ts prev) rxs = Inr (later, early)"
    and "unique_check_batch ops later = Inr (todo, repeated)"
  shows "safe overlap c accepted aggregated (add_mset (Collecting prev claimed todo [] bad) tasks)"
  using safe books_retrieve [OF safeD(1) [OF safe] _ assms(2) retrieved_receipts [OF safeD(2) [OF safe] ops_ts assms(3-5)]]
  by (simp add: safe_add)

lemma safe_finalize:
  assumes safe: "safe overlap c accepted aggregated (add_mset (Collecting prev claimed (rx # todo) ok bad) tasks)"
    and fin: "finalize_receipt_checks c ctx checks rx = Inr res"
  shows "safe overlap c accepted aggregated (add_mset
    (case res of Inr k \<Rightarrow> Collecting prev claimed todo (ok @ [k]) bad
     | Inl b \<Rightarrow> Collecting prev claimed todo ok (bad @ [b])) tasks)"
proof -
  from safe have all: "add_mset (rx_receipt rx) (claimed + receipts ok + receipts todo) \<subseteq># accepted"
    by (simp add: safe_add)
  then have rest: "claimed + receipts ok + receipts todo \<subseteq># accepted"
    by (meson mset_subset_eq_insertD subset_mset.less_imp_le)
  show ?thesis
  proof (cases res)
    case (Inl b)
    with safe rest show ?thesis by (simp add: safe_add)
  next
    case (Inr k)
    with fin have "rx_receipt k = rx_receipt rx" by (simp add: finalize_receipt(1))
    with Inr safe all show ?thesis by (simp add: safe_add)
  qed
qed

lemma safe_request:
  assumes safe: "safe overlap c accepted aggregated (add_mset (Collecting prev claimed [] ok bad) tasks)"
    and agg: "agg ok prev = Inr expected"
  shows "safe overlap c accepted aggregated (add_mset (Awaiting expected (claimed + receipts ok)) tasks)"
proof -
  have "accounts accepted expected (claimed + receipts ok)"
    using safe by (intro books_request [OF _ _ agg]) (simp_all add: safe_add)
  moreover have "overlap \<or> extends_last c aggregated expected (claimed + receipts ok)"
    using safe agg_after agg
    by (fastforce simp: safe_add extends_last_def before_def intro: order_trans)
  ultimately show ?thesis using safe by (simp add: safe_add)
qed

lemma safe_update:
  assumes safe: "safe overlap c accepted aggregated (add_mset (Verified sr claimed) tasks)"
    and run: "update_last_rav A sr c = (res, c')"
  shows "safe overlap c' accepted (if is_ok res then claimed else aggregated)
    (if is_ok res \<and> \<not> overlap then filter_mset (\<lambda>t. \<not> on_request t) tasks else tasks)"
proof -
  from safe have "books_inv c accepted aggregated tasks" "accounts accepted (message sr) claimed"
    using safeD(1) [of overlap c accepted aggregated tasks] by (simp_all add: safe_add)
  note step = inv_update [OF this run]
  from step(1) step(2) [of tasks] step(2) [of "filter_mset (\<lambda>t. \<not> on_request t) tasks"] step(3) safe
  show ?thesis by (auto simp: safe_def order_inv_def)
qed

text \<open>Every reachable state is safe, as long as no receipt carries the greatest timestamp.\<close>

lemma calls_safe:
  assumes "calls S room overlap c0 c accepted aggregated tasks"
    and "sys_adapters S = A" and "sys_ops S = ops" and "sys_rav_ts S = rav_ts" and "sys_agg S = agg"
    and "inv c0" and "stored c0 = {#}" and "saved c0 = None"
    and "\<forall>r\<in>#accepted. ts r < - 1"
  shows "safe overlap c accepted aggregated tasks"
  using assms
proof (induction rule: calls.induct)
  case start
  then show ?case by (simp add: safe_def books_inv_def order_inv_def last_accounts_def)
next
  case (check c accepted aggregated tasks ctx rx)
  then show ?case by (simp add: safe_add)
next
  case (store c accepted aggregated rx tasks res c')
  have "\<forall>r\<in>#accepted. ts r < - 1" using store.prems(8) by (auto split: if_splits)
  from store.IH [OF store.prems(1-7) this] have "safe overlap c accepted aggregated tasks"
    by (simp add: safe_add)
  with inv_store [OF safeD(1) [OF this] store.hyps(2) store.hyps(3) [unfolded store.prems(1)]]
  show ?case unfolding safe_def by blast
next
  case (previous c accepted aggregated tasks prev)
  with safeD(3,4) [OF previous.IH [OF previous.prems]] show ?case by (simp add: safe_add)
next
  case retrieve
  show ?case using safe_retrieve [OF retrieve.IH [OF retrieve.prems] retrieve.prems(8)] retrieve.hyps(2,5-7)
    unfolding retrieve.prems(1-3) by blast
next
  case finalize
  from safe_finalize [OF finalize.IH [OF finalize.prems] finalize.hyps(2)] show ?case .
next
  case request
  from safe_request [OF request.IH [OF request.prems] request.hyps(2) [unfolded request.prems(4)]]
  show ?case .
next
  case (verify c accepted aggregated tasks expected claimed sr)
  from safeD(5) [OF verify.IH [OF verify.prems] verify.hyps(2)] verify show ?case by (simp add: safe_add)
next
  case update
  from safe_update [OF update.IH [OF update.prems] update.hyps(2) [unfolded update.prems(1)]] show ?case .
next
  case (obsolete c accepted aggregated tasks lr)
  from safeD(3) [OF obsolete.IH [OF obsolete.prems]] obsolete show ?case
    by (simp add: safe_add before_def)
next
  case (remove c accepted aggregated t tasks res c')
  from remove.IH [OF remove.prems] have "safe overlap c accepted aggregated tasks"
    and "overlap \<or> (\<forall>r. ts r \<le> t \<longrightarrow> covered c r)" by (simp_all add: safe_add)
  with inv_remove [OF safeD(1) [OF this(1)] remove.hyps(2) [unfolded remove.prems(1)]]
  show ?case unfolding safe_def by blast
next
  case (drop c accepted aggregated t tasks)
  from drop.IH [OF drop.prems] show ?case by (simp add: safe_add)
qed

end

end
