(* ===== verification/Lifecycle.thy ===== *)
theory Lifecycle
  imports Interleaving
begin

text \<open>
  The life of a channel: each operation of the manager, taken as a whole, is a run of the calls of
  \<open>Interleaving\<close>. The aggregator answers a request at some later time, so a request and the storing
  of its RAV are two operations, with any others between them.

  The locale \<open>lifecycle\<close> is interpreted for the receipts and RAVs of The Graph on the in-memory
  context.
\<close>

section \<open>An operation is a sequence of its calls\<close>

text \<open>Each operation of the manager is a run of its pieces with nothing between them, so what holds
  of the interleaved calls holds of the interleaved operations.\<close>

lemma calls_receive:
  fixes S :: "('ctx, 'c, 'r, 'u, 'v, 'sg, 'k) system"
  assumes "calls S room overlap c0 c accepted aggregated tasks" and "room c"
    and "verify_and_store_receipt (sys_adapters S) (sys_manager S) ctx r c = (res :: 'v core_error + unit, c')"
  shows "calls S room overlap c0 c' (if is_ok res then add_mset r accepted else accepted) aggregated tasks"
proof (cases "perform_checks c ctx (mgr_checks (sys_manager S)) (receipt_new r)")
  case (Inl e)
  with assms show ?thesis by (auto simp: verify_and_store_receipt_def)
next
  case (Inr u)
  then have pass: "perform_checks c ctx (mgr_checks (sys_manager S)) (receipt_new r) = Inr ()" by simp
  obtain i c'' where st: "store_receipt (sys_adapters S) (receipt_new r) c = (i, c'')" by fastforce
  from calls.store [OF calls.check [OF assms(1) pass] assms(2) st]
  have "calls S room overlap c0 c'' (if is_ok i then add_mset r accepted else accepted) aggregated tasks"
    unfolding rx_projections(1) .
  moreover have "c'' = c'" "is_ok i = is_ok res"
    using assms(3) Inr st by (auto simp: verify_and_store_receipt_def split: sum.splits)
  ultimately show ?thesis by simp
qed

lemma calls_finalize_loop:
  fixes S :: "('ctx, 'c, 'r, 'u, 'v, 'sg, 'k) system"
  assumes "calls S room overlap c0 c accepted aggregated (add_mset (Collecting prev claimed todo ok bad) tasks)"
    and "finalize_loop c ctx (mgr_checks (sys_manager S)) todo ok bad = (Inr (ok', bad') :: 'v core_error + _)"
  shows "calls S room overlap c0 c accepted aggregated (add_mset (Collecting prev claimed [] ok' bad') tasks)"
  using assms
proof (induction todo arbitrary: ok bad)
  case (Cons rx todo)
  from Cons.prems(2) obtain x where x: "finalize_receipt_checks c ctx (mgr_checks (sys_manager S)) rx = Inr x"
    by (auto split: sum.splits)
  from calls.finalize [OF Cons.prems(1) x] Cons.prems(2) x show ?case
    by (cases x) (auto intro: Cons.IH)
qed simp

lemma calls_request:
  fixes S :: "('ctx, 'c, 'r, 'u, 'v, 'sg, 'k) system"
  assumes run: "calls S room overlap c0 c accepted aggregated tasks"
    and req: "create_rav_request (sys_adapters S) (sys_ops S) (sys_rav_ts S) (sys_agg S) (sys_manager S)
      since_epoch ctx buffer limit c = Inr req"
    and exp: "req_expected_rav req = Inr expected"
  shows "calls S room overlap c0 c accepted aggregated
    (add_mset (Awaiting expected (aggregated + receipts (req_valid_receipts req))) tasks)"
proof -
  let ?checks = "mgr_checks (sys_manager S)"
  from req obtain prev ok bad where prev: "last_rav (sys_adapters S) c = Inr prev"
    and col: "collect_receipts (sys_adapters S) (sys_ops S) (sys_manager S) since_epoch ctx buffer
      (min_timestamp_after (sys_rav_ts S) prev) limit c = (Inr (ok, bad) :: 'v core_error + _)"
    and r: "req_valid_receipts req = ok" "req_expected_rav req = sys_agg S ok prev"
    by (auto simp: create_rav_request_def get_previous_rav_def result_simps Let_def)
  let ?min = "min_timestamp_after (sys_rav_ts S) prev"
  from col obtain "now" :: u128 and rxs later early todo repeated where retrieve:
    "\<not> ucast now - buffer < ?min"
    "retrieve_receipts_in_timestamp_range (sys_adapters S) (range_half_open ?min (ucast now - buffer)) limit c = Inr rxs"
    "timestamp_check_batch (sys_ops S) ?min rxs = Inr (later, early)"
    "unique_check_batch (sys_ops S) later = Inr (todo, repeated)"
    and fin: "finalize_loop c ctx ?checks todo [] (early @ repeated) = (Inr (ok, bad) :: 'v core_error + _)"
    by (auto simp: collect_receipts_def get_current_timestamp_u64_ns_def result_simps Let_def split: if_splits)
  from calls.previous [OF run prev]
  have "calls S room overlap c0 c accepted aggregated (add_mset (Requested prev aggregated) tasks)" .
  from calls.retrieve [OF this refl refl retrieve]
  have "calls S room overlap c0 c accepted aggregated
    (add_mset (Collecting prev aggregated todo [] (early @ repeated)) tasks)" .
  from calls_finalize_loop [OF this fin]
  have "calls S room overlap c0 c accepted aggregated (add_mset (Collecting prev aggregated [] ok bad) tasks)" .
  from calls.request [OF this] r exp show ?thesis by simp
qed

lemma calls_answer:
  fixes S :: "('ctx, 'c, 'r, 'u, 'v, 'sg, 'k) system"
  assumes run: "calls S room overlap c0 c accepted aggregated tasks" and awaited: "Awaiting expected claimed \<in># tasks"
    and store: "verify_and_store_rav (sys_adapters S) (sys_crypto S) (sys_rav_hash S) (sys_manager S)
      expected sr c = (res :: 'v core_error + unit, c')"
  shows "calls S room overlap c0 c' accepted (if is_ok res then claimed else aggregated)
    (if is_ok res \<and> \<not> overlap then filter_mset (\<lambda>t. \<not> on_request t) tasks else tasks)"
proof (cases "check_signature (sys_adapters S) (sys_crypto S) (sys_rav_hash S) sr
    (mgr_domain_separator (sys_manager S)) c = (Inr () :: 'v core_error + unit) \<and> message sr = expected")
  case True
  obtain x c'' where up: "update_last_rav (sys_adapters S) sr c = (x, c'')" by fastforce
  with store True have "c'' = c' \<and> is_ok x = is_ok res"
    by (cases x) (auto simp: verify_and_store_rav_def)
  with calls.update [OF calls.verify [OF run awaited conjunct1 [OF True] conjunct2 [OF True]] up]
  show ?thesis by (simp del: if_split)
next
  case False
  have "c' = c \<and> \<not> is_ok res"
  proof (cases "check_signature (sys_adapters S) (sys_crypto S) (sys_rav_hash S) sr
      (mgr_domain_separator (sys_manager S)) c :: 'v core_error + unit")
    case (Inl e)
    with store have "(Inl e, c) = (res, c')" by (simp add: verify_and_store_rav_def)
    then show ?thesis by auto
  next
    case (Inr u)
    with store False show ?thesis by (auto simp: verify_and_store_rav_def)
  qed
  with run show ?thesis by simp
qed

lemma calls_clean:
  fixes S :: "('ctx, 'c, 'r, 'u, 'v, 'sg, 'k) system"
  assumes run: "calls S room overlap c0 c accepted aggregated tasks"
    and clean: "remove_obsolete_receipts (sys_adapters S) (sys_rav_ts S) c = (res :: 'v core_error + unit, c')"
  shows "calls S room overlap c0 c' accepted aggregated tasks"
proof (cases "\<exists>lr. last_rav (sys_adapters S) c = Inr (Some lr)")
  case True
  then obtain lr where lr: "last_rav (sys_adapters S) c = Inr (Some lr)" ..
  obtain x c'' where rm: "remove_receipts_in_timestamp_range (sys_adapters S)
      (range_to_inclusive (sys_rav_ts S (message lr))) c = (x, c'')" by fastforce
  from calls.remove [OF calls.obsolete [OF run lr] rm] clean lr rm show ?thesis
    by (auto simp: remove_obsolete_receipts_def get_previous_rav_def split: sum.splits)
next
  case False
  with clean run show ?thesis
    by (auto simp: remove_obsolete_receipts_def get_previous_rav_def map_err_def split: sum.splits option.splits)
qed

section \<open>The receipts and RAVs of The Graph\<close>

lemma aggregate_checked_Inr:
  assumes "aggregate_checked valid prev = Inr e"
  shows "unat (rav_valueAggregate e) = prev_value prev + total_value (map rx_receipt valid)"
    and "rav_timestampNs e = latest_timestamp (map rx_receipt valid) (prev_timestamp prev)"
    and "valid \<noteq> []"
proof -
  obtain f fs where valid: "valid = f # fs"
    using assms by (auto simp: aggregate_checked_def split: list.splits)
  then obtain c p d s where "aggregate_receipts c p d s (map signed_receipt valid) prev = Inr e"
    using assms by (auto simp: aggregate_checked_def)
  moreover have "map signed_receipt valid = map rx_receipt valid" by (simp add: signed_receipt_def)
  ultimately have *: "prev_value prev + total_value (map rx_receipt valid) < 2 ^ 128"
    "e = \<lparr>rav_collectionId = c, rav_payer = p, rav_serviceProvider = s, rav_dataService = d,
          rav_timestampNs = latest_timestamp (map rx_receipt valid) (prev_timestamp prev),
          rav_valueAggregate = of_nat (prev_value prev + total_value (map rx_receipt valid)),
          rav_metadata = []\<rparr>"
    by (simp_all only: aggregate_receipts_Inr_iff)
  have "unat (of_nat (prev_value prev + total_value (map rx_receipt valid)) :: u128) =
      prev_value prev + total_value (map rx_receipt valid)"
    by (rule unat_of_nat_small) (use *(1) in simp)
  with *(2) show "unat (rav_valueAggregate e) = prev_value prev + total_value (map rx_receipt valid)"
    and "rav_timestampNs e = latest_timestamp (map rx_receipt valid) (prev_timestamp prev)"
    by simp_all
  show "valid \<noteq> []" using valid by simp
qed

lemma total_value_mset:
  "(\<Sum>r\<in>#mset rs. unat (rcpt_value (message r))) = total_value rs"
  by (induction rs) simp_all

interpretation graph: lifecycle in_memory_adapters "\<lambda>r. rcpt_timestamp_ns (message r)"
    mem_inv mem_room mem_stored rav_storage "signed_receipt_ops C"
    "\<lambda>r. unat (rcpt_value (message r))" rav_timestampNs "\<lambda>v. unat (rav_valueAggregate v)"
    aggregate_checked
  for C :: "('sg, 'k) crypto"
proof (unfold_locales, goal_cases)
  case 1
  show ?case by (simp add: signed_receipt_ops_def signed_message_ops_def)
next
  case (2 valid prev e)
  from aggregate_checked_Inr(1) [OF 2] total_value_mset [of "map rx_receipt valid"] show ?case
    by (cases prev) (simp_all add: multiset.map_comp comp_def)
next
  case (3 valid prev e v)
  from 3(2) have "rx_receipt v \<in> set (map rx_receipt valid)" by simp
  with aggregate_checked_Inr(2) [OF 3(1)] show ?case by (simp only: latest_timestamp_ge(2))
next
  case (4 valid p e)
  from aggregate_checked_Inr(2) [OF 4] show ?case by (simp add: latest_timestamp_ge(1))
next
  case (5 valid prev e)
  from latest_timestamp_attained [of "map rx_receipt valid" "prev_timestamp prev"]
    aggregate_checked_Inr(2,3) [OF 5]
  show ?case
  proof (cases prev)
    case None
    have "\<exists>r\<in>set (map rx_receipt valid). rav_timestampNs e = rcpt_timestamp_ns (message r)"
      using latest_timestamp_attained [of "map rx_receipt valid" "prev_timestamp prev"]
        aggregate_checked_Inr(2,3) [OF 5] None latest_timestamp_ge(2) [of _ "map rx_receipt valid" 0]
      by (cases valid) auto
    then show ?thesis by auto
  qed auto
qed

end
