(* ===== verification/Signers.thy ===== *)
theory Signers
  imports Eip712 "HOL-Library.AList"
begin

text \<open>
  The signing keys of the aggregator (\<open>crates/bin/aggregator/src/signers.rs\<close>): the keys of a
  payer, and the registry that resolves a payer to them. A \<open>HashMap\<close> that the code iterates or
  tests for emptiness is an association list with distinct keys; \<open>build_Inr_iff\<close> says exactly
  which configurations are accepted and what the registry then holds.
\<close>

section \<open>State\<close>

record 'k payer_keys =
  signing_key :: 'k
  accepted_signers :: "address set"

type_synonym 'k signer_registry = "(address \<times> 'k payer_keys) list"

text \<open>The texts of \<open>bail!\<close> and \<open>anyhow!\<close>, as the values they are made from.\<close>

datatype registry_error =
    SigningKeyListedTwice address address address
  | DuplicatePayer address
  | NoPayersConfigured
  | AcceptedSignerWithoutKey address address
  | SignerListedTwice address address address

definition payer_keys_new :: "('sg, 'k) crypto \<Rightarrow> 'k \<Rightarrow> address list \<Rightarrow> 'k payer_keys" where
  "payer_keys_new C key also_accept =
     \<lparr>signing_key = key, accepted_signers = {key_address C key} \<union> set also_accept\<rparr>"

section \<open>Building the registry\<close>

fun build_signing_keys ::
    "('sg, 'k) crypto \<Rightarrow> (address \<times> 'k) list \<Rightarrow> 'k signer_registry \<Rightarrow> (address \<rightharpoonup> address)
       \<Rightarrow> registry_error + ('k signer_registry \<times> (address \<rightharpoonup> address))" where
  "build_signing_keys C [] payers signer_payer = Inr (payers, signer_payer)"
| "build_signing_keys C ((payer, key) # keys) payers signer_payer =
     (case signer_payer (key_address C key) of
        Some other \<Rightarrow> Inl (SigningKeyListedTwice (key_address C key) other payer)
      | None \<Rightarrow>
          (case map_of payers payer of
             Some _ \<Rightarrow> Inl (DuplicatePayer payer)
           | None \<Rightarrow>
               build_signing_keys C keys (AList.update payer (payer_keys_new C key []) payers)
                 (signer_payer(key_address C key \<mapsto> payer))))"

fun build_accepted ::
    "(address \<times> address) list \<Rightarrow> 'k signer_registry \<Rightarrow> (address \<rightharpoonup> address)
       \<Rightarrow> registry_error + 'k signer_registry" where
  "build_accepted [] payers signer_payer = Inr payers"
| "build_accepted ((payer, accepted) # rest) payers signer_payer =
     (case map_of payers payer of
        None \<Rightarrow> Inl (AcceptedSignerWithoutKey accepted payer)
      | Some keys \<Rightarrow>
          (let proceed = build_accepted rest
                 (AList.update payer
                    (keys\<lparr>accepted_signers := insert accepted (accepted_signers keys)\<rparr>) payers)
                 (signer_payer(accepted \<mapsto> payer)) in
           case signer_payer accepted of
             Some other \<Rightarrow>
               if other \<noteq> payer then Inl (SignerListedTwice accepted other payer) else proceed
           | None \<Rightarrow> proceed))"

definition registry_build ::
    "('sg, 'k) crypto \<Rightarrow> (address \<times> 'k) list \<Rightarrow> (address \<times> address) list
       \<Rightarrow> registry_error + 'k signer_registry" where
  "registry_build C signing_keys accepted =
     rbind (build_signing_keys C signing_keys [] Map.empty) (\<lambda>(payers, signer_payer).
       if payers = [] then Inl NoPayersConfigured
       else build_accepted accepted payers signer_payer)"

definition resolve :: "'k signer_registry \<Rightarrow> address \<Rightarrow> ('k \<times> address set) option" where
  "resolve R payer =
     map_option (\<lambda>keys. (signing_key keys, accepted_signers keys)) (map_of R payer)"

definition registry_summary ::
    "('sg, 'k) crypto \<Rightarrow> 'k signer_registry \<Rightarrow> (address \<times> address \<times> address list) list" where
  "registry_summary C R =
     sort_key fst
       (map (\<lambda>(payer, keys).
               (payer, key_address C (signing_key keys), sorted_list_of_set (accepted_signers keys))) R)"

section \<open>What the loops compute\<close>

abbreviation key_entry :: "('sg, 'k) crypto \<Rightarrow> address \<times> 'k \<Rightarrow> address \<times> 'k payer_keys" where
  "key_entry C pk \<equiv> (fst pk, payer_keys_new C (snd pk) [])"

abbreviation pair_signer :: "('sg, 'k) crypto \<Rightarrow> address \<times> 'k \<Rightarrow> address" where
  "pair_signer C pk \<equiv> key_address C (snd pk)"

abbreviation key_owner :: "('sg, 'k) crypto \<Rightarrow> address \<times> 'k \<Rightarrow> address \<times> address" where
  "key_owner C pk \<equiv> (pair_signer C pk, fst pk)"

lemma update_new_key: "map_of xs k = None \<Longrightarrow> AList.update k v xs = xs @ [(k, v)]"
  by (induction xs) (auto split: if_splits)

lemma map_of_snoc_None: "map_of (xs @ [(k, v)]) x = None \<longleftrightarrow> map_of xs x = None \<and> x \<noteq> k"
  by (auto simp: map_add_None)

lemma fun_upd_None_iff: "(m(k \<mapsto> v)) x = None \<longleftrightarrow> m x = None \<and> x \<noteq> k"
  by auto

lemma ball_avoids:
  "(\<forall>x\<in>S. (P x \<and> f x \<noteq> a) \<and> (Q x \<and> g x \<noteq> b)) \<longleftrightarrow> a \<notin> f ` S \<and> b \<notin> g ` S \<and> (\<forall>x\<in>S. P x \<and> Q x)"
  by auto

lemma build_signing_keys_Cons:
  assumes "sp (pair_signer C pk) = None" and "map_of R (fst pk) = None"
  shows "build_signing_keys C (pk # ks) R sp =
    build_signing_keys C ks (R @ [key_entry C pk]) (sp(pair_signer C pk \<mapsto> fst pk))"
  using assms by (cases pk) (simp add: update_new_key)

lemma build_signing_keys_Inr_iff:
  "build_signing_keys C ks R sp = Inr (R', sp') \<longleftrightarrow>
     distinct (map fst ks) \<and> distinct (map (pair_signer C) ks) \<and>
     (\<forall>pk\<in>set ks. map_of R (fst pk) = None \<and> sp (pair_signer C pk) = None) \<and>
     R' = R @ map (key_entry C) ks \<and> sp' = sp ++ map_of (rev (map (key_owner C) ks))"
proof (induction ks arbitrary: R sp)
  case Nil
  then show ?case by auto
next
  case (Cons pk ks)
  show ?case
  proof (cases "sp (pair_signer C pk) = None \<and> map_of R (fst pk) = None")
    case False
    then show ?thesis by (cases pk) (auto split: option.splits)
  next
    case True
    let ?R = "R @ [key_entry C pk]" and ?sp = "sp(pair_signer C pk \<mapsto> fst pk)"
    have free: "(\<forall>pk'\<in>set ks. map_of ?R (fst pk') = None \<and> ?sp (pair_signer C pk') = None) \<longleftrightarrow>
        fst pk \<notin> fst ` set ks \<and> pair_signer C pk \<notin> pair_signer C ` set ks \<and>
        (\<forall>pk'\<in>set ks. map_of R (fst pk') = None \<and> sp (pair_signer C pk') = None)"
      unfolding map_of_snoc_None fun_upd_None_iff by (rule ball_avoids)
    have sp: "sp ++ map_of (rev (map (key_owner C) (pk # ks))) =
        ?sp ++ map_of (rev (map (key_owner C) ks))" by simp
    have step: "build_signing_keys C (pk # ks) R sp = build_signing_keys C ks ?R ?sp"
      using True by (intro build_signing_keys_Cons) simp_all
    show ?thesis
      unfolding step Cons.IH free sp
      by (simp only: list.map distinct.simps list.set ball_simps set_map append_assoc
          append.simps True simp_thms conj_ac)
  qed
qed

text \<open>Each accepted signer names a payer with a key, and belongs to one payer only, over the list
  and the map built so far.\<close>

definition fits :: "(address \<times> address) list \<Rightarrow> (address \<rightharpoonup> address) \<Rightarrow> address set \<Rightarrow> bool" where
  "fits acc sp D \<longleftrightarrow> (\<forall>p a. (p, a) \<in> set acc \<longrightarrow>
     p \<in> D \<and> (\<forall>q. sp a = Some q \<longrightarrow> q = p) \<and> (\<forall>q. (q, a) \<in> set acc \<longrightarrow> q = p))"

lemma fits_Nil [simp]: "fits [] sp D"
  by (simp add: fits_def)

lemma fits_Cons:
  "fits ((p, a) # acc) sp D \<longleftrightarrow>
     p \<in> D \<and> (\<forall>q. sp a = Some q \<longrightarrow> q = p) \<and> fits acc (sp(a \<mapsto> p)) D" (is "?L \<longleftrightarrow> ?R")
proof
  assume L: ?L
  have "q = p" if "(q, a) \<in> set acc" for q
    using L that unfolding fits_def by (meson list.set_intros)
  with L show ?R unfolding fits_def by (auto split: if_splits)
next
  assume R: ?R
  then have "q = p" if "(q, a) \<in> set acc" for q
    using that unfolding fits_def by (metis fun_upd_same)
  with R show ?L unfolding fits_def by (auto split: if_splits)
qed

lemma build_accepted_Cons:
  assumes "map_of R p = Some keys"
  shows "build_accepted ((p, a) # acc) R sp =
    (case sp a of
       Some other \<Rightarrow> if other \<noteq> p then Inl (SignerListedTwice a other p)
         else build_accepted acc (AList.update p
                (keys\<lparr>accepted_signers := insert a (accepted_signers keys)\<rparr>) R) (sp(a \<mapsto> p))
     | None \<Rightarrow> build_accepted acc (AList.update p
                (keys\<lparr>accepted_signers := insert a (accepted_signers keys)\<rparr>) R) (sp(a \<mapsto> p)))"
  using assms by (simp add: Let_def)

lemma build_accepted_total_iff:
  "(\<exists>R'. build_accepted acc R sp = Inr R') \<longleftrightarrow> fits acc sp (fst ` set R)"
proof (induction acc arbitrary: R sp)
  case Nil
  then show ?case by simp
next
  case (Cons pa acc)
  obtain p a where pa: "pa = (p, a)" by (cases pa)
  show ?case
  proof (cases "map_of R p")
    case None
    then have "p \<notin> fst ` set R" by (simp add: map_of_eq_None_iff)
    with None show ?thesis by (simp add: pa fits_Cons)
  next
    case (Some keys)
    then have p: "p \<in> fst ` set R" by (metis map_of_eq_None_iff option.distinct(1))
    let ?R = "AList.update p (keys\<lparr>accepted_signers := insert a (accepted_signers keys)\<rparr>) R"
    have "fst ` set ?R = fst ` set R" using p by (simp add: dom_update insert_absorb)
    with Cons.IH [of ?R "sp(a \<mapsto> p)"]
    have IH: "(\<exists>R'. build_accepted acc ?R (sp(a \<mapsto> p)) = Inr R') \<longleftrightarrow> fits acc (sp(a \<mapsto> p)) (fst ` set R)"
      by (simp only:)
    show ?thesis
      unfolding pa build_accepted_Cons [OF Some] fits_Cons using p
      by (cases "sp a") (simp_all add: IH)
  qed
qed

lemma build_accepted_Inr:
  assumes "build_accepted acc R sp = Inr R'"
  shows "map fst R' = map fst R \<and> (\<forall>p. map_of R' p = map_option
           (\<lambda>keys. keys\<lparr>accepted_signers := accepted_signers keys \<union> {a. (p, a) \<in> set acc}\<rparr>)
           (map_of R p))"
  using assms
proof (induction acc arbitrary: R sp)
  case Nil
  then show ?case by (simp add: option.map_ident)
next
  case (Cons pa acc)
  obtain p a where pa: "pa = (p, a)" by (cases pa)
  from Cons.prems obtain keys where keys: "map_of R p = Some keys"
    by (auto simp: pa split: option.splits)
  let ?R = "AList.update p (keys\<lparr>accepted_signers := insert a (accepted_signers keys)\<rparr>) R"
  from Cons.prems have "build_accepted acc ?R (sp(a \<mapsto> p)) = Inr R'"
    unfolding pa build_accepted_Cons [OF keys] by (simp split: option.splits if_splits)
  note IH = Cons.IH [OF this]
  have "p \<in> set (map fst R)" using keys by (force dest: map_of_SomeD)
  then have keys': "map fst ?R = map fst R" by (simp add: update_keys)
  have "map_of R' q = map_option
      (\<lambda>keys. keys\<lparr>accepted_signers := accepted_signers keys \<union> {b. (q, b) \<in> set (pa # acc)}\<rparr>)
      (map_of R q)" for q
  proof (cases "q = p")
    case True
    have "{b. (p, b) \<in> set (pa # acc)} = insert a {b. (p, b) \<in> set acc}" by (auto simp: pa)
    with True IH keys show ?thesis by (simp add: update_conv')
  next
    case False
    then have "{b. (q, b) \<in> set (pa # acc)} = {b. (q, b) \<in> set acc}" by (auto simp: pa)
    with False IH show ?thesis by (simp add: update_conv')
  qed
  with IH keys' show ?case by simp
qed

section \<open>The registry\<close>

text \<open>Who a configuration says may sign for whom.\<close>

definition owners :: "('sg, 'k) crypto \<Rightarrow> (address \<times> 'k) list \<Rightarrow> (address \<times> address) list
    \<Rightarrow> (address \<times> address) set" where
  "owners C ks acc = key_owner C ` set ks \<union> (\<lambda>(p, a). (a, p)) ` set acc"

definition config_ok :: "('sg, 'k) crypto \<Rightarrow> (address \<times> 'k) list \<Rightarrow> (address \<times> address) list \<Rightarrow> bool" where
  "config_ok C ks acc \<longleftrightarrow>
     ks \<noteq> [] \<and> distinct (map fst ks) \<and> distinct (map (pair_signer C) ks) \<and>
     fst ` set acc \<subseteq> fst ` set ks \<and>
     (\<forall>a p q. (a, p) \<in> owners C ks acc \<longrightarrow> (a, q) \<in> owners C ks acc \<longrightarrow> p = q)"

lemma map_of_key_owner:
  assumes "distinct (map (pair_signer C) ks)"
  shows "map_of (rev (map (key_owner C) ks)) a = Some p \<longleftrightarrow> (a, p) \<in> key_owner C ` set ks"
proof -
  have "distinct (map fst (rev (map (key_owner C) ks)))"
    using assms by (simp add: rev_map [symmetric] comp_def)
  then show ?thesis by (simp add: map_of_eq_Some_iff)
qed

lemma accepted_fits_iff:
  assumes "distinct (map (pair_signer C) ks)"
  shows "fits acc (map_of (rev (map (key_owner C) ks))) (fst ` set ks)
     \<longleftrightarrow> fst ` set acc \<subseteq> fst ` set ks \<and>
         (\<forall>a p q. (a, p) \<in> owners C ks acc \<longrightarrow> (a, q) \<in> owners C ks acc \<longrightarrow> p = q)" (is "?L \<longleftrightarrow> ?R")
proof -
  let ?sp = "map_of (rev (map (key_owner C) ks))"
  have sp: "?sp a = Some p \<longleftrightarrow> (a, p) \<in> key_owner C ` set ks" for a p
    using map_of_key_owner [OF assms] .
  have own: "(a, p) \<in> owners C ks acc \<longleftrightarrow> ?sp a = Some p \<or> (p, a) \<in> set acc" for a p
    unfolding owners_def sp by auto
  show ?thesis
  proof
    assume L: ?L
    have "p = q" if o: "(a, p) \<in> owners C ks acc" "(a, q) \<in> owners C ks acc" for a p q
    proof -
      from L have 1: "p' = q'" if "?sp a = Some p'" "(q', a) \<in> set acc" for p' q'
        using that by (simp add: fits_def)
      from L have 2: "p' = q'" if "(p', a) \<in> set acc" "(q', a) \<in> set acc" for p' q'
        using that unfolding fits_def by blast
      from o show ?thesis unfolding own
        by (elim disjE) (simp_all only: 2 option.inject 1, auto dest: 1)
    qed
    moreover have "fst ` set acc \<subseteq> fst ` set ks" using L by (auto simp: fits_def)
    ultimately show ?R by blast
  next
    assume R: ?R
    then have "p \<in> fst ` set ks" if "(p, a) \<in> set acc" for p a using that by force
    with R show ?L unfolding fits_def own by blast
  qed
qed

lemma registry_build_accepts_iff:
  "(\<exists>R. registry_build C ks acc = Inr R) \<longleftrightarrow> config_ok C ks acc"
proof (cases "ks \<noteq> [] \<and> distinct (map fst ks) \<and> distinct (map (pair_signer C) ks)")
  case False
  then show ?thesis
    by (auto simp: registry_build_def config_ok_def result_simps build_signing_keys_Inr_iff)
next
  case True
  let ?R = "map (key_entry C) ks" and ?sp = "map_of (rev (map (key_owner C) ks))"
  have keys: "build_signing_keys C ks [] Map.empty = Inr (?R, ?sp)"
    using True by (simp add: build_signing_keys_Inr_iff)
  have "(\<exists>R. registry_build C ks acc = Inr R) \<longleftrightarrow> (\<exists>R. build_accepted acc ?R ?sp = Inr R)"
    using True by (simp add: registry_build_def keys)
  also have "\<dots> \<longleftrightarrow> fits acc ?sp (fst ` set ks)"
    unfolding build_accepted_total_iff by (simp add: image_image)
  also have "\<dots> \<longleftrightarrow> config_ok C ks acc"
    using True accepted_fits_iff [of C ks acc] by (simp add: config_ok_def)
  finally show ?thesis .
qed

lemma registry_build_resolve:
  assumes "registry_build C ks acc = Inr R"
  shows "resolve R p = (case map_of ks p of None \<Rightarrow> None
     | Some k \<Rightarrow> Some (k, insert (key_address C k) {a. (p, a) \<in> set acc}))"
    and "map fst R = map fst ks"
proof -
  from assms have "config_ok C ks acc" by (auto simp flip: registry_build_accepts_iff)
  then have ok: "ks \<noteq> []" "distinct (map fst ks)" "distinct (map (pair_signer C) ks)"
    by (simp_all add: config_ok_def)
  let ?R = "map (key_entry C) ks" and ?sp = "map_of (rev (map (key_owner C) ks))"
  have keys: "build_signing_keys C ks [] Map.empty = Inr (?R, ?sp)"
    using ok by (simp add: build_signing_keys_Inr_iff)
  with assms ok(1) have acc: "build_accepted acc ?R ?sp = Inr R"
    by (simp add: registry_build_def)
  have "map_of ?R p = map_option (\<lambda>k. payer_keys_new C k []) (map_of ks p)" for p
    by (induction ks) auto
  with build_accepted_Inr [OF acc] show "resolve R p = (case map_of ks p of None \<Rightarrow> None
     | Some k \<Rightarrow> Some (k, insert (key_address C k) {a. (p, a) \<in> set acc}))"
    by (simp add: resolve_def payer_keys_new_def split: option.split)
  show "map fst R = map fst ks" using build_accepted_Inr [OF acc] by (simp add: comp_def)
qed

text \<open>No signer is accepted for two payers, and a payer's own key is accepted for it.\<close>

lemma registry_build_exclusive:
  assumes R: "registry_build C ks acc = Inr R"
    and p: "resolve R p = Some (k, A)" and q: "resolve R q = Some (k', B)"
    and a: "a \<in> A" "a \<in> B"
  shows "p = q"
proof -
  from R have ok: "config_ok C ks acc" by (auto simp flip: registry_build_accepts_iff)
  have own: "(a, p) \<in> owners C ks acc" if "resolve R p = Some (k, A)" "a \<in> A" for p k A
    using that unfolding registry_build_resolve(1) [OF R] owners_def
    by (force split: option.splits dest: map_of_SomeD)
  show ?thesis using ok own [OF p a(1)] own [OF q a(2)] unfolding config_ok_def by blast
qed

lemma registry_build_own_key:
  "registry_build C ks acc = Inr R \<Longrightarrow> resolve R p = Some (k, A) \<Longrightarrow> key_address C k \<in> A"
  by (auto simp: registry_build_resolve(1) split: option.splits)

end
