(* ===== verification/Aggregator.thy ===== *)
theory Aggregator
  imports Memory Signers
begin

text \<open>
  The aggregation service's core (\<open>crates/bin/aggregator/src/aggregator.rs\<close>): the checks on a
  batch of signed receipts and an optional previous RAV, and the signing of the aggregate with the
  key of the payer that the receipts name. \<open>check_and_aggregate_Inr_iff\<close> is its exact
  contract, proved from one lemma per check.

  The receipts' signatures are verified on a thread pool: which of several errors is reported
  depends on the schedule, so the choice is the field \<open>lib_pick_error\<close> of the library record.
\<close>

section \<open>Errors and libraries\<close>

text \<open>The \<open>anyhow::Error\<close> of this module, before it is rendered.\<close>

datatype aggregator_error =
    CoreFailed "rav core_error"
  | NoSigningKeyForPayer address
  | MessageFailed eip712_error
  | AggregationFailed aggregation_error

fun aggregator_error_to_string :: "alloy_fmt \<Rightarrow> aggregator_error \<Rightarrow> string" where
  "aggregator_error_to_string F (CoreFailed e) = core_error_to_string F e"
| "aggregator_error_to_string F (NoSigningKeyForPayer p) =
     ''no signing key configured for payer '' @ fmt_address F p
       @ ''; signing with another payer's key would produce an uncollectable RAV''"
| "aggregator_error_to_string F (MessageFailed e) = eip712_error_to_string e"
| "aggregator_error_to_string F (AggregationFailed e) = aggregation_error_to_string e"

record ('sg, 'k) graph_lib =
  lib_crypto :: "('sg, 'k) crypto"
  lib_receipt_hash :: "eip712_domain \<Rightarrow> receipt \<Rightarrow> b256"
  lib_rav_hash :: "eip712_domain \<Rightarrow> rav \<Rightarrow> b256"
  lib_pick_error :: "aggregator_error list \<Rightarrow> aggregator_error"

text \<open>\<open>par_iter().try_for_each(f)\<close>: one of the errors, if there is any.\<close>

definition par_try_for_each :: "('e list \<Rightarrow> 'e) \<Rightarrow> ('a \<Rightarrow> 'e + unit) \<Rightarrow> 'a list \<Rightarrow> 'e + unit" where
  "par_try_for_each pick f xs =
     (case concat (map (\<lambda>x. case f x of Inl e \<Rightarrow> [e] | Inr _ \<Rightarrow> []) xs) of
        [] \<Rightarrow> Inr ()
      | e # es \<Rightarrow> Inl (pick (e # es)))"

section \<open>Checks\<close>

definition check_signature_is_from_one_of_addresses ::
    "('sg, 'k) crypto \<Rightarrow> (eip712_domain \<Rightarrow> 'm \<Rightarrow> b256) \<Rightarrow> ('m, 'sg) signed_message
       \<Rightarrow> eip712_domain \<Rightarrow> address set \<Rightarrow> aggregator_error + unit" where
  "check_signature_is_from_one_of_addresses C hash msg domain_separator accepted_addresses =
     rbind (map_err MessageFailed (recover_signer C hash domain_separator msg))
       (\<lambda>recovered_address.
          if recovered_address \<notin> accepted_addresses
          then Inl (CoreFailed (InvalidRecoveredSigner recovered_address))
          else Inr ())"

fun check_collection_id ::
    "'sg signed_receipt list \<Rightarrow> b256 \<Rightarrow> address \<Rightarrow> address \<Rightarrow> address \<Rightarrow> aggregator_error + unit" where
  "check_collection_id [] collection_id payer data_service service_provider = Inr ()"
| "check_collection_id (receipt # receipts) collection_id payer data_service service_provider =
     (let r = message receipt in
      if rcpt_collection_id r \<noteq> collection_id then Inl (CoreFailed RavCollectionIdNotUniform)
      else if rcpt_payer r \<noteq> payer then Inl (CoreFailed RavCollectionIdNotUniform)
      else if rcpt_data_service r \<noteq> data_service then Inl (CoreFailed RavCollectionIdNotUniform)
      else if rcpt_service_provider r \<noteq> service_provider then Inl (CoreFailed RavCollectionIdNotUniform)
      else check_collection_id receipts collection_id payer data_service service_provider)"

fun check_signatures_unique_loop ::
    "('sg, 'k) crypto \<Rightarrow> signature_bytes set \<Rightarrow> 'sg signed_receipt list \<Rightarrow> aggregator_error + unit" where
  "check_signatures_unique_loop C receipt_signatures [] = Inr ()"
| "check_signatures_unique_loop C receipt_signatures (receipt # receipts) =
     (let sg = op_unique_id (signed_receipt_ops C) receipt in
      if sg \<in> receipt_signatures
      then Inl (CoreFailed (DuplicateReceiptSignature (op_unique_id (signed_receipt_ops C) receipt)))
      else check_signatures_unique_loop C (insert sg receipt_signatures) receipts)"

definition check_signatures_unique ::
    "('sg, 'k) crypto \<Rightarrow> 'sg signed_receipt list \<Rightarrow> aggregator_error + unit" where
  "check_signatures_unique C receipts = check_signatures_unique_loop C {} receipts"

definition check_receipt_timestamps ::
    "'sg signed_receipt list \<Rightarrow> 'sg signed_rav option \<Rightarrow> aggregator_error + unit" where
  "check_receipt_timestamps receipts previous_rav =
     (case previous_rav of
        Some prev \<Rightarrow>
          try_for_each (\<lambda>receipt.
              if rcpt_timestamp_ns (message receipt) \<le> rav_timestampNs (message prev)
              then Inl (CoreFailed (ReceiptTimestampLowerThanRav
                          (rav_timestampNs (message prev)) (rcpt_timestamp_ns (message receipt))))
              else Inr ()) receipts
      | None \<Rightarrow> Inr ())"

text \<open>The identity of the previous RAV; every mismatch reports the two collection ids.\<close>

definition check_previous_rav ::
    "'sg signed_rav option \<Rightarrow> b256 \<Rightarrow> address \<Rightarrow> address \<Rightarrow> address \<Rightarrow> aggregator_error + unit" where
  "check_previous_rav previous_rav collection_id payer data_service service_provider =
     (case previous_rav of
        Some prev \<Rightarrow>
          (let prev_id = rav_collectionId (message prev);
               prev_payer = rav_payer (message prev);
               prev_data_service = rav_dataService (message prev);
               prev_service_provider = rav_serviceProvider (message prev) in
           if prev_id \<noteq> collection_id
           then Inl (CoreFailed (RavCollectionIdMismatch prev_id collection_id))
           else if prev_payer \<noteq> payer
           then Inl (CoreFailed (RavCollectionIdMismatch prev_id collection_id))
           else if prev_data_service \<noteq> data_service
           then Inl (CoreFailed (RavCollectionIdMismatch prev_id collection_id))
           else if prev_service_provider \<noteq> service_provider
           then Inl (CoreFailed (RavCollectionIdMismatch prev_id collection_id))
           else Inr ())
      | None \<Rightarrow> Inr ())"

section \<open>Check and aggregate\<close>

definition check_and_aggregate_receipts ::
    "('sg, 'k) graph_lib \<Rightarrow> eip712_domain \<Rightarrow> 'sg signed_receipt list \<Rightarrow> 'sg signed_rav option
       \<Rightarrow> 'k signer_registry \<Rightarrow> aggregator_error + 'sg signed_rav" where
  "check_and_aggregate_receipts L domain_separator receipts previous_rav signers =
     rbind (check_signatures_unique (lib_crypto L) receipts) (\<lambda>_.
     case receipts of
       [] \<Rightarrow> Inl (CoreFailed CoreNoValidReceiptsForRavRequest)
     | receipt # _ \<Rightarrow>
       (let collection_id = rcpt_collection_id (message receipt);
            payer = rcpt_payer (message receipt);
            data_service = rcpt_data_service (message receipt);
            service_provider = rcpt_service_provider (message receipt) in
        rbind (ok_or (resolve signers payer) (NoSigningKeyForPayer payer)) (\<lambda>(wallet, accepted_addresses).
        rbind (par_try_for_each (lib_pick_error L) (\<lambda>receipt.
                 check_signature_is_from_one_of_addresses (lib_crypto L) (lib_receipt_hash L)
                   receipt domain_separator accepted_addresses) receipts) (\<lambda>_.
        rbind (case previous_rav of
                 Some prev \<Rightarrow> check_signature_is_from_one_of_addresses (lib_crypto L)
                   (lib_rav_hash L) prev domain_separator accepted_addresses
               | None \<Rightarrow> Inr ()) (\<lambda>_.
        rbind (check_receipt_timestamps receipts previous_rav) (\<lambda>_.
        rbind (check_collection_id receipts collection_id payer data_service service_provider) (\<lambda>_.
        rbind (check_previous_rav previous_rav collection_id payer data_service service_provider) (\<lambda>_.
        rbind (map_err AggregationFailed
                 (aggregate_receipts collection_id payer data_service service_provider receipts
                    previous_rav)) (\<lambda>rav.
        map_err MessageFailed
          (signed_message_new (lib_crypto L) (lib_rav_hash L) domain_separator rav wallet))))))))))"

section \<open>Each check\<close>

lemma errors_of_Nil_iff: "(case r of Inl e \<Rightarrow> [e] | Inr _ \<Rightarrow> []) = [] \<longleftrightarrow> r = Inr ()"
  by (cases r) auto

lemma par_try_for_each_Inr_iff [result_simps]:
  "par_try_for_each pick f xs = Inr u \<longleftrightarrow> (\<forall>x\<in>set xs. f x = Inr ())"
proof -
  have "concat (map (\<lambda>x. case f x of Inl e \<Rightarrow> [e] | Inr _ \<Rightarrow> []) xs) = [] \<longleftrightarrow> (\<forall>x\<in>set xs. f x = Inr ())"
    by (simp add: errors_of_Nil_iff)
  then show ?thesis
    by (cases "concat (map (\<lambda>x. case f x of Inl e \<Rightarrow> [e] | Inr _ \<Rightarrow> []) xs)")
       (simp_all only: par_try_for_each_def list.case, simp_all)
qed

lemma par_try_for_each_InlD:
  assumes "par_try_for_each pick f xs = Inl e" and "\<And>es. es \<noteq> [] \<Longrightarrow> pick es \<in> set es"
  shows "\<exists>x\<in>set xs. f x = Inl e"
proof -
  let ?es = "concat (map (\<lambda>x. case f x of Inl e \<Rightarrow> [e] | Inr _ \<Rightarrow> []) xs)"
  from assms(1) have "?es \<noteq> [] \<and> e = pick ?es"
    by (simp only: par_try_for_each_def split: list.splits) simp_all
  with assms(2) [of ?es] have "e \<in> set ?es" by simp
  then obtain x where "x \<in> set xs" "e \<in> set (case f x of Inl e \<Rightarrow> [e] | Inr _ \<Rightarrow> [])" by auto
  then show ?thesis by (cases "f x") auto
qed

lemma check_address_Inr_iff [result_simps]:
  "check_signature_is_from_one_of_addresses C hash m d accepted = Inr u \<longleftrightarrow>
     (\<exists>a\<in>accepted. recover_signer C hash d m = Inr a)"
  by (auto simp: check_signature_is_from_one_of_addresses_def rbind_Inr_iff map_err_Inr_iff)

lemma check_collection_id_Inr_iff:
  "check_collection_id rs c p d s = Inr u \<longleftrightarrow>
     (\<forall>r\<in>set rs. rcpt_collection_id (message r) = c \<and> rcpt_payer (message r) = p \<and>
        rcpt_data_service (message r) = d \<and> rcpt_service_provider (message r) = s)"
  by (induction rs) (auto simp: Let_def)

lemma check_signatures_unique_loop_Inr_iff:
  "check_signatures_unique_loop C seen rs = Inr u \<longleftrightarrow>
     distinct (map (op_unique_id (signed_receipt_ops C)) rs) \<and>
     seen \<inter> op_unique_id (signed_receipt_ops C) ` set rs = {}"
  by (induction rs arbitrary: seen) (auto simp: Let_def)

lemma check_signatures_unique_Inr_iff:
  "check_signatures_unique C rs = Inr u \<longleftrightarrow>
     distinct (map (\<lambda>r. get_signature_bytes C (signature r)) rs)"
  by (simp add: check_signatures_unique_def check_signatures_unique_loop_Inr_iff
      signed_receipt_ops_def signed_message_ops_def)

lemma check_signatures_unique_InlD:
  assumes "check_signatures_unique C rs = Inl e"
  shows "\<exists>r\<in>set rs. e = CoreFailed (DuplicateReceiptSignature (get_signature_bytes C (signature r)))"
proof -
  have "check_signatures_unique_loop C seen rs = Inl e \<Longrightarrow>
      \<exists>r\<in>set rs. e = CoreFailed (DuplicateReceiptSignature (get_signature_bytes C (signature r)))" for seen
    by (induction rs arbitrary: seen)
       (auto simp: Let_def signed_receipt_ops_def signed_message_ops_def split: if_splits)
  with assms show ?thesis by (simp add: check_signatures_unique_def)
qed

text \<open>The signature that is reported is the first one that repeats an earlier one.\<close>

lemma check_signatures_unique_loop_first:
  "check_signatures_unique_loop C seen rs = Inl e \<Longrightarrow>
     \<exists>j<length rs. e = CoreFailed (DuplicateReceiptSignature (op_unique_id (signed_receipt_ops C) (rs ! j))) \<and>
       op_unique_id (signed_receipt_ops C) (rs ! j) \<in> seen \<union> op_unique_id (signed_receipt_ops C) ` set (take j rs) \<and>
       distinct (map (op_unique_id (signed_receipt_ops C)) (take j rs)) \<and>
       seen \<inter> op_unique_id (signed_receipt_ops C) ` set (take j rs) = {}"
proof (induction rs arbitrary: seen)
  case (Cons r rs)
  let ?id = "op_unique_id (signed_receipt_ops C)"
  show ?case
  proof (cases "?id r \<in> seen")
    case True
    with Cons.prems show ?thesis by (intro exI [of _ 0]) (simp add: Let_def)
  next
    case False
    with Cons.prems have "check_signatures_unique_loop C (insert (?id r) seen) rs = Inl e" by (simp add: Let_def)
    from Cons.IH [OF this] obtain j where "j < length rs"
      "e = CoreFailed (DuplicateReceiptSignature (?id (rs ! j)))"
      "?id (rs ! j) \<in> insert (?id r) seen \<union> ?id ` set (take j rs)"
      "distinct (map ?id (take j rs))" "insert (?id r) seen \<inter> ?id ` set (take j rs) = {}" by blast
    with False show ?thesis by (intro exI [of _ "Suc j"]) auto
  qed
qed simp

lemma check_signatures_unique_first:
  assumes "check_signatures_unique C rs = Inl e"
  shows "\<exists>j<length rs. e = CoreFailed (DuplicateReceiptSignature (get_signature_bytes C (signature (rs ! j)))) \<and>
    get_signature_bytes C (signature (rs ! j)) \<in> (\<lambda>r. get_signature_bytes C (signature r)) ` set (take j rs) \<and>
    distinct (map (\<lambda>r. get_signature_bytes C (signature r)) (take j rs))"
  using check_signatures_unique_loop_first [OF assms [unfolded check_signatures_unique_def]]
  by (simp add: signed_receipt_ops_def signed_message_ops_def)

lemma check_receipt_timestamps_Inr_iff:
  "check_receipt_timestamps rs prev = Inr u \<longleftrightarrow>
     (\<forall>p. prev = Some p \<longrightarrow> (\<forall>r\<in>set rs. rav_timestampNs (message p) < rcpt_timestamp_ns (message r)))"
  by (auto simp: check_receipt_timestamps_def try_for_each_Inr_iff not_le split: option.split)

lemma check_previous_rav_Inr_iff:
  "check_previous_rav prev c p d s = Inr u \<longleftrightarrow>
     (\<forall>v. prev = Some v \<longrightarrow> rav_collectionId (message v) = c \<and> rav_payer (message v) = p \<and>
        rav_dataService (message v) = d \<and> rav_serviceProvider (message v) = s)"
  by (auto simp: check_previous_rav_def Let_def split: option.split)

lemmas aggregator_check_iffs =
  rbind_Inr_iff map_err_Inr_iff ok_or_Inr_iff par_try_for_each_Inr_iff check_address_Inr_iff
  check_collection_id_Inr_iff check_signatures_unique_Inr_iff check_receipt_timestamps_Inr_iff
  check_previous_rav_Inr_iff aggregate_receipts_Inr_iff signed_message_new_Inr_iff

section \<open>The contract\<close>

text \<open>The message that the service signs for a batch.\<close>

definition batch_rav :: "'sg signed_receipt list \<Rightarrow> 'sg signed_rav option \<Rightarrow> rav" where
  "batch_rav rs prev =
     \<lparr>rav_collectionId = rcpt_collection_id (message (hd rs)),
      rav_payer = rcpt_payer (message (hd rs)),
      rav_serviceProvider = rcpt_service_provider (message (hd rs)),
      rav_dataService = rcpt_data_service (message (hd rs)),
      rav_timestampNs = latest_timestamp rs (prev_timestamp prev),
      rav_valueAggregate = of_nat (prev_value prev + total_value rs),
      rav_metadata = []\<rparr>"

definition same_channel :: "receipt \<Rightarrow> receipt \<Rightarrow> bool" where
  "same_channel r q \<longleftrightarrow> rcpt_collection_id r = rcpt_collection_id q \<and> rcpt_payer r = rcpt_payer q \<and>
     rcpt_data_service r = rcpt_data_service q \<and> rcpt_service_provider r = rcpt_service_provider q"

definition continues_channel :: "rav \<Rightarrow> receipt \<Rightarrow> bool" where
  "continues_channel v q \<longleftrightarrow> rav_collectionId v = rcpt_collection_id q \<and> rav_payer v = rcpt_payer q \<and>
     rav_dataService v = rcpt_data_service q \<and> rav_serviceProvider v = rcpt_service_provider q"

text \<open>A batch that the service aggregates with the key \<open>k\<close>, accepting the signers \<open>acc\<close>.\<close>

definition valid_batch ::
    "('sg, 'k) graph_lib \<Rightarrow> eip712_domain \<Rightarrow> 'sg signed_receipt list \<Rightarrow> 'sg signed_rav option
       \<Rightarrow> address set \<Rightarrow> bool" where
  "valid_batch L d rs prev acc \<longleftrightarrow>
     distinct (map (\<lambda>r. get_signature_bytes (lib_crypto L) (signature r)) rs) \<and>
     (\<forall>r\<in>set rs. (\<exists>a\<in>acc. recover_signer (lib_crypto L) (lib_receipt_hash L) d r = Inr a) \<and>
        same_channel (message r) (message (hd rs))) \<and>
     (\<forall>p. prev = Some p \<longrightarrow>
        (\<exists>a\<in>acc. recover_signer (lib_crypto L) (lib_rav_hash L) d p = Inr a) \<and>
        continues_channel (message p) (message (hd rs)) \<and>
        (\<forall>r\<in>set rs. rav_timestampNs (message p) < rcpt_timestamp_ns (message r))) \<and>
     prev_value prev + total_value rs < 2 ^ 128"

lemma check_and_aggregate_Cons_Inr_iff:
  "check_and_aggregate_receipts L d (r # rs) prev signers = Inr sm \<longleftrightarrow>
     (\<exists>k acc. resolve signers (rcpt_payer (message r)) = Some (k, acc) \<and>
        valid_batch L d (r # rs) prev acc \<and> message sm = batch_rav (r # rs) prev \<and>
        sign_hash_sync (lib_crypto L) k (lib_rav_hash L d (batch_rav (r # rs) prev))
          = Inr (signature sm))"
proof (cases "resolve signers (rcpt_payer (message r))")
  case None
  then show ?thesis
    by (simp add: check_and_aggregate_receipts_def Let_def rbind_Inr_iff)
next
  case (Some ka)
  obtain k acc where ka: "ka = (k, acc)" by (cases ka)
  let ?acc = "\<lambda>hash m. \<exists>a\<in>acc. recover_signer (lib_crypto L) hash d m = Inr a"
  have prev: "(case prev of None \<Rightarrow> Inr () | Some p \<Rightarrow>
        check_signature_is_from_one_of_addresses (lib_crypto L) (lib_rav_hash L) p d acc) = Inr u \<longleftrightarrow>
      (\<forall>p. prev = Some p \<longrightarrow> ?acc (lib_rav_hash L) p)" for u
    by (cases prev) (simp_all add: check_address_Inr_iff)
  have run: "check_and_aggregate_receipts L d (r # rs) prev signers = Inr sm \<longleftrightarrow>
     distinct (map (\<lambda>r. get_signature_bytes (lib_crypto L) (signature r)) (r # rs)) \<and>
     (\<forall>x\<in>set (r # rs). ?acc (lib_receipt_hash L) x) \<and>
     (\<forall>p. prev = Some p \<longrightarrow> ?acc (lib_rav_hash L) p) \<and>
     (\<forall>p. prev = Some p \<longrightarrow> (\<forall>x\<in>set (r # rs). rav_timestampNs (message p) < rcpt_timestamp_ns (message x))) \<and>
     (\<forall>x\<in>set (r # rs). same_channel (message x) (message r)) \<and>
     (\<forall>p. prev = Some p \<longrightarrow> continues_channel (message p) (message r)) \<and>
     prev_value prev + total_value (r # rs) < 2 ^ 128 \<and>
     message sm = batch_rav (r # rs) prev \<and>
     sign_hash_sync (lib_crypto L) k (lib_rav_hash L d (batch_rav (r # rs) prev)) = Inr (signature sm)"
    unfolding check_and_aggregate_receipts_def Let_def list.case Some ka ok_or_simps rbind_simps
      prod.case aggregator_check_iffs prev same_channel_def continues_channel_def
      batch_rav_def list.sel
    by (simp only: ex_simps simp_thms conj_assoc)
  show ?thesis
    unfolding run Some ka valid_batch_def list.sel
    by (cases prev) (simp_all only: option.inject option.distinct prod.inject simp_thms
        ball_conj_distrib ex_simps conj_assoc, simp_all only: conj_ac)
qed

lemma check_and_aggregate_Nil:
  "check_and_aggregate_receipts L d [] prev signers = Inl (CoreFailed CoreNoValidReceiptsForRavRequest)"
  by (simp add: check_and_aggregate_receipts_def check_signatures_unique_def)

lemma check_and_aggregate_Inr_iff:
  "check_and_aggregate_receipts L d rs prev signers = Inr sm \<longleftrightarrow>
     rs \<noteq> [] \<and>
     (\<exists>k acc. resolve signers (rcpt_payer (message (hd rs))) = Some (k, acc) \<and>
        valid_batch L d rs prev acc \<and> message sm = batch_rav rs prev \<and>
        sign_hash_sync (lib_crypto L) k (lib_rav_hash L d (batch_rav rs prev)) = Inr (signature sm))"
  by (cases rs) (simp_all only: check_and_aggregate_Nil check_and_aggregate_Cons_Inr_iff, simp_all)

end
