(* ===== verification/Bytes.thy ===== *)
theory Bytes
  imports Prelude
begin

text \<open>
  The byte form of fixed-size values: \<open>FixedBytes<N>\<close> and \<open>Address\<close> are words, \<open>as_slice\<close>
  and \<open>to_vec\<close> write them big-endian, and \<open>try_from\<close> a slice fails unless the length is
  \<open>N\<close>.
\<close>

primrec be_bytes :: "nat \<Rightarrow> 'a::len word \<Rightarrow> byte list" where
  "be_bytes 0 w = []"
| "be_bytes (Suc n) w = ucast (drop_bit (8 * n) w) # be_bytes n w"

definition push_byte :: "nat \<Rightarrow> byte \<Rightarrow> nat" where
  "push_byte acc b = 256 * acc + unat b"

definition word_of_bytes :: "byte list \<Rightarrow> 'a::len word" where
  "word_of_bytes bs = of_nat (foldl push_byte 0 bs)"

definition fixed_bytes_try_from :: "nat \<Rightarrow> byte list \<Rightarrow> string + 'a::len word" where
  "fixed_bytes_try_from n bs =
     (if length bs = n then Inr (word_of_bytes bs) else Inl ''could not convert slice to array'')"

definition address_to_vec :: "address \<Rightarrow> byte list" where
  "address_to_vec a = be_bytes 20 a"

definition b256_to_vec :: "b256 \<Rightarrow> byte list" where
  "b256_to_vec c = be_bytes 32 c"

definition address_try_from :: "byte list \<Rightarrow> string + address" where
  "address_try_from bs = fixed_bytes_try_from 20 bs"

definition b256_try_from :: "byte list \<Rightarrow> string + b256" where
  "b256_try_from bs = fixed_bytes_try_from 32 bs"

section \<open>Round trips\<close>

lemma length_be_bytes [simp]: "length (be_bytes n w) = n"
  by (induction n) simp_all

lemma unat_byte_at:
  "unat (ucast (drop_bit k w) :: byte) = unat (w :: 'a::len word) div 2 ^ k mod 256"
  by (simp add: unsigned_ucast_eq unsigned_drop_bit_eq flip: drop_bit_eq_div)
     (simp add: drop_bit_eq_div take_bit_eq_mod unsigned_drop_bit_eq)

lemma foldl_be_bytes:
  "foldl push_byte acc (be_bytes n w) = acc * 256 ^ n + unat (w :: 'a::len word) mod 256 ^ n"
proof (induction n arbitrary: acc)
  case 0
  then show ?case by simp
next
  case (Suc n)
  have p: "(2::nat) ^ (8 * n) = 256 ^ n" by (simp add: power_mult)
  have "unat w mod 256 ^ Suc n = 256 ^ n * (unat w div 256 ^ n mod 256) + unat w mod 256 ^ n"
    using mod_mult2_eq [of "unat w" "256 ^ n" 256] by (simp add: mult.commute)
  then show ?case
    by (simp only: be_bytes.simps foldl.simps Suc push_byte_def [of acc] unat_byte_at p)
       (simp add: algebra_simps)
qed

lemma word_of_be_bytes:
  assumes "LENGTH('a) = 8 * n"
  shows "word_of_bytes (be_bytes n w) = (w :: 'a::len word)"
proof -
  have "unat w < 256 ^ n" using unat_less_power [of w] assms by (simp add: power_mult)
  then show ?thesis by (simp add: word_of_bytes_def foldl_be_bytes)
qed

lemma foldl_bytes_acc:
  "foldl push_byte a bs =
     a * 256 ^ length bs + foldl push_byte 0 bs"
proof (induction bs arbitrary: a)
  case Nil
  then show ?case by simp
next
  case (Cons b bs)
  show ?case
    using Cons [of "push_byte a b"] Cons [of "push_byte 0 b"] by (simp add: push_byte_def [of 0] push_byte_def [of a] algebra_simps)
qed

lemma foldl_bytes_less:
  "foldl push_byte 0 bs < 256 ^ length bs"
proof (induction bs)
  case Nil
  then show ?case by simp
next
  case (Cons b bs)
  have "unat b \<le> 255" using unat_less_power [of b] by simp
  then have "unat b * 256 ^ length bs \<le> 255 * 256 ^ length bs" by (rule mult_le_mono1)
  with Cons have "unat b * 256 ^ length bs + foldl push_byte 0 bs < 256 * 256 ^ length bs" by linarith
  then show ?case using foldl_bytes_acc [of "push_byte 0 b" bs] by (simp add: push_byte_def [of 0])
qed

lemma be_bytes_of_nat:
  "be_bytes (length bs) (w :: 'a::len word) = bs \<longleftrightarrow>
     unat w mod 256 ^ length bs = foldl push_byte 0 bs"
proof (induction bs)
  case Nil
  then show ?case by simp
next
  case (Cons b bs)
  let ?n = "length bs" and ?v = "foldl push_byte 0 bs"
  have p: "(2::nat) ^ (8 * ?n) = 256 ^ ?n" by (simp add: power_mult)
  have b: "unat b < 256" using unat_less_power [of b] by simp
  have v: "?v < 256 ^ ?n" by (rule foldl_bytes_less)
  have m: "unat w mod 256 ^ length (b # bs) = 256 ^ ?n * (unat w div 256 ^ ?n mod 256) + unat w mod 256 ^ ?n"
    using mod_mult2_eq [of "unat w" "256 ^ ?n" 256] by (simp add: mult.commute)
  have "be_bytes (length (b # bs)) w = b # bs \<longleftrightarrow>
      unat w div 256 ^ ?n mod 256 = unat b \<and> unat w mod 256 ^ ?n = ?v"
    by (simp add: Cons word_unat_eq_iff unat_byte_at p)
  also have "\<dots> \<longleftrightarrow> 256 ^ ?n * (unat w div 256 ^ ?n mod 256) + unat w mod 256 ^ ?n
      = 256 ^ ?n * unat b + ?v" (is "?L \<longleftrightarrow> ?l = ?r")
  proof
    assume "?L" then show "?l = ?r" by simp
  next
    assume e: "?l = ?r"
    have "?l div 256 ^ ?n = ?r div 256 ^ ?n" and "?l mod 256 ^ ?n = ?r mod 256 ^ ?n"
      by (simp_all only: e)
    with v show ?L by (simp add: div_mult_self3)
  qed
  also have "\<dots> \<longleftrightarrow> unat w mod 256 ^ length (b # bs) = foldl push_byte 0 (b # bs)"
    unfolding m using foldl_bytes_acc [of "push_byte 0 b" bs] by (simp add: push_byte_def [of 0] mult.commute)
  finally show ?case .
qed

lemma be_bytes_word_of_bytes:
  assumes "LENGTH('a) = 8 * length bs"
  shows "be_bytes (length bs) (word_of_bytes bs :: 'a::len word) = bs"
proof -
  let ?v = "foldl push_byte 0 bs"
  have "(2::nat) ^ LENGTH('a) = 256 ^ length bs" using assms by (simp add: power_mult)
  then have "unat (word_of_bytes bs :: 'a word) = ?v"
    using foldl_bytes_less [of bs] by (simp add: word_of_bytes_def unat_of_nat_small)
  then show ?thesis using foldl_bytes_less [of bs] by (simp add: be_bytes_of_nat)
qed

lemma try_from_to_vec [simp]:
  "address_try_from (address_to_vec a) = Inr a"
  "b256_try_from (b256_to_vec c) = Inr c"
  by (simp_all add: address_try_from_def address_to_vec_def b256_try_from_def b256_to_vec_def
      fixed_bytes_try_from_def word_of_be_bytes)

lemma try_from_InrD:
  "address_try_from bs = Inr a \<Longrightarrow> address_to_vec a = bs"
  "b256_try_from bs = Inr c \<Longrightarrow> b256_to_vec c = bs"
  using be_bytes_word_of_bytes [of bs, where ?'a = 160] be_bytes_word_of_bytes [of bs, where ?'a = 256]
  by (auto simp: address_try_from_def address_to_vec_def b256_try_from_def b256_to_vec_def
      fixed_bytes_try_from_def split: if_splits)

lemma try_from_total:
  "(\<exists>a. address_try_from bs = Inr a) \<longleftrightarrow> length bs = 20"
  "(\<exists>c. b256_try_from bs = Inr c) \<longleftrightarrow> length bs = 32"
  by (simp_all add: address_try_from_def b256_try_from_def fixed_bytes_try_from_def)

section \<open>Codecs\<close>

text \<open>What the conversions between a type and its message promise to the code that converts lists and
  options of them: a value is read back from its message, and for a canonical codec nothing else is.\<close>

locale codec =
  fixes enc :: "'a \<Rightarrow> 'm"
    and dec :: "'m \<Rightarrow> 'e + 'a"
  assumes dec_enc: "dec (enc a) = Inr a"
begin

lemma enc_inj: "enc a = enc b \<longleftrightarrow> a = b"
  by (metis dec_enc sum.inject(2))

lemma decode_list: "collect_results dec (map enc xs) = Inr xs"
  by (rule collect_results_map) (rule dec_enc)

lemma decode_option: "transpose_map dec (map_option enc x) = Inr x"
  by (cases x) (simp_all add: dec_enc)

end

locale canonical_codec = codec +
  assumes dec_canonical: "dec m = Inr a \<Longrightarrow> enc a = m"
begin

lemma dec_Inr_iff: "dec m = Inr a \<longleftrightarrow> m = enc a"
  using dec_canonical dec_enc by auto

lemma decode_list_iff: "collect_results dec ms = Inr xs \<longleftrightarrow> ms = map enc xs"
  by (simp add: collect_results_Inr_iff dec_Inr_iff list_eq_iff_nth_eq list_all2_conv_all_nth) auto

lemma decode_option_iff: "transpose_map dec m = Inr x \<longleftrightarrow> m = map_option enc x"
  by (cases m; cases x) (auto simp: result_simps dec_Inr_iff)

end

interpretation address_codec: canonical_codec address_to_vec address_try_from
  by unfold_locales (simp_all add: try_from_InrD)

interpretation b256_codec: canonical_codec b256_to_vec b256_try_from
  by unfold_locales (simp_all add: try_from_InrD)

end
