(* ===== verification/Grpc.thy ===== *)
theory Grpc
  imports Graph Bytes
begin

text \<open>
  The gRPC messages of the aggregator and their conversions
  (\<open>crates/bin/aggregator/src/grpc.rs\<close>, module \<open>graph_tally\<close>, over
  \<open>proto/graph_tally.proto\<close>). A message field of proto3 is optional, a \<open>bytes\<close> field is a
  list of bytes, and the fields of a struct expression are converted in the order written. The byte
  form of a signature is the library's. The lemmas show that each conversion from a message undoes
  the one to it, and that a message decodes in one way only.
\<close>

section \<open>Messages\<close>

record uint128 =
  uint_high :: u64
  uint_low :: u64

record pb_receipt =
  pbr_collection_id :: "byte list"
  pbr_payer :: "byte list"
  pbr_data_service :: "byte list"
  pbr_service_provider :: "byte list"
  pbr_timestamp_ns :: u64
  pbr_nonce :: u64
  pbr_value :: "uint128 option"

record pb_signed_receipt =
  pbsr_message :: "pb_receipt option"
  pbsr_signature :: "byte list"

record pb_rav =
  pbv_collection_id :: "byte list"
  pbv_payer :: "byte list"
  pbv_data_service :: "byte list"
  pbv_service_provider :: "byte list"
  pbv_timestamp_ns :: u64
  pbv_value_aggregate :: "uint128 option"
  pbv_metadata :: "byte list"

record pb_signed_rav =
  pbsv_message :: "pb_rav option"
  pbsv_signature :: "byte list"

record pb_rav_request =
  pbq_receipts :: "pb_signed_receipt list"
  pbq_previous_rav :: "pb_signed_rav option"

record pb_rav_response =
  pbp_rav :: "pb_signed_rav option"

section \<open>128-bit numbers\<close>

unbundle bit_operations_syntax

definition u128_from_uint128 :: "uint128 \<Rightarrow> u128" where
  "u128_from_uint128 u = push_bit 64 (ucast (uint_high u)) OR ucast (uint_low u)"

definition uint128_from_u128 :: "u128 \<Rightarrow> uint128" where
  "uint128_from_u128 value = \<lparr>uint_high = ucast (drop_bit 64 value), uint_low = ucast value\<rparr>"

lemma u128_from_uint128_from_u128 [simp]: "u128_from_uint128 (uint128_from_u128 v) = v"
  unfolding u128_from_uint128_def uint128_from_u128_def uint128.simps
  by (rule bit_eqI) (auto simp: bit_simps dest: bit_imp_le_length)

lemma uint128_from_u128_from_uint128 [simp]: "uint128_from_u128 (u128_from_uint128 u) = u"
proof -
  have high: "ucast (drop_bit 64 (push_bit 64 (ucast h :: u128) OR ucast (l :: u64))) = (h :: u64)" for h l
    by (rule bit_eqI) (auto simp: bit_simps dest: bit_imp_le_length)
  have low: "ucast (push_bit 64 (ucast (h :: u64) :: u128) OR ucast l) = (l :: u64)" for h l
    by (rule bit_eqI) (auto simp: bit_simps dest: bit_imp_le_length)
  show ?thesis
    by (cases u) (simp only: u128_from_uint128_def uint128_from_u128_def uint128.simps high low)
qed

section \<open>Receipts\<close>

text \<open>\<open>Missing value\<close> and the like, as \<open>anyhow\<close> texts.\<close>

definition receipt_try_from_pb :: "pb_receipt \<Rightarrow> anyhow_error + receipt" where
  "receipt_try_from_pb r =
     rbind (b256_try_from (pbr_collection_id r)) (\<lambda>collection_id.
     rbind (ok_or (pbr_value r) ''Missing value'') (\<lambda>value.
     rbind (address_try_from (pbr_payer r)) (\<lambda>payer.
     rbind (address_try_from (pbr_data_service r)) (\<lambda>data_service.
     rbind (address_try_from (pbr_service_provider r)) (\<lambda>service_provider.
       Inr \<lparr>rcpt_collection_id = collection_id, rcpt_payer = payer,
            rcpt_data_service = data_service, rcpt_service_provider = service_provider,
            rcpt_timestamp_ns = pbr_timestamp_ns r, rcpt_nonce = pbr_nonce r,
            rcpt_value = u128_from_uint128 value\<rparr>)))))"

definition pb_from_receipt :: "receipt \<Rightarrow> pb_receipt" where
  "pb_from_receipt r =
     \<lparr>pbr_collection_id = b256_to_vec (rcpt_collection_id r),
      pbr_payer = address_to_vec (rcpt_payer r),
      pbr_data_service = address_to_vec (rcpt_data_service r),
      pbr_service_provider = address_to_vec (rcpt_service_provider r),
      pbr_timestamp_ns = rcpt_timestamp_ns r,
      pbr_nonce = rcpt_nonce r,
      pbr_value = Some (uint128_from_u128 (rcpt_value r))\<rparr>"

definition signed_receipt_try_from_pb ::
    "('sg, 'k) crypto \<Rightarrow> pb_signed_receipt \<Rightarrow> anyhow_error + 'sg signed_receipt" where
  "signed_receipt_try_from_pb C r =
     rbind (sig_try_from C (pbsr_signature r)) (\<lambda>sg.
     rbind (ok_or (pbsr_message r) ''Missing message'') (\<lambda>m.
     rbind (receipt_try_from_pb m) (\<lambda>m. Inr \<lparr>message = m, signature = sg\<rparr>)))"

definition pb_from_signed_receipt ::
    "('sg, 'k) crypto \<Rightarrow> 'sg signed_receipt \<Rightarrow> pb_signed_receipt" where
  "pb_from_signed_receipt C sm =
     \<lparr>pbsr_message = Some (pb_from_receipt (message sm)),
      pbsr_signature = sig_as_bytes C (signature sm)\<rparr>"

section \<open>Receipt Aggregate Vouchers\<close>

definition rav_try_from_pb :: "pb_rav \<Rightarrow> anyhow_error + rav" where
  "rav_try_from_pb v =
     rbind (b256_try_from (pbv_collection_id v)) (\<lambda>collection_id.
     rbind (ok_or (pbv_value_aggregate v) ''Missing Value Aggregate'') (\<lambda>value_aggregate.
     rbind (address_try_from (pbv_payer v)) (\<lambda>payer.
     rbind (address_try_from (pbv_data_service v)) (\<lambda>data_service.
     rbind (address_try_from (pbv_service_provider v)) (\<lambda>service_provider.
       Inr \<lparr>rav_collectionId = collection_id, rav_payer = payer,
            rav_serviceProvider = service_provider, rav_dataService = data_service,
            rav_timestampNs = pbv_timestamp_ns v,
            rav_valueAggregate = u128_from_uint128 value_aggregate,
            rav_metadata = pbv_metadata v\<rparr>)))))"

definition pb_from_rav :: "rav \<Rightarrow> pb_rav" where
  "pb_from_rav v =
     \<lparr>pbv_collection_id = b256_to_vec (rav_collectionId v),
      pbv_payer = address_to_vec (rav_payer v),
      pbv_data_service = address_to_vec (rav_dataService v),
      pbv_service_provider = address_to_vec (rav_serviceProvider v),
      pbv_timestamp_ns = rav_timestampNs v,
      pbv_value_aggregate = Some (uint128_from_u128 (rav_valueAggregate v)),
      pbv_metadata = rav_metadata v\<rparr>"

definition signed_rav_try_from_pb ::
    "('sg, 'k) crypto \<Rightarrow> pb_signed_rav \<Rightarrow> anyhow_error + 'sg signed_rav" where
  "signed_rav_try_from_pb C v =
     rbind (sig_try_from C (pbsv_signature v)) (\<lambda>sg.
     rbind (ok_or (pbsv_message v) ''Missing message'') (\<lambda>m.
     rbind (rav_try_from_pb m) (\<lambda>m. Inr \<lparr>message = m, signature = sg\<rparr>)))"

definition pb_from_signed_rav :: "('sg, 'k) crypto \<Rightarrow> 'sg signed_rav \<Rightarrow> pb_signed_rav" where
  "pb_from_signed_rav C sm =
     \<lparr>pbsv_message = Some (pb_from_rav (message sm)),
      pbsv_signature = sig_as_bytes C (signature sm)\<rparr>"

section \<open>Requests and responses\<close>

definition pb_rav_request_new ::
    "('sg, 'k) crypto \<Rightarrow> 'sg signed_receipt list \<Rightarrow> 'sg signed_rav option \<Rightarrow> pb_rav_request" where
  "pb_rav_request_new C receipts previous_rav =
     \<lparr>pbq_receipts = map (pb_from_signed_receipt C) receipts,
      pbq_previous_rav = map_option (pb_from_signed_rav C) previous_rav\<rparr>"

definition pb_response_signed_rav ::
    "('sg, 'k) crypto \<Rightarrow> pb_rav_response \<Rightarrow> anyhow_error + 'sg signed_rav" where
  "pb_response_signed_rav C response =
     rbind (ok_or (pbp_rav response) ''Couldn't find rav'') (signed_rav_try_from_pb C)"

section \<open>Round trips\<close>

lemma receipt_pb_roundtrip [simp]: "receipt_try_from_pb (pb_from_receipt r) = Inr r"
  by (simp add: receipt_try_from_pb_def pb_from_receipt_def)

lemma rav_pb_roundtrip [simp]: "rav_try_from_pb (pb_from_rav v) = Inr v"
  by (simp add: rav_try_from_pb_def pb_from_rav_def)

text \<open>A message decodes only if it is the encoding of the result.\<close>

interpretation receipt_codec: canonical_codec pb_from_receipt receipt_try_from_pb
proof
  fix p r assume "receipt_try_from_pb p = Inr r"
  then show "pb_from_receipt r = p"
    by (cases p) (auto simp: receipt_try_from_pb_def pb_from_receipt_def result_simps try_from_InrD)
qed simp

interpretation rav_codec: canonical_codec pb_from_rav rav_try_from_pb
proof
  fix p v assume "rav_try_from_pb p = Inr v"
  then show "pb_from_rav v = p"
    by (cases p) (auto simp: rav_try_from_pb_def pb_from_rav_def result_simps try_from_InrD)
qed simp

lemmas pb_Inr_iffs = receipt_codec.dec_Inr_iff rav_codec.dec_Inr_iff

lemma signed_receipt_pb_roundtrip:
  "signature_bytes_law C \<Longrightarrow> signed_receipt_try_from_pb C (pb_from_signed_receipt C sm) = Inr sm"
  by (simp add: signed_receipt_try_from_pb_def pb_from_signed_receipt_def signature_bytes_law_def)

lemma signed_rav_pb_roundtrip:
  "signature_bytes_law C \<Longrightarrow> signed_rav_try_from_pb C (pb_from_signed_rav C sm) = Inr sm"
  by (simp add: signed_rav_try_from_pb_def pb_from_signed_rav_def signature_bytes_law_def)

lemma signed_receipt_try_from_pb_InrD:
  assumes "signed_receipt_try_from_pb C p = Inr sm"
  shows "pbsr_message p = Some (pb_from_receipt (message sm))"
    and "sig_try_from C (pbsr_signature p) = Inr (signature sm)"
  using assms by (auto simp: signed_receipt_try_from_pb_def result_simps pb_Inr_iffs)

lemma signed_rav_try_from_pb_InrD:
  assumes "signed_rav_try_from_pb C p = Inr sm"
  shows "pbsv_message p = Some (pb_from_rav (message sm))"
    and "sig_try_from C (pbsv_signature p) = Inr (signature sm)"
  using assms by (auto simp: signed_rav_try_from_pb_def result_simps pb_Inr_iffs)

text \<open>A request is read back as what it was built from.\<close>

lemma signed_receipt_codec: "signature_bytes_law C \<Longrightarrow> codec (pb_from_signed_receipt C) (signed_receipt_try_from_pb C)"
  by unfold_locales (rule signed_receipt_pb_roundtrip)

lemma signed_rav_codec: "signature_bytes_law C \<Longrightarrow> codec (pb_from_signed_rav C) (signed_rav_try_from_pb C)"
  by unfold_locales (rule signed_rav_pb_roundtrip)

lemma pb_request_roundtrip:
  assumes "signature_bytes_law C"
  shows "collect_results (signed_receipt_try_from_pb C) (pbq_receipts (pb_rav_request_new C rs prev)) = Inr rs"
    and "transpose_map (signed_rav_try_from_pb C) (pbq_previous_rav (pb_rav_request_new C rs prev)) = Inr prev"
  using codec.decode_list [OF signed_receipt_codec [OF assms]] codec.decode_option [OF signed_rav_codec [OF assms]]
  by (simp_all add: pb_rav_request_new_def)

end
