(* ===== verification/GrpcV2.thy ===== *)
theory GrpcV2
  imports Grpc
begin

text \<open>
  The legacy gRPC modules \<open>uint128\<close> and \<open>v2\<close> of \<open>grpc.rs\<close>, over
  \<open>proto/uint128.proto\<close> and \<open>proto/tap_aggregator_legacy.proto\<close>. Their types are distinct from
  those of \<open>Grpc\<close>; the functions \<open>upgrade_*\<close> carry a legacy message over field by field, and
  the lemmas show that the legacy conversions agree with the current ones along them.
\<close>

unbundle bit_operations_syntax

section \<open>Messages\<close>

record legacy_uint128 =
  legacy_high :: u64
  legacy_low :: u64

record v2_receipt =
  v2r_collection_id :: "byte list"
  v2r_payer :: "byte list"
  v2r_data_service :: "byte list"
  v2r_service_provider :: "byte list"
  v2r_timestamp_ns :: u64
  v2r_nonce :: u64
  v2r_value :: "legacy_uint128 option"

record v2_signed_receipt =
  v2sr_message :: "v2_receipt option"
  v2sr_signature :: "byte list"

record v2_rav =
  v2v_collection_id :: "byte list"
  v2v_payer :: "byte list"
  v2v_data_service :: "byte list"
  v2v_service_provider :: "byte list"
  v2v_timestamp_ns :: u64
  v2v_value_aggregate :: "legacy_uint128 option"
  v2v_metadata :: "byte list"

record v2_signed_rav =
  v2sv_message :: "v2_rav option"
  v2sv_signature :: "byte list"

record v2_rav_request =
  v2q_receipts :: "v2_signed_receipt list"
  v2q_previous_rav :: "v2_signed_rav option"

record v2_rav_response =
  v2p_rav :: "v2_signed_rav option"

section \<open>128-bit numbers\<close>

definition u128_from_legacy :: "legacy_uint128 \<Rightarrow> u128" where
  "u128_from_legacy u = push_bit 64 (ucast (legacy_high u)) OR ucast (legacy_low u)"

definition legacy_from_u128 :: "u128 \<Rightarrow> legacy_uint128" where
  "legacy_from_u128 value = \<lparr>legacy_high = ucast (drop_bit 64 value), legacy_low = ucast value\<rparr>"

section \<open>Receipts\<close>

text \<open>\<open>Missing value\<close> and the like, as \<open>anyhow\<close> texts.\<close>

definition receipt_try_from_v2 :: "v2_receipt \<Rightarrow> anyhow_error + receipt" where
  "receipt_try_from_v2 r =
     rbind (b256_try_from (v2r_collection_id r)) (\<lambda>collection_id.
     rbind (ok_or (v2r_value r) ''Missing value'') (\<lambda>value.
     rbind (address_try_from (v2r_payer r)) (\<lambda>payer.
     rbind (address_try_from (v2r_data_service r)) (\<lambda>data_service.
     rbind (address_try_from (v2r_service_provider r)) (\<lambda>service_provider.
       Inr \<lparr>rcpt_collection_id = collection_id, rcpt_payer = payer,
            rcpt_data_service = data_service, rcpt_service_provider = service_provider,
            rcpt_timestamp_ns = v2r_timestamp_ns r, rcpt_nonce = v2r_nonce r,
            rcpt_value = u128_from_legacy value\<rparr>)))))"

definition v2_from_receipt :: "receipt \<Rightarrow> v2_receipt" where
  "v2_from_receipt r =
     \<lparr>v2r_collection_id = b256_to_vec (rcpt_collection_id r),
      v2r_payer = address_to_vec (rcpt_payer r),
      v2r_data_service = address_to_vec (rcpt_data_service r),
      v2r_service_provider = address_to_vec (rcpt_service_provider r),
      v2r_timestamp_ns = rcpt_timestamp_ns r,
      v2r_nonce = rcpt_nonce r,
      v2r_value = Some (legacy_from_u128 (rcpt_value r))\<rparr>"

definition signed_receipt_try_from_v2 ::
    "('sg, 'k) crypto \<Rightarrow> v2_signed_receipt \<Rightarrow> anyhow_error + 'sg signed_receipt" where
  "signed_receipt_try_from_v2 C r =
     rbind (sig_try_from C (v2sr_signature r)) (\<lambda>sg.
     rbind (ok_or (v2sr_message r) ''Missing message'') (\<lambda>m.
     rbind (receipt_try_from_v2 m) (\<lambda>m. Inr \<lparr>message = m, signature = sg\<rparr>)))"

definition v2_from_signed_receipt ::
    "('sg, 'k) crypto \<Rightarrow> 'sg signed_receipt \<Rightarrow> v2_signed_receipt" where
  "v2_from_signed_receipt C sm =
     \<lparr>v2sr_message = Some (v2_from_receipt (message sm)),
      v2sr_signature = sig_as_bytes C (signature sm)\<rparr>"

section \<open>Receipt Aggregate Vouchers\<close>

definition rav_try_from_v2 :: "v2_rav \<Rightarrow> anyhow_error + rav" where
  "rav_try_from_v2 v =
     rbind (b256_try_from (v2v_collection_id v)) (\<lambda>collection_id.
     rbind (ok_or (v2v_value_aggregate v) ''Missing Value Aggregate'') (\<lambda>value_aggregate.
     rbind (address_try_from (v2v_payer v)) (\<lambda>payer.
     rbind (address_try_from (v2v_data_service v)) (\<lambda>data_service.
     rbind (address_try_from (v2v_service_provider v)) (\<lambda>service_provider.
       Inr \<lparr>rav_collectionId = collection_id, rav_payer = payer,
            rav_serviceProvider = service_provider, rav_dataService = data_service,
            rav_timestampNs = v2v_timestamp_ns v,
            rav_valueAggregate = u128_from_legacy value_aggregate,
            rav_metadata = v2v_metadata v\<rparr>)))))"

definition v2_from_rav :: "rav \<Rightarrow> v2_rav" where
  "v2_from_rav v =
     \<lparr>v2v_collection_id = b256_to_vec (rav_collectionId v),
      v2v_payer = address_to_vec (rav_payer v),
      v2v_data_service = address_to_vec (rav_dataService v),
      v2v_service_provider = address_to_vec (rav_serviceProvider v),
      v2v_timestamp_ns = rav_timestampNs v,
      v2v_value_aggregate = Some (legacy_from_u128 (rav_valueAggregate v)),
      v2v_metadata = rav_metadata v\<rparr>"

definition signed_rav_try_from_v2 ::
    "('sg, 'k) crypto \<Rightarrow> v2_signed_rav \<Rightarrow> anyhow_error + 'sg signed_rav" where
  "signed_rav_try_from_v2 C v =
     rbind (sig_try_from C (v2sv_signature v)) (\<lambda>sg.
     rbind (ok_or (v2sv_message v) ''Missing message'') (\<lambda>m.
     rbind (rav_try_from_v2 m) (\<lambda>m. Inr \<lparr>message = m, signature = sg\<rparr>)))"

definition v2_from_signed_rav :: "('sg, 'k) crypto \<Rightarrow> 'sg signed_rav \<Rightarrow> v2_signed_rav" where
  "v2_from_signed_rav C sm =
     \<lparr>v2sv_message = Some (v2_from_rav (message sm)),
      v2sv_signature = sig_as_bytes C (signature sm)\<rparr>"

section \<open>Requests and responses\<close>

definition v2_rav_request_new ::
    "('sg, 'k) crypto \<Rightarrow> 'sg signed_receipt list \<Rightarrow> 'sg signed_rav option \<Rightarrow> v2_rav_request" where
  "v2_rav_request_new C receipts previous_rav =
     \<lparr>v2q_receipts = map (v2_from_signed_receipt C) receipts,
      v2q_previous_rav = map_option (v2_from_signed_rav C) previous_rav\<rparr>"

definition v2_response_signed_rav ::
    "('sg, 'k) crypto \<Rightarrow> v2_rav_response \<Rightarrow> anyhow_error + 'sg signed_rav" where
  "v2_response_signed_rav C response =
     rbind (ok_or (v2p_rav response) ''Couldn't find rav'') (signed_rav_try_from_v2 C)"

section \<open>Agreement with the current messages\<close>

definition upgrade_uint128 :: "legacy_uint128 \<Rightarrow> uint128" where
  "upgrade_uint128 u = \<lparr>uint_high = legacy_high u, uint_low = legacy_low u\<rparr>"

definition upgrade_receipt :: "v2_receipt \<Rightarrow> pb_receipt" where
  "upgrade_receipt r =
     \<lparr>pbr_collection_id = v2r_collection_id r, pbr_payer = v2r_payer r,
      pbr_data_service = v2r_data_service r, pbr_service_provider = v2r_service_provider r,
      pbr_timestamp_ns = v2r_timestamp_ns r, pbr_nonce = v2r_nonce r,
      pbr_value = map_option upgrade_uint128 (v2r_value r)\<rparr>"

definition upgrade_signed_receipt :: "v2_signed_receipt \<Rightarrow> pb_signed_receipt" where
  "upgrade_signed_receipt r =
     \<lparr>pbsr_message = map_option upgrade_receipt (v2sr_message r), pbsr_signature = v2sr_signature r\<rparr>"

definition upgrade_rav :: "v2_rav \<Rightarrow> pb_rav" where
  "upgrade_rav v =
     \<lparr>pbv_collection_id = v2v_collection_id v, pbv_payer = v2v_payer v,
      pbv_data_service = v2v_data_service v, pbv_service_provider = v2v_service_provider v,
      pbv_timestamp_ns = v2v_timestamp_ns v,
      pbv_value_aggregate = map_option upgrade_uint128 (v2v_value_aggregate v),
      pbv_metadata = v2v_metadata v\<rparr>"

definition upgrade_signed_rav :: "v2_signed_rav \<Rightarrow> pb_signed_rav" where
  "upgrade_signed_rav v =
     \<lparr>pbsv_message = map_option upgrade_rav (v2sv_message v), pbsv_signature = v2sv_signature v\<rparr>"

definition upgrade_request :: "v2_rav_request \<Rightarrow> pb_rav_request" where
  "upgrade_request q =
     \<lparr>pbq_receipts = map upgrade_signed_receipt (v2q_receipts q),
      pbq_previous_rav = map_option upgrade_signed_rav (v2q_previous_rav q)\<rparr>"

definition upgrade_response :: "v2_rav_response \<Rightarrow> pb_rav_response" where
  "upgrade_response p = \<lparr>pbp_rav = map_option upgrade_signed_rav (v2p_rav p)\<rparr>"

lemma u128_from_legacy_upgrade: "u128_from_legacy u = u128_from_uint128 (upgrade_uint128 u)"
  by (simp add: u128_from_legacy_def u128_from_uint128_def upgrade_uint128_def)

lemma upgrade_legacy_from_u128: "upgrade_uint128 (legacy_from_u128 v) = uint128_from_u128 v"
  by (simp add: upgrade_uint128_def legacy_from_u128_def uint128_from_u128_def)

lemma upgrade_uint128_inj: "upgrade_uint128 a = upgrade_uint128 b \<longleftrightarrow> a = b"
  by (cases a; cases b) (simp add: upgrade_uint128_def)

lemma u128_from_legacy_from_u128 [simp]: "u128_from_legacy (legacy_from_u128 v) = v"
  by (simp add: u128_from_legacy_upgrade upgrade_legacy_from_u128)

lemma legacy_from_u128_from_legacy [simp]: "legacy_from_u128 (u128_from_legacy u) = u"
  by (simp add: u128_from_legacy_upgrade upgrade_legacy_from_u128 flip: upgrade_uint128_inj)

lemma receipt_try_from_v2_upgrade: "receipt_try_from_v2 p = receipt_try_from_pb (upgrade_receipt p)"
  by (cases "v2r_value p")
     (simp_all add: receipt_try_from_v2_def receipt_try_from_pb_def upgrade_receipt_def
       u128_from_legacy_upgrade)

lemma rav_try_from_v2_upgrade: "rav_try_from_v2 p = rav_try_from_pb (upgrade_rav p)"
  by (cases "v2v_value_aggregate p")
     (simp_all add: rav_try_from_v2_def rav_try_from_pb_def upgrade_rav_def u128_from_legacy_upgrade)

lemma signed_receipt_try_from_v2_upgrade:
  "signed_receipt_try_from_v2 C p = signed_receipt_try_from_pb C (upgrade_signed_receipt p)"
  by (cases "v2sr_message p")
     (simp_all add: signed_receipt_try_from_v2_def signed_receipt_try_from_pb_def
       upgrade_signed_receipt_def receipt_try_from_v2_upgrade)

lemma signed_rav_try_from_v2_upgrade:
  "signed_rav_try_from_v2 C p = signed_rav_try_from_pb C (upgrade_signed_rav p)"
  by (cases "v2sv_message p")
     (simp_all add: signed_rav_try_from_v2_def signed_rav_try_from_pb_def
       upgrade_signed_rav_def rav_try_from_v2_upgrade)

lemma upgrade_v2_from_signed_receipt:
  "upgrade_signed_receipt (v2_from_signed_receipt C sm) = pb_from_signed_receipt C sm"
  by (simp add: upgrade_signed_receipt_def v2_from_signed_receipt_def pb_from_signed_receipt_def
      upgrade_receipt_def v2_from_receipt_def pb_from_receipt_def upgrade_legacy_from_u128)

lemma upgrade_v2_from_signed_rav:
  "upgrade_signed_rav (v2_from_signed_rav C sm) = pb_from_signed_rav C sm"
  by (simp add: upgrade_signed_rav_def v2_from_signed_rav_def pb_from_signed_rav_def
      upgrade_rav_def v2_from_rav_def pb_from_rav_def upgrade_legacy_from_u128)

lemma collect_results_upgrade:
  "collect_results (signed_receipt_try_from_v2 C) ps =
     collect_results (signed_receipt_try_from_pb C) (map upgrade_signed_receipt ps)"
  by (induction ps) (simp_all add: signed_receipt_try_from_v2_upgrade)

lemma transpose_map_upgrade:
  "transpose_map (signed_rav_try_from_v2 C) p =
     transpose_map (signed_rav_try_from_pb C) (map_option upgrade_signed_rav p)"
  by (cases p) (simp_all add: signed_rav_try_from_v2_upgrade)

lemma upgrade_v2_rav_request_new:
  "upgrade_request (v2_rav_request_new C rs prev) = pb_rav_request_new C rs prev"
  by (cases prev)
     (simp_all add: upgrade_request_def v2_rav_request_new_def pb_rav_request_new_def
       upgrade_v2_from_signed_receipt upgrade_v2_from_signed_rav comp_def)

lemma v2_response_signed_rav_upgrade:
  "v2_response_signed_rav C p = pb_response_signed_rav C (upgrade_response p)"
  by (cases "v2p_rav p")
     (simp_all add: v2_response_signed_rav_def pb_response_signed_rav_def upgrade_response_def
       signed_rav_try_from_v2_upgrade)

text \<open>The legacy messages are canonical because the current ones are.\<close>

lemma upgrade_inj: "upgrade_receipt p = upgrade_receipt q \<longleftrightarrow> p = q" "upgrade_rav v = upgrade_rav w \<longleftrightarrow> v = w"
proof -
  have o: "map_option upgrade_uint128 x = map_option upgrade_uint128 y \<longleftrightarrow> x = y" for x y
    by (cases x; cases y) (auto simp: upgrade_uint128_inj)
  show "upgrade_receipt p = upgrade_receipt q \<longleftrightarrow> p = q"
    by (cases p; cases q) (auto simp: upgrade_receipt_def o)
  show "upgrade_rav v = upgrade_rav w \<longleftrightarrow> v = w"
    by (cases v; cases w) (auto simp: upgrade_rav_def o)
qed

lemma upgrade_v2_from:
  "upgrade_receipt (v2_from_receipt r) = pb_from_receipt r" "upgrade_rav (v2_from_rav v) = pb_from_rav v"
  by (simp_all add: upgrade_receipt_def v2_from_receipt_def pb_from_receipt_def upgrade_rav_def
      v2_from_rav_def pb_from_rav_def upgrade_legacy_from_u128)

interpretation legacy_receipt_codec: canonical_codec v2_from_receipt receipt_try_from_v2
  by unfold_locales
     (simp_all add: receipt_try_from_v2_upgrade upgrade_v2_from receipt_codec.dec_Inr_iff
       flip: upgrade_inj upgrade_v2_from)

interpretation legacy_rav_codec: canonical_codec v2_from_rav rav_try_from_v2
  by unfold_locales
     (simp_all add: rav_try_from_v2_upgrade upgrade_v2_from rav_codec.dec_Inr_iff
       flip: upgrade_inj upgrade_v2_from)

end
