(* ===== verification/F64.thy ===== *)
theory F64
  imports Prelude Complex_Main "HOL-Library.Log_Nat"
begin

text \<open>
  The part of Rust's \<open>f64\<close> that the code computes with: IEEE 754 binary64 with rounding to
  nearest, ties to even. A finite number is the rational it denotes; \<open>f64_of_rat\<close> rounds to 53
  bits (and to the subnormal grid at the bottom) and overflows to an infinity. The two zeroes are
  one, which no operation here can tell apart. Casts to integers truncate and saturate, as \<open>as\<close>
  does.

  The lemmas show that rounding is monotone, keeps representable numbers, and errs by at most one
  part in \<open>2 ^ 53\<close>.
\<close>

datatype f64 = NaN | PosInf | NegInf | Fin rat

section \<open>Rounding\<close>

text \<open>\<open>2 powi e \<le> x < 2 powi (e + 1)\<close> for a positive \<open>x\<close>.\<close>

definition binary_exponent :: "rat \<Rightarrow> int" where
  "binary_exponent x =
     (let (n, d) = quotient_of x; k = bitlen n - bitlen d in
      if 2 powi k \<le> x then k else k - 1)"

definition ulp_exponent :: "rat \<Rightarrow> int" where
  "ulp_exponent x = max (binary_exponent x - 52) (- 1074)"

definition round_half_even :: "rat \<Rightarrow> int" where
  "round_half_even y =
     (let k = \<lfloor>y\<rfloor>; f = y - of_int k in
      if f < 1 / 2 then k else if f > 1 / 2 then k + 1 else if even k then k else k + 1)"

definition round_positive :: "rat \<Rightarrow> rat" where
  "round_positive x =
     (let u = 2 powi (ulp_exponent x) in of_int (round_half_even (x / u)) * u)"

definition round_rat :: "rat \<Rightarrow> rat" where
  "round_rat x =
     (if x = 0 then 0 else if 0 < x then round_positive x else - round_positive (- x))"

definition f64_of_rat :: "rat \<Rightarrow> f64" where
  "f64_of_rat x =
     (let r = round_rat x in
      if r \<noteq> 0 \<and> 1024 \<le> binary_exponent \<bar>r\<bar> then (if 0 < r then PosInf else NegInf) else Fin r)"

definition representable :: "rat \<Rightarrow> bool" where
  "representable x \<longleftrightarrow> f64_of_rat x = Fin x"

section \<open>Operations\<close>

definition u128_as_f64 :: "u128 \<Rightarrow> f64" where
  "u128_as_f64 n = f64_of_rat (of_int (uint n))"

fun f64_neg :: "f64 \<Rightarrow> f64" where
  "f64_neg NaN = NaN"
| "f64_neg PosInf = NegInf"
| "f64_neg NegInf = PosInf"
| "f64_neg (Fin x) = Fin (- x)"

fun f64_add :: "f64 \<Rightarrow> f64 \<Rightarrow> f64" where
  "f64_add (Fin x) (Fin y) = f64_of_rat (x + y)"
| "f64_add NaN b = NaN"
| "f64_add a NaN = NaN"
| "f64_add PosInf NegInf = NaN"
| "f64_add NegInf PosInf = NaN"
| "f64_add PosInf b = PosInf"
| "f64_add NegInf b = NegInf"
| "f64_add a PosInf = PosInf"
| "f64_add a NegInf = NegInf"

text \<open>The product of an infinity and a finite number.\<close>

definition signed_infinity :: "bool \<Rightarrow> rat \<Rightarrow> f64" where
  "signed_infinity pos x = (if x = 0 then NaN else if (0 < x) = pos then PosInf else NegInf)"

fun f64_mul :: "f64 \<Rightarrow> f64 \<Rightarrow> f64" where
  "f64_mul (Fin x) (Fin y) = f64_of_rat (x * y)"
| "f64_mul NaN b = NaN"
| "f64_mul a NaN = NaN"
| "f64_mul PosInf (Fin y) = signed_infinity True y"
| "f64_mul NegInf (Fin y) = signed_infinity False y"
| "f64_mul (Fin x) PosInf = signed_infinity True x"
| "f64_mul (Fin x) NegInf = signed_infinity False x"
| "f64_mul PosInf b = b"
| "f64_mul NegInf b = f64_neg b"

text \<open>Division by a finite number other than zero, the only one in the code.\<close>

fun f64_div :: "f64 \<Rightarrow> rat \<Rightarrow> f64" where
  "f64_div (Fin x) y = f64_of_rat (x / y)"
| "f64_div NaN y = NaN"
| "f64_div PosInf y = signed_infinity True y"
| "f64_div NegInf y = signed_infinity False y"

fun f64_le :: "f64 \<Rightarrow> f64 \<Rightarrow> bool" where
  "f64_le (Fin x) (Fin y) = (x \<le> y)"
| "f64_le NaN b = False"
| "f64_le a NaN = False"
| "f64_le NegInf b = True"
| "f64_le a PosInf = True"
| "f64_le PosInf b = False"
| "f64_le a NegInf = False"

definition f64_lt :: "f64 \<Rightarrow> f64 \<Rightarrow> bool" where
  "f64_lt a b = (f64_le a b \<and> a \<noteq> b)"

fun f64_is_finite :: "f64 \<Rightarrow> bool" where
  "f64_is_finite (Fin x) = True"
| "f64_is_finite a = False"

text \<open>\<open>f64::round\<close> rounds halves away from zero.\<close>

fun f64_round :: "f64 \<Rightarrow> f64" where
  "f64_round (Fin x) = Fin (if 0 \<le> x then of_int \<lfloor>x + 1 / 2\<rfloor> else - of_int \<lfloor>- x + 1 / 2\<rfloor>)"
| "f64_round a = a"

fun f64_ceil :: "f64 \<Rightarrow> f64" where
  "f64_ceil (Fin x) = Fin (of_int \<lceil>x\<rceil>)"
| "f64_ceil a = a"

fun f64_as_uint :: "f64 \<Rightarrow> 'a::len word" where
  "f64_as_uint NaN = 0"
| "f64_as_uint NegInf = 0"
| "f64_as_uint PosInf = - 1"
| "f64_as_uint (Fin x) =
     (if x \<le> 0 then 0 else if 2 ^ LENGTH('a) \<le> \<lfloor>x\<rfloor> then - 1 else of_int \<lfloor>x\<rfloor>)"

section \<open>The exponent\<close>

lemma bitlen_rat_bounds:
  assumes "0 < (n :: int)"
  shows "2 powi (bitlen n - 1) \<le> (of_int n :: rat)" and "of_int n < (2 :: rat) powi bitlen n"
proof -
  have "2 ^ nat (bitlen n - 1) \<le> n \<and> n < 2 ^ nat (bitlen n)" by (rule bitlen_bounds [OF assms])
  then have "(of_int (2 ^ nat (bitlen n - 1)) :: rat) \<le> of_int n"
    and "(of_int n :: rat) < of_int (2 ^ nat (bitlen n))" by (simp_all only: of_int_le_iff of_int_less_iff)
  moreover have "0 < bitlen n" using assms bitlen_eq_zero_iff [of n] bitlen_nonneg [of n] by linarith
  ultimately show "2 powi (bitlen n - 1) \<le> (of_int n :: rat)" and "of_int n < (2 :: rat) powi bitlen n"
    by (simp_all add: power_int_def)
qed

lemma powi_pos [simp]: "0 < (2 :: rat) powi k"
  by (simp add: zero_less_power_int)

lemma powi_mono: "k \<le> l \<Longrightarrow> (2 :: rat) powi k \<le> 2 powi l"
  by (rule power_int_increasing) simp_all

lemma binary_exponent_bounds:
  assumes "0 < x"
  shows "2 powi binary_exponent x \<le> x" and "x < 2 powi (binary_exponent x + 1)"
proof -
  obtain n d where q: "quotient_of x = (n, d)" by (cases "quotient_of x")
  then have d: "0 < d" and x: "x = of_int n / of_int d"
    by (auto dest: quotient_of_denom_pos quotient_of_div)
  with assms have n: "0 < n" by (simp add: zero_less_divide_iff)
  let ?k = "bitlen n - bitlen d"
  have "(2 :: rat) powi (?k - 1) = 2 powi (bitlen n - 1) / 2 powi bitlen d"
    by (simp flip: power_int_diff add: algebra_simps)
  also have "\<dots> \<le> of_int n / of_int d"
    using bitlen_rat_bounds [OF n] bitlen_rat_bounds [OF d] d n by (intro frac_le) (auto simp: less_imp_le)
  finally have low: "2 powi (?k - 1) \<le> x" by (simp add: x)
  have "of_int n / of_int d < (2 :: rat) powi bitlen n / 2 powi (bitlen d - 1)"
    using bitlen_rat_bounds [OF n] bitlen_rat_bounds [OF d] n by (intro frac_less) auto
  also have "\<dots> = 2 powi (?k + 1)"
    by (simp flip: power_int_diff add: algebra_simps)
  finally have high: "x < 2 powi (?k + 1)" by (simp add: x)
  show "2 powi binary_exponent x \<le> x" and "x < 2 powi (binary_exponent x + 1)"
    using low high by (auto simp: binary_exponent_def q Let_def)
qed

lemma binary_exponent_unique:
  assumes "2 powi e \<le> x" and "x < 2 powi (e + 1)"
  shows "binary_exponent x = e"
proof -
  have x: "0 < x" using assms(1) powi_pos [of e] by linarith
  have le: "a \<le> b" if "2 powi a \<le> x" "x < 2 powi (b + 1)" for a b
  proof (rule ccontr)
    assume "\<not> a \<le> b"
    then have "(2 :: rat) powi (b + 1) \<le> 2 powi a" by (intro powi_mono) simp
    with that show False by simp
  qed
  show ?thesis
    using le [OF assms(1) binary_exponent_bounds(2) [OF x]]
      le [OF binary_exponent_bounds(1) [OF x] assms(2)] by simp
qed

section \<open>Rounding is monotone and accurate\<close>

lemma round_half_even_le: "y \<le> of_int k \<Longrightarrow> round_half_even y \<le> k"
  unfolding round_half_even_def Let_def by (cases "y = of_int k") (simp_all, linarith)

lemma round_half_even_ge: "of_int k \<le> y \<Longrightarrow> k \<le> round_half_even y"
  unfolding round_half_even_def Let_def by (simp, linarith)

lemma round_half_even_of_int [simp]: "round_half_even (of_int k) = k"
  by (simp add: round_half_even_def)

lemma round_half_even_error: "\<bar>of_int (round_half_even y) - y\<bar> \<le> 1 / 2"
proof -
  have "of_int \<lfloor>y\<rfloor> \<le> y" and "y < of_int \<lfloor>y\<rfloor> + 1" by linarith+
  then show ?thesis unfolding round_half_even_def Let_def by (auto simp: abs_if field_simps) linarith
qed

lemma round_half_even_mono:
  assumes "x \<le> y"
  shows "round_half_even x \<le> round_half_even y"
proof (cases "\<lfloor>x\<rfloor> = \<lfloor>y\<rfloor>")
  case True
  with assms show ?thesis by (auto simp: round_half_even_def Let_def)
next
  case False
  then have "\<lfloor>x\<rfloor> + 1 \<le> \<lfloor>y\<rfloor>" using floor_mono [OF assms] by linarith
  moreover have "round_half_even x \<le> \<lfloor>x\<rfloor> + 1" by (rule round_half_even_le) linarith
  moreover have "\<lfloor>y\<rfloor> \<le> round_half_even y" by (rule round_half_even_ge) simp
  ultimately show ?thesis by simp
qed

text \<open>A bound on the grid of \<open>x\<close> is kept by rounding.\<close>

lemma round_positive_le: "x \<le> of_int k * 2 powi ulp_exponent x \<Longrightarrow> round_positive x \<le> of_int k * 2 powi ulp_exponent x"
  using round_half_even_le [of "x / 2 powi ulp_exponent x" k]
  by (simp add: round_positive_def Let_def divide_le_eq)

lemma round_positive_ge: "of_int k * 2 powi ulp_exponent x \<le> x \<Longrightarrow> of_int k * 2 powi ulp_exponent x \<le> round_positive x"
  using round_half_even_ge [of k "x / 2 powi ulp_exponent x"]
  by (simp add: round_positive_def Let_def le_divide_eq)

lemma round_positive_grid:
  assumes "x = of_int k * 2 powi ulp_exponent x"
  shows "round_positive x = x"
  using round_positive_le [of x k] round_positive_ge [of k x] assms by simp

lemma round_positive_nonneg: "0 < x \<Longrightarrow> 0 \<le> round_positive x"
  using round_positive_ge [of 0 x] by simp

lemma powi_on_grid:
  assumes "u \<le> e"
  shows "\<exists>k. (2 :: rat) powi e = of_int k * 2 powi u"
proof -
  have "(2 :: rat) powi e = 2 powi (e - u) * 2 powi u" by (simp flip: power_int_add)
  moreover have "(2 :: rat) powi (e - u) = of_int (2 ^ nat (e - u))" using assms by (simp add: power_int_def)
  ultimately show ?thesis by metis
qed

lemma binary_exponent_mono:
  assumes "0 < x" and "x \<le> y"
  shows "binary_exponent x \<le> binary_exponent y"
proof (rule ccontr)
  assume "\<not> ?thesis"
  then have "(2 :: rat) powi (binary_exponent y + 1) \<le> 2 powi binary_exponent x"
    by (intro powi_mono) simp
  with binary_exponent_bounds [of x] binary_exponent_bounds [of y] assms show False by simp
qed

lemma round_positive_mono:
  assumes "0 < x" and "x \<le> y"
  shows "round_positive x \<le> round_positive y"
proof (cases "ulp_exponent x = ulp_exponent y")
  case True
  have "x / 2 powi ulp_exponent y \<le> y / 2 powi ulp_exponent y"
    using assms by (simp add: divide_right_mono)
  then show ?thesis
    by (simp add: round_positive_def True Let_def round_half_even_mono mult_right_mono)
next
  case False
  have e: "binary_exponent x \<le> binary_exponent y" by (rule binary_exponent_mono [OF assms])
  with False have u: "ulp_exponent y = binary_exponent y - 52" "ulp_exponent x < ulp_exponent y"
    "binary_exponent x < binary_exponent y"
    by (auto simp: ulp_exponent_def)
  let ?p = "(2 :: rat) powi binary_exponent y"
  have px: "x \<le> ?p"
    using binary_exponent_bounds(2) [OF assms(1)] powi_mono [of "binary_exponent x + 1" "binary_exponent y"] u(3)
    by simp
  obtain k l where kl: "?p = of_int k * 2 powi ulp_exponent x" "?p = of_int l * 2 powi ulp_exponent y"
    using powi_on_grid [of "ulp_exponent x" "binary_exponent y"]
      powi_on_grid [of "ulp_exponent y" "binary_exponent y"] u by auto
  have "round_positive x \<le> ?p"
    using px round_positive_le [of x k] unfolding kl(1) by simp
  moreover have "?p \<le> round_positive y"
    using binary_exponent_bounds(1) [of y] assms round_positive_ge [of l y] unfolding kl(2) by simp
  ultimately show ?thesis by simp
qed

lemma round_rat_mono:
  assumes "x \<le> y"
  shows "round_rat x \<le> round_rat y"
proof -
  consider "0 < x" | "x = 0" | "x < 0" "0 \<le> y" | "y < 0" using assms by linarith
  then show ?thesis
  proof cases
    case 1
    with assms round_positive_mono [of x y] show ?thesis by (simp add: round_rat_def)
  next
    case 2
    with assms round_positive_nonneg [of y] show ?thesis by (simp add: round_rat_def)
  next
    case 3
    have "0 \<le> round_positive (- x)" using 3 by (intro round_positive_nonneg) simp
    moreover have "0 \<le> round_positive y" if "y \<noteq> 0" using 3 that by (intro round_positive_nonneg) simp
    ultimately show ?thesis using 3 by (simp add: round_rat_def) (meson dual_order.trans neg_le_0_iff_le)
  next
    case 4
    with assms round_positive_mono [of "- y" "- x"] show ?thesis by (simp add: round_rat_def)
  qed
qed

text \<open>The relative error, for numbers that are not subnormal.\<close>

lemma round_positive_error:
  assumes "1 \<le> x"
  shows "\<bar>round_positive x - x\<bar> \<le> x / 2 ^ 53"
proof -
  have x: "0 < x" using assms by simp
  have "binary_exponent (1 :: rat) = 0" by (rule binary_exponent_unique) simp_all
  then have "0 \<le> binary_exponent x" using binary_exponent_mono [of 1 x] assms by simp
  then have u: "ulp_exponent x = binary_exponent x - 52" by (simp add: ulp_exponent_def)
  let ?u = "(2 :: rat) powi ulp_exponent x"
  let ?y = "x / ?u"
  have y: "?y * ?u = x" using powi_pos [of "ulp_exponent x"] by (simp add: less_imp_neq [symmetric])
  have "round_positive x - x = (of_int (round_half_even ?y) - ?y) * ?u"
    by (simp only: round_positive_def Let_def left_diff_distrib y)
  then have "\<bar>round_positive x - x\<bar> = \<bar>of_int (round_half_even ?y) - ?y\<bar> * ?u"
    by (simp add: abs_mult less_imp_le)
  also have "\<dots> \<le> 1 / 2 * ?u"
    by (rule mult_right_mono [OF round_half_even_error]) (simp add: less_imp_le)
  also have "?u = 2 powi binary_exponent x / 2 ^ 52"
    by (simp add: u power_int_diff)
  finally show ?thesis
    using binary_exponent_bounds(1) [OF x] by simp
qed

section \<open>Lemmas on the operations\<close>

lemma round_positive_powi:
  assumes "- 1022 \<le> e"
  shows "round_positive (2 powi e) = 2 powi e"
proof -
  have "binary_exponent (2 powi e) = e"
    by (rule binary_exponent_unique) (simp_all add: power_int_add)
  then have "ulp_exponent (2 powi e) \<le> e" using assms by (simp add: ulp_exponent_def)
  from powi_on_grid [OF this] round_positive_grid show ?thesis by blast
qed

lemma f64_of_rat_finite:
  assumes "\<bar>x\<bar> \<le> 2 powi 1023"
  shows "f64_of_rat x = Fin (round_rat x)"
proof -
  have "round_rat x \<le> round_rat (2 powi 1023)" and "round_rat (- (2 powi 1023)) \<le> round_rat x"
    by (rule round_rat_mono; use assms in \<open>simp add: abs_le_iff\<close>)+
  moreover have "round_rat (2 powi 1023) = 2 powi 1023" "round_rat (- (2 powi 1023)) = - (2 powi 1023)"
    using powi_pos [of 1023] round_positive_powi [of 1023] by (simp_all add: round_rat_def)
  ultimately have r: "\<bar>round_rat x\<bar> \<le> 2 powi 1023" by (simp add: abs_le_iff)
  have "binary_exponent \<bar>round_rat x\<bar> < 1024" if "round_rat x \<noteq> 0"
  proof (rule ccontr)
    assume "\<not> ?thesis"
    then have "(2 :: rat) powi 1024 \<le> 2 powi binary_exponent \<bar>round_rat x\<bar>" by (intro powi_mono) simp
    also have "\<dots> \<le> \<bar>round_rat x\<bar>" using that by (intro binary_exponent_bounds) simp
    finally have "(2 :: rat) powi 1024 \<le> 2 powi 1023" using r by simp
    moreover have "(2 :: rat) powi 1024 = 2 powi 1023 * 2"
      using power_int_add_1 [of "2 :: rat" 1023] by simp
    ultimately show False using powi_pos [of 1023] by linarith
  qed
  then show ?thesis unfolding f64_of_rat_def Let_def by auto
qed

lemma f64_le_Fin: "f64_le (Fin x) (Fin y) \<longleftrightarrow> x \<le> y" "f64_lt (Fin x) (Fin y) \<longleftrightarrow> x < y"
  by (auto simp: f64_lt_def)

lemma u128_as_f64_Fin: "u128_as_f64 n = Fin (round_rat (of_int (uint n)))"
proof -
  have "uint n < 2 ^ 128" using uint_bounded [of n] by simp
  then have "(of_int (uint n) :: rat) < of_int (2 ^ 128)" by (simp only: of_int_less_iff)
  moreover have "(of_int (2 ^ 128) :: rat) \<le> 2 powi 1023" by (simp add: power_int_def)
  moreover have "0 \<le> (of_int (uint n) :: rat)" by (simp only: of_int_0_le_iff uint_nonnegative)
  ultimately show ?thesis unfolding u128_as_f64_def by (intro f64_of_rat_finite) linarith
qed

lemma u128_as_f64_mono: "m \<le> n \<Longrightarrow> f64_le (u128_as_f64 m) (u128_as_f64 n)"
  unfolding u128_as_f64_Fin f64_le_Fin
  by (rule round_rat_mono) (simp only: of_int_le_iff word_le_def)

text \<open>Rounding a rounded number changes nothing.\<close>

lemma round_positive_idem:
  assumes "1 \<le> x"
  shows "round_positive (round_positive x) = round_positive x"
proof -
  let ?e = "binary_exponent x" and ?r = "round_positive x"
  have x: "0 < x" using assms by simp
  note b = binary_exponent_bounds [OF x]
  have "\<not> ?e + 1 \<le> 0"
  proof
    assume "?e + 1 \<le> 0"
    then have "(2 :: rat) powi (?e + 1) \<le> 2 powi 0" by (rule powi_mono)
    with b(2) assms show False by simp
  qed
  then have e: "0 \<le> ?e" by simp
  have u: "ulp_exponent x = ?e - 52" using e by (simp add: ulp_exponent_def)
  obtain k where k: "(2 :: rat) powi ?e = of_int k * 2 powi ulp_exponent x"
    using powi_on_grid [of "ulp_exponent x" ?e] u by auto
  obtain l where l: "(2 :: rat) powi (?e + 1) = of_int l * 2 powi ulp_exponent x"
    using powi_on_grid [of "ulp_exponent x" "?e + 1"] u by auto
  have lo: "2 powi ?e \<le> ?r" using round_positive_ge [of k x] b(1) k by simp
  have hi: "?r \<le> 2 powi (?e + 1)" using round_positive_le [of x l] b(2) l by simp
  show ?thesis
  proof (cases "?r = 2 powi (?e + 1)")
    case True
    with e show ?thesis by (simp add: round_positive_powi)
  next
    case False
    with hi have "?r < 2 powi (?e + 1)" by simp
    with lo have ulp: "ulp_exponent ?r = ulp_exponent x"
      by (simp add: ulp_exponent_def binary_exponent_unique)
    obtain j where j: "?r = of_int j * 2 powi ulp_exponent x" by (metis round_positive_def)
    have "?r = of_int j * 2 powi ulp_exponent ?r" unfolding ulp by (rule j)
    then show ?thesis by (rule round_positive_grid)
  qed
qed

lemma round_rat_idem_of_int:
  assumes "0 \<le> k"
  shows "round_rat (round_rat (of_int k)) = round_rat (of_int k)"
proof (cases "k = 0")
  case True
  then show ?thesis by (simp add: round_rat_def)
next
  case False
  with assms have k: "(1 :: rat) \<le> of_int k" by simp
  then have "round_rat (of_int k) = round_positive (of_int k)" by (simp add: round_rat_def)
  moreover have "(1 :: rat) \<le> round_rat (of_int k)"
    using round_rat_mono [OF k] round_positive_powi [of 0] by (simp add: round_rat_def split: if_splits)
  ultimately show ?thesis using round_positive_idem [OF k] by (simp add: round_rat_def)
qed

end
