(* ===== verification/Server.thy ===== *)
theory Server
  imports Aggregator GrpcV2 F64
begin

text \<open>
  The aggregation service (\<open>crates/bin/aggregator/src/server.rs\<close>), with the API versions of
  \<open>api_versioning.rs\<close>, the codes of \<open>error_codes.rs\<close>, the envelopes of
  \<open>jsonrpsee_helpers.rs\<close> and the routing of requests. A handler takes the request and the
  service's state (its Prometheus counters and the records handed to Kafka) and returns the answer
  and the new state. The HTTP and gRPC servers around the handlers are libraries and not modelled.
\<close>

section \<open>API versions, codes and envelopes\<close>

datatype api_version = V0_0

fun api_version_to_string :: "api_version \<Rightarrow> string" where
  "api_version_to_string V0_0 = ''0.0''"

definition api_version_from_str :: "string \<Rightarrow> unit + api_version" where
  "api_version_from_str s = (if s = ''0.0'' then Inr V0_0 else Inl ())"

text \<open>\<open>serialize\<close> and \<open>deserialize\<close> go through the string of the version.\<close>

definition api_version_serialize :: "api_version \<Rightarrow> string" where
  "api_version_serialize v = api_version_to_string v"

definition api_version_deserialize :: "string \<Rightarrow> unit + api_version" where
  "api_version_deserialize s = map_err (\<lambda>_. ()) (api_version_from_str s)"

definition api_versions_deprecated :: "api_version list" where
  "api_versions_deprecated = []"

record api_versions_info =
  versions_supported :: "api_version list"
  versions_deprecated :: "api_version list"

definition graph_tally_rpc_api_versions_info :: api_versions_info where
  "graph_tally_rpc_api_versions_info =
     \<lparr>versions_supported = [V0_0], versions_deprecated = api_versions_deprecated\<rparr>"

datatype json_rpc_error_code = GenericError | InvalidVersion | Aggregation

fun error_code :: "json_rpc_error_code \<Rightarrow> int" where
  "error_code GenericError = - 32000"
| "error_code InvalidVersion = - 32001"
| "error_code Aggregation = - 32002"

datatype json_rpc_warning_code = GenericWarning | DeprecatedVersion

fun warning_code :: "json_rpc_warning_code \<Rightarrow> int" where
  "warning_code GenericWarning = - 32050"
| "warning_code DeprecatedVersion = - 32051"

record json_rpc_warning =
  jw_code :: int
  jw_message :: string
  jw_data :: "api_versions_info option"

text \<open>\<open>serde_json::to_value\<close> succeeds on the data that the code passes, a plain struct.\<close>

definition json_rpc_warning_new :: "int \<Rightarrow> string \<Rightarrow> api_versions_info option \<Rightarrow> json_rpc_warning" where
  "json_rpc_warning_new code msg data = \<lparr>jw_code = code, jw_message = msg, jw_data = data\<rparr>"

record 'a json_rpc_response =
  jr_data :: 'a
  jr_warnings :: "json_rpc_warning list option"

definition json_rpc_ok :: "'a \<Rightarrow> 'a json_rpc_response" where
  "json_rpc_ok data = \<lparr>jr_data = data, jr_warnings = None\<rparr>"

definition json_rpc_warn :: "'a \<Rightarrow> json_rpc_warning list \<Rightarrow> 'a json_rpc_response" where
  "json_rpc_warn data warnings =
     \<lparr>jr_data = data, jr_warnings = (if warnings = [] then None else Some warnings)\<rparr>"

record json_rpc_error =
  je_code :: int
  je_message :: string
  je_data :: "api_versions_info option"

section \<open>The state of the service\<close>

record metrics =
  aggregation_success_count :: u64
  aggregation_failure_count :: u64
  deprecation_warning_count :: u64
  version_error_count :: u64
  total_aggregated_receipts :: u64
  total_grt_aggregated :: f64
  kafka_publish_success_total :: u64
  kafka_publish_failure_total :: u64

record kafka_record =
  kr_topic :: string
  kr_key :: string
  kr_payload :: string

text \<open>\<open>published\<close> are the records that the producer accepted, in order.\<close>

record service =
  sv_metrics :: metrics
  published :: "kafka_record list"

text \<open>\<open>kafka_send\<close> is the producer's answer to a record: its queue may be full.\<close>

record 'k rpc_impl =
  rpc_signers :: "'k signer_registry"
  rpc_domain_separator :: eip712_domain
  rpc_kafka :: "(kafka_record \<Rightarrow> string + unit) option"

definition produce_kafka_records ::
    "(kafka_record \<Rightarrow> string + unit) \<Rightarrow> string \<Rightarrow> string \<Rightarrow> u128 \<Rightarrow> service \<Rightarrow> service" where
  "produce_kafka_records kafka_send sender key_fragment aggregated_value sv =
     (let topic = ''gateway_ravs'';
          key = sender @ '':'' @ key_fragment;
          payload = show_word aggregated_value;
          rec = \<lparr>kr_topic = topic, kr_key = key, kr_payload = payload\<rparr>;
          m = sv_metrics sv in
      case kafka_send rec of
        Inr _ \<Rightarrow> sv\<lparr>published := published sv @ [rec],
                   sv_metrics := m\<lparr>kafka_publish_success_total := kafka_publish_success_total m + 1\<rparr>\<rparr>
      | Inl _ \<Rightarrow> sv\<lparr>sv_metrics := m\<lparr>kafka_publish_failure_total := kafka_publish_failure_total m + 1\<rparr>\<rparr>)"

text \<open>The block that every handler runs on success: the three counters and the Kafka record.\<close>

definition count_success :: "u128 \<Rightarrow> u64 \<Rightarrow> metrics \<Rightarrow> metrics" where
  "count_success receipts_grt receipts_count m =
     m\<lparr>total_grt_aggregated := f64_add (total_grt_aggregated m) (u128_as_f64 receipts_grt),
       total_aggregated_receipts := total_aggregated_receipts m + receipts_count,
       aggregation_success_count := aggregation_success_count m + 1\<rparr>"

definition count_failure :: "metrics \<Rightarrow> metrics" where
  "count_failure m = m\<lparr>aggregation_failure_count := aggregation_failure_count m + 1\<rparr>"

definition after_success ::
    "alloy_fmt \<Rightarrow> 'k rpc_impl \<Rightarrow> rav \<Rightarrow> u128 \<Rightarrow> u64 \<Rightarrow> service \<Rightarrow> service" where
  "after_success F impl v receipts_grt receipts_count sv =
     (let sv' = sv\<lparr>sv_metrics := count_success receipts_grt receipts_count (sv_metrics sv)\<rparr> in
      case rpc_kafka impl of
        Some kafka \<Rightarrow> produce_kafka_records kafka (fmt_address_debug F (rav_payer v))
          (fmt_b256_debug F (rav_collectionId v)) (rav_valueAggregate v) sv'
      | None \<Rightarrow> sv')"

definition after_failure :: "service \<Rightarrow> service" where
  "after_failure sv = sv\<lparr>sv_metrics := count_failure (sv_metrics sv)\<rparr>"

text \<open>\<open>iter().map(value).sum()\<close> wraps in a release build.\<close>

definition receipts_grt :: "'sg signed_receipt list \<Rightarrow> u128" where
  "receipts_grt receipts = sum_list (map (\<lambda>r. rcpt_value (message r)) receipts)"

definition receipts_count :: "'sg signed_receipt list \<Rightarrow> u64" where
  "receipts_count receipts = of_nat (length receipts)"

section \<open>JSON-RPC\<close>

definition parse_api_version :: "string \<Rightarrow> json_rpc_error + api_version" where
  "parse_api_version v =
     map_err (\<lambda>_. \<lparr>je_code = error_code InvalidVersion,
                   je_message = ''Unsupported API version: '' @ [CHR 0x22] @ v @ [CHR 0x22] @ ''.'',
                   je_data = Some graph_tally_rpc_api_versions_info\<rparr>)
       (api_version_from_str v)"

definition check_api_version_deprecation :: "api_version \<Rightarrow> json_rpc_warning option" where
  "check_api_version_deprecation v =
     (if v \<in> set api_versions_deprecated
      then Some (json_rpc_warning_new (warning_code DeprecatedVersion)
             (''The API version '' @ api_version_to_string v @ '' will be deprecated. Please check ''
                @ ''https://github.com/graphprotocol/timeline_aggregation_protocol for more information.'')
             (Some graph_tally_rpc_api_versions_info))
      else None)"

definition aggregate_receipts_rpc ::
    "('sg, 'k) graph_lib \<Rightarrow> alloy_fmt \<Rightarrow> string \<Rightarrow> 'k signer_registry \<Rightarrow> eip712_domain
       \<Rightarrow> 'sg signed_receipt list \<Rightarrow> 'sg signed_rav option \<Rightarrow> metrics
       \<Rightarrow> (json_rpc_error + 'sg signed_rav json_rpc_response) \<times> metrics" where
  "aggregate_receipts_rpc L F api_version signers domain_separator receipts previous_rav m =
     (case parse_api_version api_version of
        Inl e \<Rightarrow> (Inl e, m\<lparr>version_error_count := version_error_count m + 1\<rparr>)
      | Inr v \<Rightarrow>
          (let (warnings, m) =
                 (case check_api_version_deprecation v of
                    Some w \<Rightarrow> ([w], m\<lparr>deprecation_warning_count := deprecation_warning_count m + 1\<rparr>)
                  | None \<Rightarrow> ([], m)) in
           if receipts = []
           then (Inl \<lparr>je_code = error_code Aggregation,
                      je_message = ''Cannot aggregate empty receipt batch'', je_data = None\<rparr>, m)
           else
             (case check_and_aggregate_receipts L domain_separator receipts previous_rav signers of
                Inr res \<Rightarrow> (Inr (json_rpc_warn res warnings), m)
              | Inl e \<Rightarrow> (Inl \<lparr>je_code = error_code Aggregation,
                                je_message = aggregator_error_to_string F e, je_data = None\<rparr>, m))))"

definition rpc_api_versions :: "json_rpc_error + api_versions_info json_rpc_response" where
  "rpc_api_versions = Inr (json_rpc_ok graph_tally_rpc_api_versions_info)"

definition rpc_eip712_domain_info :: "'k rpc_impl \<Rightarrow> json_rpc_error + eip712_domain json_rpc_response" where
  "rpc_eip712_domain_info impl = Inr (json_rpc_ok (rpc_domain_separator impl))"

definition rpc_aggregate_receipts ::
    "('sg, 'k) graph_lib \<Rightarrow> alloy_fmt \<Rightarrow> 'k rpc_impl \<Rightarrow> string \<Rightarrow> 'sg signed_receipt list
       \<Rightarrow> 'sg signed_rav option \<Rightarrow> service
       \<Rightarrow> (json_rpc_error + 'sg signed_rav json_rpc_response) \<times> service" where
  "rpc_aggregate_receipts L F impl api_version receipts previous_rav sv =
     (let grt = receipts_grt receipts; count = receipts_count receipts;
          (result, m) = aggregate_receipts_rpc L F api_version (rpc_signers impl)
             (rpc_domain_separator impl) receipts previous_rav (sv_metrics sv);
          sv = sv\<lparr>sv_metrics := m\<rparr> in
      case result of
        Inr res \<Rightarrow> (Inr res, after_success F impl (message (jr_data res)) grt count sv)
      | Inl e \<Rightarrow> (Inl e, after_failure sv))"

section \<open>gRPC\<close>

datatype grpc_status = InvalidArgument string | FailedPrecondition string

definition grpc_aggregate_receipts ::
    "('sg, 'k) graph_lib \<Rightarrow> alloy_fmt \<Rightarrow> 'k rpc_impl \<Rightarrow> pb_rav_request \<Rightarrow> service
       \<Rightarrow> (grpc_status + pb_rav_response) \<times> service" where
  "grpc_aggregate_receipts L F impl request sv =
     (case collect_results (signed_receipt_try_from_pb (lib_crypto L)) (pbq_receipts request) of
        Inl _ \<Rightarrow> (Inl (InvalidArgument ''Error while getting list of signed_receipts''), sv)
      | Inr receipts \<Rightarrow>
          (case transpose_map (signed_rav_try_from_pb (lib_crypto L)) (pbq_previous_rav request) of
             Inl _ \<Rightarrow> (Inl (InvalidArgument ''Error while getting previous rav''), sv)
           | Inr previous_rav \<Rightarrow>
               (let grt = receipts_grt receipts; count = receipts_count receipts in
                case check_and_aggregate_receipts L (rpc_domain_separator impl) receipts previous_rav
                       (rpc_signers impl) of
                  Inr res \<Rightarrow>
                    (Inr \<lparr>pbp_rav = Some (pb_from_signed_rav (lib_crypto L) res)\<rparr>,
                     after_success F impl (message res) grt count sv)
                | Inl e \<Rightarrow>
                    (Inl (FailedPrecondition (aggregator_error_to_string F e)), after_failure sv))))"

definition v2_aggregate_receipts ::
    "('sg, 'k) graph_lib \<Rightarrow> alloy_fmt \<Rightarrow> 'k rpc_impl \<Rightarrow> v2_rav_request \<Rightarrow> service
       \<Rightarrow> (grpc_status + v2_rav_response) \<times> service" where
  "v2_aggregate_receipts L F impl request sv =
     (case collect_results (signed_receipt_try_from_v2 (lib_crypto L)) (v2q_receipts request) of
        Inl _ \<Rightarrow> (Inl (InvalidArgument ''Error while getting list of signed_receipts''), sv)
      | Inr receipts \<Rightarrow>
          (case transpose_map (signed_rav_try_from_v2 (lib_crypto L)) (v2q_previous_rav request) of
             Inl _ \<Rightarrow> (Inl (InvalidArgument ''Error while getting previous rav''), sv)
           | Inr previous_rav \<Rightarrow>
               (let grt = receipts_grt receipts; count = receipts_count receipts in
                case check_and_aggregate_receipts L (rpc_domain_separator impl) receipts previous_rav
                       (rpc_signers impl) of
                  Inr res \<Rightarrow>
                    (Inr \<lparr>v2p_rav = Some (v2_from_signed_rav (lib_crypto L) res)\<rparr>,
                     after_success F impl (message res) grt count sv)
                | Inl e \<Rightarrow>
                    (Inl (FailedPrecondition (aggregator_error_to_string F e)), after_failure sv))))"

section \<open>Routing\<close>

text \<open>The index of the service that a request goes to, by its content type: 1 is gRPC, 0 JSON-RPC.\<close>

definition route_index :: "byte list option \<Rightarrow> nat" where
  "route_index content_type =
     (case content_type of
        Some ct \<Rightarrow>
          if take 16 ct = map (\<lambda>c. of_nat (of_char c)) ''application/grpc'' then 1 else 0
      | None \<Rightarrow> 0)"

definition handle_anyhow_error :: "string \<Rightarrow> nat \<times> string" where
  "handle_anyhow_error err = (500, ''Something went wrong: '' @ err)"

section \<open>Lemmas\<close>

lemma api_version_roundtrip: "api_version_deserialize (api_version_serialize v) = Inr v"
  by (cases v) (simp add: api_version_deserialize_def api_version_serialize_def api_version_from_str_def)

lemma api_version_canonical:
  assumes "api_version_deserialize s = Inr v"
  shows "api_version_serialize v = s"
  using assms by (cases v)
    (simp add: api_version_deserialize_def api_version_serialize_def api_version_from_str_def
      split: if_splits)

interpretation api_version: canonical_codec api_version_serialize api_version_deserialize
  by unfold_locales (simp_all add: api_version_roundtrip api_version_canonical)

lemma no_deprecation [simp]: "check_api_version_deprecation v = None"
  by (simp add: check_api_version_deprecation_def api_versions_deprecated_def)

lemma parse_api_version_Inr_iff: "parse_api_version s = Inr v \<longleftrightarrow> s = ''0.0''"
  by (cases v) (auto simp: parse_api_version_def api_version_from_str_def)

lemma produce_kafka_records_cases:
  "produce_kafka_records snd' sender frag val sv =
     (let rec = \<lparr>kr_topic = ''gateway_ravs'', kr_key = sender @ '':'' @ frag, kr_payload = show_word val\<rparr> in
      if is_ok (snd' rec)
      then sv\<lparr>published := published sv @ [rec], sv_metrics := (sv_metrics sv)
             \<lparr>kafka_publish_success_total := kafka_publish_success_total (sv_metrics sv) + 1\<rparr>\<rparr>
      else sv\<lparr>sv_metrics := (sv_metrics sv)
             \<lparr>kafka_publish_failure_total := kafka_publish_failure_total (sv_metrics sv) + 1\<rparr>\<rparr>)"
  by (auto simp: produce_kafka_records_def Let_def is_ok_def split: sum.split)

text \<open>What success changes, whatever Kafka answers.\<close>

lemma after_success_metrics:
  "aggregation_success_count (sv_metrics (after_success F impl v g n sv)) =
     aggregation_success_count (sv_metrics sv) + 1"
  "aggregation_failure_count (sv_metrics (after_success F impl v g n sv)) =
     aggregation_failure_count (sv_metrics sv)"
  "total_aggregated_receipts (sv_metrics (after_success F impl v g n sv)) =
     total_aggregated_receipts (sv_metrics sv) + n"
  by (auto simp: after_success_def count_success_def produce_kafka_records_cases Let_def split: option.split)

lemma after_success_published:
  "published (after_success F impl v g n sv) = published sv @
     (case rpc_kafka impl of None \<Rightarrow> []
      | Some send \<Rightarrow>
          (let rec = \<lparr>kr_topic = ''gateway_ravs'',
             kr_key = fmt_address_debug F (rav_payer v) @ '':'' @ fmt_b256_debug F (rav_collectionId v),
             kr_payload = show_word (rav_valueAggregate v)\<rparr> in if is_ok (send rec) then [rec] else []))"
  by (auto simp: after_success_def count_success_def produce_kafka_records_cases Let_def split: option.split)

lemma after_failure_metrics:
  "aggregation_success_count (sv_metrics (after_failure sv)) = aggregation_success_count (sv_metrics sv)"
  "aggregation_failure_count (sv_metrics (after_failure sv)) = aggregation_failure_count (sv_metrics sv) + 1"
  "published (after_failure sv) = published sv"
  by (simp_all add: after_failure_def count_failure_def)

lemma aggregate_receipts_rpc_cases:
  "aggregate_receipts_rpc L F s signers d rs prev m =
     (if s \<noteq> ''0.0'' then
        (Inl \<lparr>je_code = - 32001, je_message = ''Unsupported API version: '' @ [CHR 0x22] @ s @ [CHR 0x22] @ ''.'',
              je_data = Some graph_tally_rpc_api_versions_info\<rparr>,
         m\<lparr>version_error_count := version_error_count m + 1\<rparr>)
      else if rs = [] then
        (Inl \<lparr>je_code = - 32002, je_message = ''Cannot aggregate empty receipt batch'', je_data = None\<rparr>, m)
      else
        (map_err (\<lambda>e. \<lparr>je_code = - 32002, je_message = aggregator_error_to_string F e, je_data = None\<rparr>)
           (rbind (check_and_aggregate_receipts L d rs prev signers)
              (\<lambda>sm. Inr \<lparr>jr_data = sm, jr_warnings = None\<rparr>)), m))"
proof (cases "s = ''0.0''")
  case False
  then show ?thesis by (simp add: aggregate_receipts_rpc_def parse_api_version_def api_version_from_str_def)
next
  case True
  then have "parse_api_version s = Inr V0_0" by (simp add: parse_api_version_Inr_iff)
  with True show ?thesis
    by (cases "check_and_aggregate_receipts L d rs prev signers")
       (simp_all add: aggregate_receipts_rpc_def json_rpc_warn_def)
qed

text \<open>The legacy service is the current one, up to the types of the messages.\<close>

lemma v2_agrees_upgrade:
  "apfst (\<lambda>r. case r of Inl e \<Rightarrow> Inl e | Inr p \<Rightarrow> Inr (upgrade_response p))
     (v2_aggregate_receipts L F impl request sv) =
   grpc_aggregate_receipts L F impl (upgrade_request request) sv"
  by (auto simp: v2_aggregate_receipts_def grpc_aggregate_receipts_def upgrade_request_def
      collect_results_upgrade transpose_map_upgrade upgrade_response_def upgrade_v2_from_signed_rav
      Let_def split: sum.split)

end
