(* ===== verification/Routing.thy ===== *)
theory Routing
  imports Server
begin

text \<open>
  How \<open>run_server\<close> (\<open>crates/bin/aggregator/src/server.rs\<close>) builds the JSON-RPC and gRPC
  services and their two routers, and picks a router for a request. The router libraries \<open>axum\<close> and
  \<open>tonic\<close> are the record \<open>router_ops\<close>; \<open>router_law\<close> states what their documentation says of the
  routes and their layers. Binding the port is an argument; serving and shutting down are not modelled.
\<close>

section \<open>The services\<close>

record server_config =
  sc_max_request_body_size :: u32
  sc_max_response_body_size :: u32
  sc_max_connections :: u32
  sc_http_only :: bool

datatype grpc_interface = LegacyTapAggregator | GraphTallyAggregator

text \<open>A gRPC service has its interface and whether it accepts requests that are compressed by zstd. A
  \<open>PostService\<close> offers a service to POST requests only, and answers a failure of it with status 500.\<close>

datatype 'k endpoint =
    JsonRpcService "'k rpc_impl" server_config
  | GrpcService grpc_interface "'k rpc_impl" bool
  | PostService "'k endpoint"

datatype layer = TimeoutLayer u64 | ConcurrencyLimitLayer u32

definition create_json_rpc_service ::
    "'k rpc_impl \<Rightarrow> u32 \<Rightarrow> u32 \<Rightarrow> u32 \<Rightarrow> string + 'k endpoint" where
  "create_json_rpc_service impl max_request_body_size max_response_body_size max_concurrent_connections =
     Inr (JsonRpcService impl
       \<lparr>sc_max_request_body_size = max_request_body_size,
        sc_max_response_body_size = max_response_body_size,
        sc_max_connections = max_concurrent_connections, sc_http_only = True\<rparr>)"

section \<open>The router libraries\<close>

record ('r, 'k) router_ops =
  router_new :: 'r
  route_service :: "string \<Rightarrow> 'k endpoint \<Rightarrow> 'r \<Rightarrow> 'r"
  router_layer :: "layer \<Rightarrow> 'r \<Rightarrow> 'r"
  router_merge :: "'r \<Rightarrow> 'r \<Rightarrow> 'r"
  grpc_routes_new :: "'k endpoint \<Rightarrow> 'r"
  grpc_add_service :: "'k endpoint \<Rightarrow> 'r \<Rightarrow> 'r"

type_synonym 'k route = "string \<times> 'k endpoint \<times> layer list"

text \<open>\<open>routes\<close> are the endpoints by path with their layers, the outermost first. A layer wraps the
  routes that the router already has, a merge keeps the routes of both as they are, and a gRPC service
  is routed by the name of its interface.\<close>

definition router_law :: "('r, 'k) router_ops \<Rightarrow> (grpc_interface \<Rightarrow> string) \<Rightarrow> ('r \<Rightarrow> 'k route set) \<Rightarrow> bool" where
  "router_law A grpc_path routes \<longleftrightarrow>
     routes (router_new A) = {} \<and>
     (\<forall>path e r. routes (route_service A path e r) = insert (path, e, []) (routes r)) \<and>
     (\<forall>l r. routes (router_layer A l r) = (\<lambda>(path, e, ls). (path, e, l # ls)) ` routes r) \<and>
     (\<forall>r s. routes (router_merge A r s) = routes r \<union> routes s) \<and>
     (\<forall>i impl z. routes (grpc_routes_new A (GrpcService i impl z)) = {(grpc_path i, GrpcService i impl z, [])}) \<and>
     (\<forall>i impl z r. routes (grpc_add_service A (GrpcService i impl z) r) =
        insert (grpc_path i, GrpcService i impl z, []) (routes r))"

section \<open>The routers of the service\<close>

definition json_rpc_router :: "('r, 'k) router_ops \<Rightarrow> 'k endpoint \<Rightarrow> u64 \<Rightarrow> 'r" where
  "json_rpc_router A json_rpc_service request_timeout =
     router_layer A (TimeoutLayer request_timeout)
       (route_service A ''/'' (PostService json_rpc_service) (router_new A))"

definition create_grpc_service :: "('r, 'k) router_ops \<Rightarrow> 'k rpc_impl \<Rightarrow> string + 'r" where
  "create_grpc_service A impl =
     (let legacy_service = GrpcService LegacyTapAggregator impl True;
          new_service = GrpcService GraphTallyAggregator impl True in
      Inr (grpc_add_service A new_service (grpc_routes_new A legacy_service)))"

definition grpc_router :: "('r, 'k) router_ops \<Rightarrow> u32 \<Rightarrow> u64 \<Rightarrow> 'r \<Rightarrow> 'r" where
  "grpc_router A max_concurrent_connections request_timeout grpc_service =
     router_merge A
       (router_layer A (TimeoutLayer request_timeout)
         (router_layer A (ConcurrencyLimitLayer max_concurrent_connections) (router_new A)))
       grpc_service"

text \<open>The router that a request is steered to.\<close>

definition steer :: "'r list \<Rightarrow> byte list option \<Rightarrow> 'r" where
  "steer routers content_type = routers ! route_index content_type"

record 'r running_server =
  rs_routers :: "'r list"
  rs_addr :: string

text \<open>\<open>bind\<close> is the listener on an address, \<open>local_addr\<close> the address of a listener; the process
  panics when the port cannot be bound.\<close>

definition run_server ::
    "('r, 'k) router_ops \<Rightarrow> (string \<Rightarrow> string + 'l) \<Rightarrow> ('l \<Rightarrow> string + string) \<Rightarrow> u16
       \<Rightarrow> 'k signer_registry \<Rightarrow> eip712_domain \<Rightarrow> u32 \<Rightarrow> u32 \<Rightarrow> u32 \<Rightarrow> u64
       \<Rightarrow> (kafka_record \<Rightarrow> string + unit) option \<Rightarrow> (string + 'r running_server) outcome" where
  "run_server A bind local_addr port signers domain_separator max_request_body_size max_response_body_size
       max_concurrent_connections request_timeout kafka =
     (let rpc_impl = \<lparr>rpc_signers = signers, rpc_domain_separator = domain_separator, rpc_kafka = kafka\<rparr> in
      case create_json_rpc_service rpc_impl max_request_body_size max_response_body_size
             max_concurrent_connections of
        Inl e \<Rightarrow> Returned (Inl e)
      | Inr json_rpc_service \<Rightarrow>
          (let json_rpc_router = json_rpc_router A json_rpc_service request_timeout in
           case create_grpc_service A rpc_impl of
             Inl e \<Rightarrow> Returned (Inl e)
           | Inr grpc_service \<Rightarrow>
               (let grpc_router = grpc_router A max_concurrent_connections request_timeout grpc_service;
                    service = [json_rpc_router, grpc_router] in
                case bind (''0.0.0.0:'' @ show_nat (unat port)) of
                  Inl _ \<Rightarrow> Panicked
                | Inr listener \<Rightarrow>
                    Returned (rbind (local_addr listener) (\<lambda>addr.
                      Inr \<lparr>rs_routers = service, rs_addr = addr\<rparr>)))))"

section \<open>Lemmas\<close>

definition list_routers :: "(grpc_interface \<Rightarrow> string) \<Rightarrow> ('k route list, 'k) router_ops" where
  "list_routers grpc_path =
     \<lparr>router_new = [], route_service = (\<lambda>path e r. (path, e, []) # r),
      router_layer = (\<lambda>l. map (\<lambda>(path, e, ls). (path, e, l # ls))), router_merge = (@),
      grpc_routes_new = (\<lambda>e. case e of GrpcService i impl z \<Rightarrow> [(grpc_path i, e, [])] | _ \<Rightarrow> []),
      grpc_add_service = (\<lambda>e r. case e of GrpcService i impl z \<Rightarrow> (grpc_path i, e, []) # r | _ \<Rightarrow> r)\<rparr>"

lemma list_routers_law: "router_law (list_routers grpc_path) grpc_path set"
  by (simp add: router_law_def list_routers_def)

lemma json_rpc_router_routes:
  "router_law A grpc_path routes \<Longrightarrow> routes (json_rpc_router A e t) = {(''/'', PostService e, [TimeoutLayer t])}"
  by (simp add: router_law_def json_rpc_router_def)

lemma grpc_router_routes:
  "router_law A grpc_path routes \<Longrightarrow> routes (grpc_router A n t grpc) = routes grpc"
  by (simp add: router_law_def grpc_router_def)

lemma grpc_service_routes:
  "router_law A grpc_path routes \<Longrightarrow> create_grpc_service A impl = Inr grpc \<Longrightarrow>
     routes grpc = {(grpc_path i, GrpcService i impl True, []) | i. True}"
proof -
  assume law: "router_law A grpc_path routes" and grpc: "create_grpc_service A impl = Inr grpc"
  have ex: "(\<exists>i. P i) \<longleftrightarrow> P GraphTallyAggregator \<or> P LegacyTapAggregator" for P
    by (metis grpc_interface.exhaust)
  have "{(grpc_path i, GrpcService i impl True, [] :: layer list) | i. True} =
      {(grpc_path GraphTallyAggregator, GrpcService GraphTallyAggregator impl True, []),
       (grpc_path LegacyTapAggregator, GrpcService LegacyTapAggregator impl True, [])}"
    by (auto simp: ex)
  with law grpc show ?thesis by (auto simp: router_law_def create_grpc_service_def Let_def)
qed

lemma route_index_cases:
  "route_index ct = (if \<exists>bytes. ct = Some bytes \<and> take 16 bytes = map (\<lambda>c. of_nat (of_char c)) ''application/grpc''
     then 1 else 0)"
  by (auto simp: route_index_def split: option.split)

text \<open>Only the port can fail.\<close>

lemma run_server_starts:
  assumes "bind (''0.0.0.0:'' @ show_nat (unat port)) = Inr listener"
  shows "\<exists>grpc. create_grpc_service A \<lparr>rpc_signers = signers, rpc_domain_separator = d, rpc_kafka = kafka\<rparr> = Inr grpc \<and>
    run_server A bind local_addr port signers d req resp n t kafka =
    Returned (rbind (local_addr listener) (\<lambda>addr. Inr \<lparr>rs_routers =
      [json_rpc_router A (JsonRpcService \<lparr>rpc_signers = signers, rpc_domain_separator = d, rpc_kafka = kafka\<rparr>
         \<lparr>sc_max_request_body_size = req, sc_max_response_body_size = resp, sc_max_connections = n, sc_http_only = True\<rparr>) t,
       grpc_router A n t grpc], rs_addr = addr\<rparr>))"
  by (simp add: run_server_def create_json_rpc_service_def create_grpc_service_def assms [simplified] Let_def)

end
