(* ===== verification/AggregatorMain.thy ===== *)
theory AggregatorMain
  imports Routing
begin

text \<open>
  The start of the aggregation service (\<open>crates/bin/aggregator/src/main.rs\<close>): the arguments and
  their defaults, the parsing of the lists of \<open>key=value\<close> pairs, the registry and the domain
  made from them. Reading the command line and the environment, and the creation of the Kafka
  producer from its settings, are libraries: the parsed arguments are the input, and
  \<open>create_producer\<close> and the parser of private keys are arguments.
\<close>

section \<open>Arguments\<close>

record args =
  arg_port :: u16
  arg_signers :: "string option"
  arg_accepted_signers :: "string option"
  arg_max_request_body_size :: u32
  arg_max_response_body_size :: u32
  arg_max_connections :: u32
  arg_request_timeout_secs :: u64
  arg_metrics_port :: u16
  arg_domain_chain_id :: "string option"
  arg_domain_verifying_contract :: "address option"
  arg_kafka_config :: "string option"

definition default_args :: args where
  "default_args =
     \<lparr>arg_port = 8080, arg_signers = None, arg_accepted_signers = None,
      arg_max_request_body_size = 10 * 1024 * 1024, arg_max_response_body_size = 100 * 1024,
      arg_max_connections = 32, arg_request_timeout_secs = 60, arg_metrics_port = 5000,
      arg_domain_chain_id = None, arg_domain_verifying_contract = None, arg_kafka_config = None\<rparr>"

text \<open>\<open>Debug\<close> for the arguments: the name and the fields handed to the formatter, in order. The
  signing keys are replaced.\<close>

datatype debug_field =
    DebugNumber nat
  | DebugText string
  | DebugOptText "string option"
  | DebugOptAddress "address option"

definition args_debug :: "args \<Rightarrow> string \<times> (string \<times> debug_field) list" where
  "args_debug a =
     (''Args'',
      [(''port'', DebugNumber (unat (arg_port a))),
       (''signers'', DebugText ''[REDACTED]''),
       (''accepted_signers'', DebugOptText (arg_accepted_signers a)),
       (''max_request_body_size'', DebugNumber (unat (arg_max_request_body_size a))),
       (''max_response_body_size'', DebugNumber (unat (arg_max_response_body_size a))),
       (''max_connections'', DebugNumber (unat (arg_max_connections a))),
       (''request_timeout_secs'', DebugNumber (unat (arg_request_timeout_secs a))),
       (''metrics_port'', DebugNumber (unat (arg_metrics_port a))),
       (''domain_chain_id'', DebugOptText (arg_domain_chain_id a)),
       (''domain_verifying_contract'', DebugOptAddress (arg_domain_verifying_contract a)),
       (''kafka_config'', DebugOptText (arg_kafka_config a))])"

section \<open>Pairs\<close>

text \<open>\<open>context\<close> and \<open>with_context\<close> wrap an error; the chain of wrappers is kept, with the
  values that the code renders in each.\<close>

datatype config_context =
    InSigners
  | InAcceptedSigners
  | SigningPayer string
  | SigningKeyOf address
  | AcceptedPayer string
  | AcceptedSignerOf address

datatype config_error =
    MalformedEntry string
  | ParseError string
  | RegistryError registry_error
  | MissingSigners
  | ParseIntError string
  | ProducerError string
  | ServerError string
  | WithContext config_context config_error

definition split_pair :: "string \<Rightarrow> config_error + (string \<times> string)" where
  "split_pair entry =
     ok_or (map_option (\<lambda>(key, value). (trim key, trim value)) (split_once (CHR ''='') entry))
       (MalformedEntry entry)"

definition pairs :: "string \<Rightarrow> config_error + (string \<times> string) list" where
  "pairs raw =
     collect_results split_pair (filter (\<lambda>entry. entry \<noteq> []) (map trim (split_char (CHR '';'') raw)))"

section \<open>The registry\<close>

definition parse_signing_pair ::
    "alloy_fmt \<Rightarrow> (string \<Rightarrow> string + 'k) \<Rightarrow> string \<times> string \<Rightarrow> config_error + (address \<times> 'k)" where
  "parse_signing_pair F parse_key = (\<lambda>(payer, key).
     rbind (map_err (\<lambda>e. WithContext (SigningPayer payer) (ParseError e))
              (parse_address F payer)) (\<lambda>payer.
     rbind (map_err (\<lambda>e. WithContext (SigningKeyOf payer) (ParseError e)) (parse_key key)) (\<lambda>key. Inr (payer, key))))"

definition parse_accepted_pair ::
    "alloy_fmt \<Rightarrow> string \<times> string \<Rightarrow> config_error + (address \<times> address)" where
  "parse_accepted_pair F = (\<lambda>(payer, signer).
     rbind (map_err (\<lambda>e. WithContext (AcceptedPayer payer) (ParseError e))
              (parse_address F payer)) (\<lambda>payer.
     rbind (map_err (\<lambda>e. WithContext (AcceptedSignerOf payer) (ParseError e))
              (parse_address F signer)) (\<lambda>signer. Inr (payer, signer))))"

definition signer_registry ::
    "('sg, 'k) crypto \<Rightarrow> alloy_fmt \<Rightarrow> (string \<Rightarrow> string + 'k) \<Rightarrow> string \<Rightarrow> string option
       \<Rightarrow> config_error + 'k signer_registry" where
  "signer_registry C F parse_key signers accepted =
     rbind (map_err (WithContext InSigners) (pairs signers)) (\<lambda>signer_pairs.
     rbind (collect_results (parse_signing_pair F parse_key) signer_pairs) (\<lambda>signing_keys.
     rbind (map_err (WithContext InAcceptedSigners) (transpose_map pairs accepted))
       (\<lambda>accepted_pairs.
     rbind (collect_results (parse_accepted_pair F)
              (case accepted_pairs of None \<Rightarrow> [] | Some ps \<Rightarrow> ps)) (\<lambda>accepted.
     map_err (\<lambda>e. WithContext InSigners (RegistryError e))
       (registry_build C signing_keys accepted)))))"

definition create_eip712_domain :: "args \<Rightarrow> config_error + eip712_domain" where
  "create_eip712_domain a =
     rbind (map_err ParseIntError (transpose_map parse_u64 (arg_domain_chain_id a))) (\<lambda>chain_id.
       Inr (graph_tally_eip712_domain
              (case chain_id of None \<Rightarrow> 1 | Some i \<Rightarrow> i)
              (case arg_domain_verifying_contract a of None \<Rightarrow> 0 | Some c \<Rightarrow> c)))"

text \<open>The settings of the Kafka client: entries with no \<open>=\<close> are skipped, and a later entry
  replaces an earlier one with the same key.\<close>

definition kafka_client_config :: "string \<Rightarrow> (string \<rightharpoonup> string)" where
  "kafka_client_config config =
     fold (\<lambda>(key, value) m. m(key \<mapsto> value))
       (List.map_filter (split_once (CHR ''='')) (split_char (CHR '';'') config)) Map.empty"

definition start_service ::
    "('sg, 'k) crypto \<Rightarrow> alloy_fmt \<Rightarrow> (string \<Rightarrow> string + 'k)
       \<Rightarrow> ((string \<rightharpoonup> string) \<Rightarrow> string + (kafka_record \<Rightarrow> string + unit))
       \<Rightarrow> args \<Rightarrow> config_error + 'k rpc_impl" where
  "start_service C F parse_key create_producer a =
     rbind (ok_or (arg_signers a) MissingSigners) (\<lambda>configured.
     rbind (signer_registry C F parse_key configured (arg_accepted_signers a)) (\<lambda>signers.
     rbind (create_eip712_domain a) (\<lambda>domain_separator.
     rbind (transpose_map (\<lambda>config. map_err ProducerError (create_producer (kafka_client_config config)))
              (arg_kafka_config a)) (\<lambda>kafka.
       Inr \<lparr>rpc_signers = signers, rpc_domain_separator = domain_separator, rpc_kafka = kafka\<rparr>))))"

text \<open>\<open>main\<close> once its arguments are parsed, up to the server that it then waits for.\<close>

definition aggregator_main ::
    "('sg, 'k) crypto \<Rightarrow> alloy_fmt \<Rightarrow> (string \<Rightarrow> string + 'k)
       \<Rightarrow> ((string \<rightharpoonup> string) \<Rightarrow> string + (kafka_record \<Rightarrow> string + unit))
       \<Rightarrow> ('r, 'k) router_ops \<Rightarrow> (string \<Rightarrow> string + 'l) \<Rightarrow> ('l \<Rightarrow> string + string)
       \<Rightarrow> args \<Rightarrow> (config_error + 'r running_server) outcome" where
  "aggregator_main C F parse_key create_producer A bind local_addr a =
     (case start_service C F parse_key create_producer a of
        Inl e \<Rightarrow> Returned (Inl e)
      | Inr impl \<Rightarrow>
          bind_outcome
            (run_server A bind local_addr (arg_port a) (rpc_signers impl) (rpc_domain_separator impl)
               (arg_max_request_body_size a) (arg_max_response_body_size a) (arg_max_connections a)
               (arg_request_timeout_secs a) (rpc_kafka impl))
            (\<lambda>started. Returned (map_err ServerError started)))"

section \<open>Lemmas\<close>

text \<open>The debug form tells two sets of arguments apart exactly by what is not the signing keys.\<close>

lemma args_debug_eq_iff:
  "args_debug a = args_debug b \<longleftrightarrow> a\<lparr>arg_signers := None\<rparr> = b\<lparr>arg_signers := None\<rparr>"
  by (cases a; cases b) (auto simp: args_debug_def word_unat_eq_iff)

lemma split_pair_Inr_iff:
  "split_pair e = Inr (k, v) \<longleftrightarrow>
     (\<exists>a b. e = a @ CHR ''='' # b \<and> CHR ''='' \<notin> set a \<and> k = trim a \<and> v = trim b)"
proof -
  have "split_pair e = Inr (k, v) \<longleftrightarrow>
      (\<exists>a b. split_once (CHR ''='') e = Some (a, b) \<and> k = trim a \<and> v = trim b)"
    by (cases "split_once (CHR ''='') e") (auto simp: split_pair_def)
  then show ?thesis by (simp only: split_once_Some_iff conj_assoc)
qed

text \<open>A list of pairs is rejected exactly when a segment that is not blank has no \<open>=\<close>.\<close>

lemma pairs_accepts_iff:
  "is_ok (pairs raw) \<longleftrightarrow>
     (\<forall>seg\<in>set (split_char (CHR '';'') raw). trim seg \<noteq> [] \<longrightarrow> CHR ''='' \<in> set (trim seg))"
proof -
  have "is_ok (split_pair e) \<longleftrightarrow> CHR ''='' \<in> set e" for e
    using split_once_None_iff [of "CHR ''=''" e]
    by (auto simp: split_pair_def is_ok_iff ok_or_def split: option.split)
  then show ?thesis
    unfolding pairs_def is_ok_iff collect_results_total by (auto simp: is_ok_iff)
qed

text \<open>The text that a list of pairs is written as.\<close>

definition render_pair :: "string \<times> string \<Rightarrow> string" where
  "render_pair = (\<lambda>(k, v). k @ CHR ''='' # v)"

fun render_pairs :: "(string \<times> string) list \<Rightarrow> string" where
  "render_pairs [] = []"
| "render_pairs (p # ps) = render_pair p @ CHR '';'' # render_pairs ps"

definition plain_text :: "string \<Rightarrow> bool" where
  "plain_text s \<longleftrightarrow> (\<forall>c\<in>set s. \<not> is_whitespace c \<and> c \<noteq> CHR '';'')"

lemma plain_text_trim: "plain_text s \<Longrightarrow> trim s = s"
  by (rule trim_id) (simp add: plain_text_def)

lemma pairs_render_pairs:
  assumes "\<forall>(k, v)\<in>set ps. plain_text k \<and> plain_text v \<and> CHR ''='' \<notin> set k"
  shows "pairs (render_pairs ps) = Inr ps"
proof -
  have split: "split_char (CHR '';'') (render_pairs ps) = map render_pair ps @ [[]]"
    using assms
  proof (induction ps)
    case Nil
    then show ?case by simp
  next
    case (Cons p ps)
    obtain k v where p: "p = (k, v)" by (cases p)
    with Cons.prems have "CHR '';'' \<notin> set (render_pair p)"
      by (auto simp: render_pair_def plain_text_def)
    with Cons show ?case by (simp add: split_char_append)
  qed
  have "trim (render_pair p) = render_pair p \<and> render_pair p \<noteq> [] \<and> split_pair (render_pair p) = Inr p"
    if "p \<in> set ps" for p
  proof -
    obtain k v where p: "p = (k, v)" by (cases p)
    with assms that have kv: "plain_text k" "plain_text v" "CHR ''='' \<notin> set k" by auto
    then have "plain_text (render_pair p)" by (auto simp: p render_pair_def plain_text_def is_whitespace_def)
    with kv show ?thesis
      by (simp add: plain_text_trim) (auto simp: p render_pair_def split_pair_def split_once_append plain_text_trim)
  qed
  then have "map trim (map render_pair ps) = map render_pair ps"
    and "filter (\<lambda>e. e \<noteq> []) (map render_pair ps) = map render_pair ps"
    and "collect_results split_pair (map render_pair ps) = Inr ps"
    by (auto simp: filter_id_conv intro: collect_results_map)
  moreover have "trim [] = []" by (simp add: trim_def)
  ultimately show ?thesis unfolding pairs_def split by (simp del: map_map)
qed

lemma kafka_client_config_lookup:
  "kafka_client_config config =
     map_of (rev (List.map_filter (split_once (CHR ''='')) (split_char (CHR '';'') config)))"
proof -
  have "fold (\<lambda>(key, value) m. m(key \<mapsto> value)) ps m = m ++ map_of (rev ps)"
    for ps :: "(string \<times> string) list" and m
    by (induction ps arbitrary: m) (auto simp: map_add_def fun_eq_iff split: option.split)
  then show ?thesis by (simp add: kafka_client_config_def)
qed

end
