(* ===== verification/EscrowPlan.thy ===== *)
theory EscrowPlan
  imports F64 Text "HOL-Library.AList"
begin

text \<open>
  The decisions of the escrow manager (\<open>crates/bin/escrow_manager/src/main.rs\<close>, lines 34 to 73
  and 486 to 617, and the account of \<open>subgraphs.rs\<close>): the validation of its settings, the target
  balance of a receiver, the action to take for one, and the scaling down of a cycle's deposits.

  The loops of \<open>next_balance\<close> and \<open>reduce_adjustments\<close> need not end, so they are partial:
  \<open>None\<close> stands for a loop that runs forever (or, for \<open>reduce_adjustments\<close>, the failed
  assertion). The lemmas say when they end and what they then return.
\<close>

section \<open>Constants and types\<close>

definition GRT :: u128 where "GRT = 1000000000000000000"
definition MIN_DEPOSIT :: u128 where "MIN_DEPOSIT = 2 * GRT"
definition MAX_ADJUSTMENT :: u128 where "MAX_ADJUSTMENT = 10000 * GRT"

record escrow_account =
  balance :: u128
  thawing :: u128
  thaw_end_timestamp :: u64

definition default_account :: escrow_account where
  "default_account = \<lparr>balance = 0, thawing = 0, thaw_end_timestamp = 0\<rparr>"

record reclaim =
  chain_now :: "u64 option"
  margin_bps :: u128
  min_withdraw :: u128

datatype action = NoAction | Withdraw | Deposit u128 | Thaw u128

section \<open>Settings\<close>

text \<open>The two \<open>ensure!\<close> pairs at the start of \<open>main\<close>; the errors are named after them.\<close>

datatype settings_error =
    BalanceFillFactorOutOfRange f64
  | WithdrawMarginNegative f64
  | WithdrawMarginTooLarge f64

definition check_settings :: "f64 \<Rightarrow> f64 \<Rightarrow> settings_error + unit" where
  "check_settings balance_fill_factor withdraw_margin =
     (if \<not> (f64_lt (Fin 0) balance_fill_factor \<and> f64_le balance_fill_factor (Fin 1))
      then Inl (BalanceFillFactorOutOfRange balance_fill_factor)
      else if \<not> (f64_is_finite withdraw_margin \<and> f64_le (Fin 0) withdraw_margin)
      then Inl (WithdrawMarginNegative withdraw_margin)
      else if \<not> f64_le withdraw_margin (Fin 1)
      then Inl (WithdrawMarginTooLarge withdraw_margin)
      else Inr ())"

definition withdraw_margin_bps :: "f64 \<Rightarrow> u128" where
  "withdraw_margin_bps withdraw_margin =
     f64_as_uint (f64_round (f64_mul withdraw_margin (Fin 10000)))"

definition min_withdraw_of :: "u64 \<Rightarrow> u128" where
  "min_withdraw_of min_withdraw_grt = ucast min_withdraw_grt * GRT"

section \<open>Target balance\<close>

partial_function (option) next_round_loop :: "f64 \<Rightarrow> f64 \<Rightarrow> u32 \<Rightarrow> u32 option" where
  [code]: "next_round_loop debt fill_factor next_round =
     (if f64_le (f64_mul (u128_as_f64 (ucast next_round * GRT)) fill_factor) debt
      then next_round_loop debt fill_factor
             (min (saturating_mul next_round 2) (next_round + ucast (MAX_ADJUSTMENT div GRT)))
      else Some next_round)"

definition next_balance :: "u128 \<Rightarrow> f64 \<Rightarrow> u128 option" where
  "next_balance debt fill_factor =
     map_option (\<lambda>next_round. ucast next_round * GRT)
       (next_round_loop (u128_as_f64 debt) fill_factor (ucast (MIN_DEPOSIT div GRT)))"

section \<open>Decisions\<close>

text \<open>\<open>debts.values().any(|debt| *debt > 0)\<close>\<close>

definition debt_ready :: "(address \<times> u128) list \<Rightarrow> bool" where
  "debt_ready debts = list_ex (\<lambda>(_, debt). 0 < debt) debts"

definition matured :: "escrow_account \<Rightarrow> reclaim option \<Rightarrow> bool" where
  "matured account reclaim =
     (thaw_end_timestamp account \<noteq> 0 \<and> 0 < thawing account \<and>
      (case Option.bind reclaim chain_now of
         Some now \<Rightarrow> thaw_end_timestamp account < now
       | None \<Rightarrow> False))"

definition decide :: "escrow_account \<Rightarrow> u128 \<Rightarrow> reclaim option \<Rightarrow> action" where
  "decide account target reclaim =
     (if matured account reclaim then Withdraw
      else
        let effective_balance = saturating_sub (balance account) (thawing account);
            deposit = saturating_sub target effective_balance in
        if 0 < deposit then Deposit deposit
        else case reclaim of
          None \<Rightarrow> NoAction
        | Some r \<Rightarrow>
            if 0 < thawing account then NoAction
            else
              let floor = target + (target div 10000) * margin_bps r;
                  excess = saturating_sub (balance account) floor in
              if 0 < excess \<and> min_withdraw r \<le> excess then Thaw excess else NoAction)"

section \<open>Scaling down deposits\<close>

text \<open>A \<open>BTreeMap\<close> collected from pairs: sorted by key, the last value of a key.\<close>

definition btree_from_iter :: "('k::linorder \<times> 'v) list \<Rightarrow> ('k \<times> 'v) list" where
  "btree_from_iter xs =
     map (\<lambda>k. (k, the (map_of (rev xs) k))) (sorted_list_of_set (fst ` set xs))"

definition btree_sum :: "(address \<times> u128) list \<Rightarrow> u128" where
  "btree_sum xs = sum_list (map snd xs)"

text \<open>One run of the inner \<open>for\<close>: \<open>Inl\<close> when it returns from the function.\<close>

fun reduce_pass ::
    "(address \<times> u128) list \<Rightarrow> (address \<times> u128) list
       \<Rightarrow> (address \<times> u128) list + (address \<times> u128) list" where
  "reduce_pass [] adjustments = Inr adjustments"
| "reduce_pass ((receiver, desired_value) # desired) adjustments =
     (let adjustment_value = (case map_of adjustments receiver of Some v \<Rightarrow> v | None \<Rightarrow> 0);
          new_value = (if adjustment_value < desired_value
                       then min desired_value (adjustment_value + 100 * GRT) else adjustment_value);
          adjustments' = AList.update receiver new_value adjustments in
      if MAX_ADJUSTMENT \<le> btree_sum adjustments' then Inl adjustments'
      else reduce_pass desired adjustments')"

partial_function (option) reduce_loop ::
    "(address \<times> u128) list \<Rightarrow> (address \<times> u128) list \<Rightarrow> (address \<times> u128) list option" where
  [code]: "reduce_loop desired adjustments =
     (case reduce_pass desired adjustments of
        Inl result \<Rightarrow> Some result
      | Inr adjustments' \<Rightarrow> reduce_loop desired adjustments')"

definition reduce_adjustments :: "(address \<times> u128) list \<Rightarrow> (address \<times> u128) list option" where
  "reduce_adjustments adjustments =
     (let desired = btree_from_iter adjustments in
      if btree_sum desired \<le> MAX_ADJUSTMENT then None
      else reduce_loop desired (map (\<lambda>(r, _). (r, MIN_DEPOSIT)) desired))"

section \<open>Printing an allowance\<close>

text \<open>\<open>show_f64\<close> is the library's \<open>Display\<close> of a float; the factor is the double nearest to
  \<open>1e-18\<close>.\<close>

definition f64_1e_18 :: f64 where
  "f64_1e_18 = f64_of_rat (1 / 1000000000000000000)"

definition format_allowance :: "(f64 \<Rightarrow> string) \<Rightarrow> u128 \<Rightarrow> string" where
  "format_allowance show_f64 allowance =
     (if allowance = - 1 then ''unlimited''
      else show_f64 (f64_mul (u128_as_f64 allowance) f64_1e_18))"

section \<open>Amounts\<close>

definition wei :: int where "wei = 1000000000000000000"

lemma uint_GRT: "uint GRT = wei"
  by (simp add: GRT_def wei_def)

lemma uint_whole_grt: "uint ((ucast (n :: u32) :: u128) * GRT) = uint n * wei"
proof -
  have n: "uint n < 4294967296" using uint_bounded [of n] by simp
  then have "uint n * wei < 2 ^ 128" unfolding wei_def by simp
  moreover have "uint (ucast n :: u128) = uint n"
    using n by (simp add: unsigned_ucast_eq take_bit_int_eq_self)
  moreover have "0 \<le> uint n * wei" unfolding wei_def by simp
  ultimately show ?thesis by (simp add: uint_word_ariths uint_GRT)
qed

lemma plan_constants [simp]:
  "ucast (MAX_ADJUSTMENT div GRT) = (10000 :: u32)" "ucast (MIN_DEPOSIT div GRT) = (2 :: u32)"
  by code_simp+

section \<open>The ladder of target balances\<close>

definition ladder_step :: "u32 \<Rightarrow> u32" where
  "ladder_step n = min (saturating_mul n 2) (n + 10000)"

text \<open>The debt at which a step of \<open>n\<close> GRT is left, as the code computes it.\<close>

definition step_limit :: "rat \<Rightarrow> u32 \<Rightarrow> rat" where
  "step_limit f n = round_rat (round_rat (of_int (uint n * wei)) * f)"

text \<open>The amount that a \<open>u32\<close> of GRT stays below, which is a double.\<close>

definition cap :: rat where "cap = of_int (2 ^ 32 * wei)"

lemma round_cap: "round_rat cap = cap"
  unfolding cap_def wei_def by code_simp

lemma round_zero: "round_rat 0 = 0"
  by (simp add: round_rat_def)

lemma cap_small: "cap \<le> 2 powi 1023"
  by (simp add: cap_def wei_def power_int_def)

lemma round_grt_bounds:
  "0 \<le> round_rat (of_int (uint (n :: u32) * wei))" (is "0 \<le> round_rat ?x")
  "round_rat (of_int (uint (n :: u32) * wei)) \<le> cap"
proof -
  have n: "uint n < 4294967296" using uint_bounded [of n] by simp
  have "0 \<le> uint n * wei" and "uint n * wei \<le> 2 ^ 32 * wei" using n by (simp_all add: wei_def)
  then have "0 \<le> ?x" and "?x \<le> cap" unfolding cap_def by (simp_all only: of_int_0_le_iff of_int_le_iff)
  from round_rat_mono [OF this(1)] round_rat_mono [OF this(2)]
  show "0 \<le> round_rat ?x" and "round_rat ?x \<le> cap" by (simp_all only: round_cap round_zero)
qed

lemma step_limit_f64:
  assumes "0 \<le> f" and "f \<le> 1"
  shows "f64_mul (u128_as_f64 (ucast n * GRT)) (Fin f) = Fin (step_limit f n)"
proof -
  let ?r = "round_rat (of_int (uint n * wei))"
  have "0 \<le> ?r * f" and "?r * f \<le> ?r"
    using assms round_grt_bounds(1) [of n] by (simp_all only: mult_nonneg_nonneg mult_left_le)
  then have "\<bar>?r * f\<bar> \<le> 2 powi 1023" using round_grt_bounds(2) [of n] cap_small by linarith
  then show ?thesis
    by (simp only: u128_as_f64_Fin uint_whole_grt f64_mul.simps f64_of_rat_finite step_limit_def)
qed

lemma next_round_loop_step:
  assumes "0 \<le> f" and "f \<le> 1"
  shows "next_round_loop (Fin d) (Fin f) n =
    (if step_limit f n \<le> d then next_round_loop (Fin d) (Fin f) (ladder_step n) else Some n)"
  by (subst next_round_loop.simps) (simp add: step_limit_f64 [OF assms] ladder_step_def)

lemma step_limit_le:
  assumes "0 \<le> f" and "f \<le> 1"
  shows "0 \<le> step_limit f n" and "step_limit f n \<le> cap"
proof -
  let ?r = "round_rat (of_int (uint n * wei))"
  have "0 \<le> ?r * f" and "?r * f \<le> ?r"
    using assms round_grt_bounds(1) [of n] by (simp_all only: mult_nonneg_nonneg mult_left_le)
  then have "0 \<le> ?r * f" and "?r * f \<le> cap" using round_grt_bounds(2) [of n] by linarith+
  from round_rat_mono [OF this(1)] round_rat_mono [OF this(2)]
  show "0 \<le> step_limit f n" and "step_limit f n \<le> cap"
    by (simp_all only: step_limit_def round_cap round_zero)
qed

text \<open>A debt of \<open>2 ^ 32\<close> GRT or more is never below a step, and the loop never ends.\<close>

lemma next_round_loop_diverges:
  assumes "0 \<le> f" and "f \<le> 1" and "cap \<le> d"
  shows "next_round_loop (Fin d) (Fin f) n = None"
proof (cases "next_round_loop (Fin d) (Fin f) n")
  case (Some r)
  have "Fin d = Fin d \<longrightarrow> Fin f = Fin f \<longrightarrow> False"
  proof (rule next_round_loop.raw_induct
      [where P = "\<lambda>a b n r. a = Fin d \<longrightarrow> b = Fin f \<longrightarrow> False", OF _ Some], intro impI)
    fix loop :: "f64 \<Rightarrow> f64 \<Rightarrow> u32 \<Rightarrow> u32 option" and debt ff m s
    assume IH: "\<And>a b n r. loop a b n = Some r \<Longrightarrow> a = Fin d \<longrightarrow> b = Fin f \<longrightarrow> False"
      and body: "(if f64_le (f64_mul (u128_as_f64 (ucast m * GRT)) ff) debt
        then loop debt ff (min (saturating_mul m 2) (m + ucast (MAX_ADJUSTMENT div GRT)))
        else Some m) = Some s"
      and eq: "debt = Fin d" "ff = Fin f"
    have "step_limit f m \<le> d" using step_limit_le [OF assms(1,2), of m] assms(3) by simp
    then have "f64_le (f64_mul (u128_as_f64 (ucast m * GRT)) ff) debt"
      by (simp add: eq step_limit_f64 [OF assms(1,2)])
    with body have "loop debt ff (min (saturating_mul m 2) (m + ucast (MAX_ADJUSTMENT div GRT))) = Some s"
      by simp
    from IH [OF this] eq show False by simp
  qed
  then show ?thesis by simp
qed simp

lemma next_balance_diverges:
  assumes "0 < f" and "f \<le> 1" and "2 ^ 32 * wei \<le> uint debt"
  shows "next_balance debt (Fin f) = None"
proof -
  have "cap \<le> of_int (uint debt)" using assms(3) unfolding cap_def by (simp only: of_int_le_iff)
  from round_rat_mono [OF this] have "cap \<le> round_rat (of_int (uint debt))" by (simp only: round_cap)
  with assms(1,2) show ?thesis
    by (simp add: next_balance_def u128_as_f64_Fin next_round_loop_diverges)
qed

subsection \<open>Termination\<close>

lemma round_rat_error:
  assumes "1 \<le> x"
  shows "x * (1 - 1 / 2 ^ 53) \<le> round_rat x" and "round_rat x \<le> x * (1 + 1 / 2 ^ 53)"
proof -
  have "round_rat x = round_positive x" using assms by (simp add: round_rat_def)
  moreover have "round_positive x - x \<le> x / 2 ^ 53" and "- (round_positive x - x) \<le> x / 2 ^ 53"
    using round_positive_error [OF assms] by (simp_all only: abs_le_iff)
  ultimately show "x * (1 - 1 / 2 ^ 53) \<le> round_rat x" and "round_rat x \<le> x * (1 + 1 / 2 ^ 53)"
    by (simp_all add: algebra_simps)
qed

lemma whole_grt_ge_one: "1 \<le> uint (n :: u32) \<Longrightarrow> (1 :: rat) \<le> of_int (uint n * wei)"
proof -
  assume "1 \<le> uint n"
  then have "1 \<le> uint n * wei" by (simp add: wei_def)
  then have "(of_int 1 :: rat) \<le> of_int (uint n * wei)" by (simp only: of_int_le_iff)
  then show ?thesis by simp
qed

text \<open>Debts up to \<open>f * 2 ^ 31\<close> GRT are below every step from \<open>3 * 2 ^ 30\<close> GRT on.\<close>

lemma step_limit_reached:
  assumes f: "1 / 2 ^ 50 \<le> f" "f \<le> 1"
    and debt: "of_int (uint (debt :: u128)) \<le> f * of_int (2 ^ 31 * wei)"
    and n: "3221225472 \<le> uint n"
  shows "round_rat (of_int (uint debt)) < step_limit f n"
proof -
  let ?z = "f * of_int (2 ^ 31 * wei)" and ?u = "1 / 2 ^ 53 :: rat"
  have "1 / 2 ^ 50 * of_int (2 ^ 31 * wei) \<le> ?z" by (rule mult_right_mono [OF f(1)]) (simp add: wei_def)
  then have z: "1 \<le> ?z" by (simp add: wei_def)
  have "round_rat (of_int (uint debt)) \<le> round_rat ?z" by (rule round_rat_mono [OF debt])
  also have "\<dots> \<le> ?z * (1 + ?u)" by (rule round_rat_error(2) [OF z])
  finally have low: "round_rat (of_int (uint debt)) \<le> ?z * (1 + ?u)" .
  let ?x = "of_int (uint n * wei) :: rat"
  have x: "of_int (3 * 2 ^ 30 * wei) \<le> ?x" using n by (simp only: of_int_le_iff) (simp add: wei_def)
  have x1: "1 \<le> ?x" using n by (intro whole_grt_ge_one) simp
  have "?x * (1 - ?u) \<le> round_rat ?x" by (rule round_rat_error(1) [OF x1])
  then have "?x * (1 - ?u) * f \<le> round_rat ?x * f" using f by (intro mult_right_mono) simp_all
  moreover have "of_int (3 * 2 ^ 30 * wei) * ((1 - ?u) * f) \<le> ?x * ((1 - ?u) * f)"
    using x f by (intro mult_right_mono) simp_all
  ultimately have y: "?z * (3 / 2 * (1 - ?u)) \<le> round_rat ?x * f" by (simp add: algebra_simps)
  then have "1 \<le> round_rat ?x * f" using z by (simp add: algebra_simps)
  from round_rat_error(1) [OF this] y
  have "?z * (3 / 2 * (1 - ?u)) * (1 - ?u) \<le> step_limit f n"
    unfolding step_limit_def by (simp add: algebra_simps)
  with low z show ?thesis by (simp add: algebra_simps)
qed

lemma ladder_step_grows:
  assumes "1 \<le> uint n" and "uint n < 3221225472"
  shows "uint n < uint (ladder_step n)" and "uint (ladder_step n) \<le> uint n + 10000"
    and "uint (ladder_step n) \<le> 2 * uint n"
proof -
  have add: "uint (n + 10000) = uint n + 10000"
    using assms by (simp add: uint_word_ariths)
  have mul: "uint n < uint (saturating_mul n 2) \<and> uint (saturating_mul n 2) \<le> 2 * uint n"
  proof (cases "uint n * 2 < 2 ^ 32")
    case True
    then have "uint (saturating_mul n 2) = uint n * 2" by (simp add: saturating_mul_def uint_word_ariths)
    with assms show ?thesis by simp
  next
    case False
    then have "uint (saturating_mul n 2) = 2 ^ 32 - 1"
      by (simp add: saturating_mul_def unsigned_minus_1_eq_mask mask_eq_exp_minus_1)
    with assms False show ?thesis by simp
  qed
  with add assms show "uint n < uint (ladder_step n)" and "uint (ladder_step n) \<le> uint n + 10000"
    and "uint (ladder_step n) \<le> 2 * uint n"
    by (auto simp: ladder_step_def min_def word_le_def)
qed

text \<open>The steps from \<open>n\<close> up to the one that is returned.\<close>

inductive climbs :: "rat \<Rightarrow> rat \<Rightarrow> u32 \<Rightarrow> u32 \<Rightarrow> bool" for f d where
  stop: "d < step_limit f n \<Longrightarrow> climbs f d n n"
| climb: "step_limit f n \<le> d \<Longrightarrow> uint n < uint (ladder_step n) \<Longrightarrow>
     uint (ladder_step n) \<le> 2 * uint n \<Longrightarrow> uint (ladder_step n) \<le> uint n + 10000 \<Longrightarrow>
     climbs f d (ladder_step n) r \<Longrightarrow> climbs f d n r"

inductive_cases climbs_elim: "climbs f d n r"

lemma climbs_loop:
  assumes "climbs f d n r" and "0 \<le> f" and "f \<le> 1"
  shows "next_round_loop (Fin d) (Fin f) n = Some r"
  using assms(1) by induction (simp_all add: next_round_loop_step [OF assms(2,3)] not_le)

lemma climbs_total:
  assumes f: "1 / 2 ^ 50 \<le> f" "f \<le> 1"
    and debt: "of_int (uint (debt :: u128)) \<le> f * of_int (2 ^ 31 * wei)"
    and n: "1 \<le> uint n"
  shows "\<exists>r. climbs f (round_rat (of_int (uint debt))) n r"
  using n
proof (induction "nat (4294967296 - uint n)" arbitrary: n rule: less_induct)
  case less
  show ?case
  proof (cases "step_limit f n \<le> round_rat (of_int (uint debt))")
    case False
    then show ?thesis by (intro exI [of _ n] climbs.stop) simp
  next
    case True
    with step_limit_reached [OF f debt, of n] have n: "uint n < 3221225472" by force
    note grow = ladder_step_grows [OF less.prems n]
    have "nat (4294967296 - uint (ladder_step n)) < nat (4294967296 - uint n)" using grow(1) n by simp
    with less.hyps grow less.prems obtain r
      where "climbs f (round_rat (of_int (uint debt))) (ladder_step n) r" by force
    with True grow show ?thesis by (blast intro: climbs.climb)
  qed
qed

lemma climbs_limit: "climbs f d n r \<Longrightarrow> d < step_limit f r"
  by (induction rule: climbs.induct) simp_all

lemma climbs_ge: "climbs f d n r \<Longrightarrow> uint n \<le> uint r"
  by (induction rule: climbs.induct) simp_all

text \<open>The step before the last was reached by the debt: the target is the first that is not.\<close>

lemma climbs_last:
  "climbs f d n r \<Longrightarrow> r = n \<or>
     (\<exists>p. uint n \<le> uint p \<and> step_limit f p \<le> d \<and> uint r \<le> 2 * uint p \<and> uint r \<le> uint p + 10000)"
  by (induction rule: climbs.induct) (auto intro: less_imp_le order.trans)

lemma climbs_mono:
  assumes "climbs f d n r" and "climbs f d' n r'" and "d \<le> d'"
  shows "uint r \<le> uint r'"
  using assms
proof (induction arbitrary: r' rule: climbs.induct)
  case (stop n)
  then show ?case by (auto dest: climbs_ge)
next
  case (climb n r)
  from climb.prems(1) show ?case
    by (rule climbs_elim) (use climb in auto)
qed

lemma next_balance_climbs:
  assumes f: "1 / 2 ^ 50 \<le> f" "f \<le> 1"
    and debt: "of_int (uint debt) \<le> f * of_int (2 ^ 31 * wei)"
  shows "\<exists>n. next_balance debt (Fin f) = Some (ucast n * GRT) \<and>
    climbs f (round_rat (of_int (uint debt))) 2 n"
proof -
  obtain n where n: "climbs f (round_rat (of_int (uint debt))) 2 n"
    using climbs_total [OF f debt, of 2] by auto
  have "0 \<le> f" using f(1) by (rule order_trans [rotated]) simp
  with climbs_loop [OF n] f(2) n show ?thesis
    by (auto simp: next_balance_def u128_as_f64_Fin)
qed

subsection \<open>The target covers the debt\<close>

lemma representable_round: "representable x \<Longrightarrow> round_rat x = x"
  by (auto simp: representable_def f64_of_rat_def Let_def split: if_splits)

text \<open>The greatest double below one.\<close>

lemma representable_below_one:
  assumes "representable f" and "f < 1"
  shows "f \<le> 1 - 1 / 2 ^ 53"
proof (cases "f < 1 / 2")
  case True
  then show ?thesis by simp
next
  case False
  with assms(2) have "binary_exponent f = - 1" by (intro binary_exponent_unique) (simp_all add: power_int_minus)
  then have "ulp_exponent f = - 53" by (simp add: ulp_exponent_def)
  moreover have "round_positive f = f" using representable_round [OF assms(1)] False by (simp add: round_rat_def)
  ultimately obtain k where k: "f = of_int k * 2 powi (- 53)" by (metis round_positive_def)
  then have k: "f = of_int k / 2 ^ 53" by (simp add: power_int_minus field_simps)
  with assms(2) have "(of_int k :: rat) < of_int (2 ^ 53)" by (simp add: field_simps)
  then have "k \<le> 2 ^ 53 - 1" by (simp only: of_int_less_iff)
  then have "(of_int k :: rat) \<le> of_int (2 ^ 53 - 1)" by (simp only: of_int_le_iff)
  then show ?thesis unfolding k by (simp add: field_simps)
qed

lemma climbs_covers:
  assumes "climbs f (round_rat (of_int (uint (debt :: u128)))) n r"
    and f: "0 < f" "f \<le> 1 - 1 / 2 ^ 53"
  shows "uint debt < uint r * wei"
proof -
  let ?x = "of_int (uint r * wei) :: rat"
  have lim: "round_rat (of_int (uint debt)) < step_limit f r" by (rule climbs_limit [OF assms(1)])
  have r: "1 \<le> uint r"
  proof (rule ccontr)
    assume "\<not> 1 \<le> uint r"
    then have "uint r = 0" using uint_nonnegative [of r] by linarith
    then have "step_limit f r = 0" by (simp add: step_limit_def round_zero)
    moreover have "(0 :: rat) \<le> of_int (uint debt)" by (simp only: of_int_0_le_iff uint_nonnegative)
    then have "0 \<le> round_rat (of_int (uint debt))"
      by (metis round_rat_mono round_zero)
    ultimately show False using lim by simp
  qed
  have "of_int (uint debt) < round_rat ?x * f"
  proof (rule ccontr)
    assume "\<not> ?thesis"
    then have "round_rat ?x * f \<le> of_int (uint debt)" by (simp only: not_less)
    from round_rat_mono [OF this] lim show False by (simp add: step_limit_def)
  qed
  also have "\<dots> \<le> (?x * (1 + 1 / 2 ^ 53)) * (1 - 1 / 2 ^ 53)"
    using round_rat_error(2) [OF whole_grt_ge_one [OF r]] round_grt_bounds(1) [of r] f
    by (intro mult_mono) simp_all
  also have "\<dots> \<le> ?x" using whole_grt_ge_one [OF r] by (simp add: algebra_simps)
  finally show ?thesis by (simp only: of_int_less_iff)
qed

lemma climbs_covers_full:
  assumes "climbs 1 (round_rat (of_int (uint (debt :: u128)))) n r"
  shows "uint debt < uint r * wei"
proof (rule ccontr)
  let ?x = "of_int (uint r * wei) :: rat"
  assume "\<not> ?thesis"
  then have "?x \<le> of_int (uint debt)" by (simp only: of_int_le_iff not_less)
  from round_rat_mono [OF this] have "round_rat ?x \<le> round_rat (of_int (uint debt))" .
  moreover have "0 \<le> uint r * wei" by (simp add: wei_def)
  then have "step_limit 1 r = round_rat ?x" by (simp only: step_limit_def mult_1_right round_rat_idem_of_int)
  ultimately show False using climbs_limit [OF assms] by simp
qed

section \<open>Settings and decisions\<close>

lemma check_settings_Inr_iff:
  "check_settings ff wm = Inr u \<longleftrightarrow>
     (\<exists>f w. ff = Fin f \<and> 0 < f \<and> f \<le> 1 \<and> wm = Fin w \<and> 0 \<le> w \<and> w \<le> 1)"
  by (cases ff; cases wm) (auto simp: check_settings_def f64_lt_def)

lemma f64_as_uint_small:
  assumes "0 \<le> x" and "x \<le> of_int k" and "k < 2 ^ LENGTH('a)"
  shows "uint (f64_as_uint (Fin x) :: 'a::len word) \<le> k"
proof (cases "x \<le> 0")
  case True
  with assms have "0 \<le> (of_int k :: rat)" by linarith
  then have "0 \<le> k" by (simp only: of_int_0_le_iff)
  with True show ?thesis by simp
next
  case False
  have "\<lfloor>x\<rfloor> \<le> k" using assms(2) by linarith
  moreover have "0 \<le> \<lfloor>x\<rfloor>" using assms(1) by simp
  ultimately show ?thesis using False assms(3) by (simp add: take_bit_int_eq_self uint_word_of_int_eq)
qed

text \<open>A margin that passes the checks is at most 10000 basis points.\<close>

lemma withdraw_margin_bps_le:
  assumes "check_settings ff wm = Inr ()"
  shows "uint (withdraw_margin_bps wm) \<le> 10000"
proof -
  from assms obtain w where w: "wm = Fin w" "0 \<le> w" "w \<le> 1" by (auto simp: check_settings_Inr_iff)
  have cap: "round_rat 10000 = 10000" by code_simp
  have "0 \<le> w * 10000" and "w * 10000 \<le> 10000" using w by simp_all
  from round_rat_mono [OF this(1)] round_rat_mono [OF this(2)]
  have r: "0 \<le> round_rat (w * 10000)" "round_rat (w * 10000) \<le> 10000" by (simp_all only: cap round_zero)
  have "(10000 :: rat) \<le> 2 powi 1023" by (simp add: power_int_def)
  with w have "f64_mul wm (Fin 10000) = Fin (round_rat (w * 10000))" by (simp add: f64_of_rat_finite)
  then have *: "withdraw_margin_bps wm = f64_as_uint (Fin (of_int \<lfloor>round_rat (w * 10000) + 1 / 2\<rfloor>))"
    using r by (simp add: withdraw_margin_bps_def)
  have "\<lfloor>round_rat (w * 10000) + 1 / 2\<rfloor> \<le> 10000" using r(2) by linarith
  then have "(of_int \<lfloor>round_rat (w * 10000) + 1 / 2\<rfloor> :: rat) \<le> of_int 10000" by (simp only: of_int_le_iff)
  with r(1) show ?thesis unfolding * by (intro f64_as_uint_small) simp_all
qed

text \<open>What an account holds net of what is leaving, and the escrow kept before any is reclaimed.\<close>

definition effective :: "escrow_account \<Rightarrow> nat" where
  "effective account = unat (balance account) - unat (thawing account)"

definition keep_floor :: "u128 \<Rightarrow> reclaim \<Rightarrow> nat" where
  "keep_floor target r = unat target + unat target div 10000 * unat (margin_bps r)"

lemma decide_Withdraw_iff: "decide account target r = Withdraw \<longleftrightarrow> matured account r"
  by (auto simp: decide_def Let_def split: option.splits)

lemma decide_Deposit_iff:
  "decide account target r = Deposit x \<longleftrightarrow>
     \<not> matured account r \<and> effective account < unat target \<and> unat x = unat target - effective account"
proof -
  have "saturating_sub target (saturating_sub (balance account) (thawing account)) = x \<longleftrightarrow>
      unat x = unat target - effective account"
    by (auto simp: word_unat_eq_iff num_simps effective_def)
  moreover have "0 < saturating_sub target (saturating_sub (balance account) (thawing account)) \<longleftrightarrow>
      effective account < unat target"
    by (simp add: word_less_nat_alt num_simps effective_def)
  ultimately show ?thesis by (auto simp: decide_def Let_def split: option.splits)
qed

lemma keep_floor_word:
  assumes "keep_floor target r < 2 ^ 128"
  shows "unat (target + (target div 10000) * margin_bps r) = keep_floor target r"
proof -
  have d: "unat (target div 10000) = unat target div 10000" by (simp add: unat_div_distrib)
  have "unat ((target div 10000) * margin_bps r) = unat target div 10000 * unat (margin_bps r)"
    using assms by (simp add: keep_floor_def unat_mult_no_wrap d)
  with assms show ?thesis by (simp add: keep_floor_def unat_add_no_wrap)
qed

lemma decide_Thaw_iff:
  assumes "keep_floor target r < 2 ^ 128"
  shows "decide account target (Some r) = Thaw x \<longleftrightarrow>
     \<not> matured account (Some r) \<and> thawing account = 0 \<and> unat x = unat (balance account) - keep_floor target r \<and>
     0 < x \<and> min_withdraw r \<le> x"
proof -
  let ?excess = "saturating_sub (balance account) (target + (target div 10000) * margin_bps r)"
  have e: "unat ?excess = unat (balance account) - keep_floor target r"
    by (simp add: num_simps keep_floor_word [OF assms])
  have dep: "0 < saturating_sub target (saturating_sub (balance account) (thawing account)) \<longleftrightarrow>
      \<not> unat target \<le> effective account"
    by (simp add: word_less_nat_alt num_simps effective_def not_le)
  have "decide account target (Some r) = Thaw x \<longleftrightarrow>
      \<not> matured account (Some r) \<and> unat target \<le> effective account \<and> thawing account = 0 \<and>
      ?excess = x \<and> 0 < x \<and> min_withdraw r \<le> x"
    unfolding decide_def Let_def dep by (auto simp: word_neq_0_conv [symmetric])
  moreover have "unat target \<le> effective account" if "0 < unat ?excess" "thawing account = 0"
    using that e by (simp add: effective_def keep_floor_def)
  ultimately show ?thesis
    using e by (auto simp: word_unat_eq_iff word_less_nat_alt)
qed

lemma decide_None: "decide account target None = Thaw x \<longleftrightarrow> False" "decide account target None = Withdraw \<longleftrightarrow> False"
  by (auto simp: decide_def Let_def matured_def)

lemma decide_NoAction_covers: "decide account target r = NoAction \<Longrightarrow> unat target \<le> effective account"
  by (auto simp: decide_def Let_def word_less_nat_alt num_simps effective_def split: if_splits)

text \<open>What the escrow contract makes of an account for each action.\<close>

fun apply_action :: "u64 \<Rightarrow> action \<Rightarrow> escrow_account \<Rightarrow> escrow_account" where
  "apply_action thaw_end NoAction account = account"
| "apply_action thaw_end Withdraw account =
     \<lparr>balance = balance account - thawing account, thawing = 0, thaw_end_timestamp = 0\<rparr>"
| "apply_action thaw_end (Deposit x) account = account\<lparr>balance := balance account + x\<rparr>"
| "apply_action thaw_end (Thaw x) account =
     account\<lparr>thawing := x, thaw_end_timestamp := thaw_end\<rparr>"

lemma apply_deposit_effective:
  assumes "decide account target r = Deposit x" and "unat (thawing account) + unat target < 2 ^ 128"
    and "thawing account \<le> balance account"
  shows "effective (apply_action te (Deposit x) account) = unat target"
proof -
  from assms(1) have x: "unat x = unat target - effective account" "effective account < unat target"
    by (simp_all add: decide_Deposit_iff)
  have le: "unat (thawing account) \<le> unat (balance account)" using assms(3) by (simp add: word_le_nat_alt)
  then have "unat (balance account) + unat x = unat (thawing account) + unat target"
    using x by (simp add: effective_def)
  with assms(2) le show ?thesis by (simp add: effective_def unat_add_no_wrap)
qed

lemma apply_thaw_effective:
  assumes "decide account target (Some r) = Thaw x" and "keep_floor target r < 2 ^ 128"
  shows "effective (apply_action te (Thaw x) account) = keep_floor target r"
  using assms(1) by (auto simp: decide_Thaw_iff [OF assms(2)] effective_def word_less_nat_alt)

text \<open>The account after the decided action has been carried out.\<close>

definition settled_account :: "u64 \<Rightarrow> u128 \<Rightarrow> reclaim option \<Rightarrow> escrow_account \<Rightarrow> escrow_account" where
  "settled_account thaw_end target reclaim account =
     apply_action thaw_end (decide account target reclaim) account"

lemma decide_NoActionI:
  assumes "\<not> matured account reclaim" and "unat target \<le> effective account"
    and "reclaim = None \<or> 0 < thawing account \<or>
      (\<exists>r. reclaim = Some r \<and> keep_floor target r < 2 ^ 128 \<and> unat (balance account) \<le> keep_floor target r)"
  shows "decide account target reclaim = NoAction"
proof (cases "decide account target reclaim")
  case Withdraw
  with assms(1) show ?thesis by (simp add: decide_Withdraw_iff)
next
  case (Deposit x)
  with assms(2) show ?thesis by (simp add: decide_Deposit_iff)
next
  case (Thaw x)
  then obtain r where r: "reclaim = Some r" by (cases reclaim) (simp_all add: decide_None)
  with Thaw assms(3) have no: "thawing account = 0 \<Longrightarrow>
      keep_floor target r < 2 ^ 128 \<and> unat (balance account) \<le> keep_floor target r"
    by auto
  show ?thesis
  proof (cases "thawing account = 0")
    case True
    with Thaw r no decide_Thaw_iff [of target r account x] show ?thesis by (auto simp: word_less_nat_alt)
  next
    case False
    have "decide account target (Some r) \<noteq> Thaw x" using False by (auto simp: decide_def Let_def word_neq_0_conv)
    with Thaw r show ?thesis by simp
  qed
qed

lemma settled_step:
  assumes "decide account target reclaim \<noteq> Withdraw"
    and "thawing account \<le> balance account" and "unat (thawing account) + unat target < 2 ^ 128"
    and "\<And>r. reclaim = Some r \<Longrightarrow> keep_floor target r < 2 ^ 128"
    and "\<And>r now. reclaim = Some r \<Longrightarrow> chain_now r = Some now \<Longrightarrow> now \<le> thaw_end"
  shows "decide (settled_account thaw_end target reclaim account) target reclaim = NoAction"
proof (cases "decide account target reclaim")
  case NoAction
  then show ?thesis by (simp add: settled_account_def)
next
  case Withdraw
  with assms(1) show ?thesis by simp
next
  case (Deposit x)
  then have *: "\<not> matured account reclaim" "unat x = unat target - effective account" "effective account < unat target"
    by (simp_all add: decide_Deposit_iff)
  have eff: "effective (account\<lparr>balance := balance account + x\<rparr>) = unat target"
    using apply_deposit_effective [OF Deposit assms(3,2)] by simp
  have "unat (balance account + x) \<le> unat target" if "thawing account = 0"
    using eff that by (simp add: effective_def)
  moreover have "matured (account\<lparr>balance := balance account + x\<rparr>) reclaim = matured account reclaim"
    by (simp add: matured_def split: option.split)
  ultimately have "decide (account\<lparr>balance := balance account + x\<rparr>) target reclaim = NoAction"
    using *(1) eff assms(4)
    by (intro decide_NoActionI; cases "thawing account = 0"; cases reclaim)
       (simp_all add: keep_floor_def word_neq_0_conv trans_le_add1)
  with Deposit show ?thesis by (simp add: settled_account_def)
next
  case (Thaw x)
  then obtain r where r: "reclaim = Some r" by (cases reclaim) (simp_all add: decide_None)
  with Thaw assms(4) have x: "0 < x" by (auto simp: decide_Thaw_iff)
  have eff: "effective (account\<lparr>thawing := x, thaw_end_timestamp := thaw_end\<rparr>) = keep_floor target r"
    using apply_thaw_effective [of account target r x thaw_end] Thaw r assms(4) by simp
  have "\<not> matured (account\<lparr>thawing := x, thaw_end_timestamp := thaw_end\<rparr>) reclaim"
    using assms(5) r by (auto simp: matured_def not_less split: option.split)
  with x eff have "decide (account\<lparr>thawing := x, thaw_end_timestamp := thaw_end\<rparr>) target reclaim = NoAction"
    by (intro decide_NoActionI) (simp_all add: keep_floor_def)
  with Thaw show ?thesis by (simp add: settled_account_def)
qed

section \<open>Scaling down\<close>

text \<open>The amounts of a table, as plain numbers.\<close>

definition table_value :: "(address \<times> u128) list \<Rightarrow> address \<Rightarrow> nat" where
  "table_value xs k = (case map_of xs k of Some v \<Rightarrow> unat v | None \<Rightarrow> 0)"

definition table_total :: "(address \<times> u128) list \<Rightarrow> nat" where
  "table_total xs = sum_list (map (\<lambda>kv. unat (snd kv)) xs)"

lemma unat_btree_sum: "table_total xs < 2 ^ 128 \<Longrightarrow> unat (btree_sum xs) = table_total xs"
  using unat_sum_list_no_wrap [of "map snd xs"] by (simp add: btree_sum_def table_total_def comp_def)

lemma table_total_sum:
  "distinct (map fst xs) \<Longrightarrow> table_total xs = (\<Sum>k\<in>fst ` set xs. table_value xs k)"
proof (induction xs)
  case Nil
  then show ?case by (simp add: table_total_def)
next
  case (Cons kv xs)
  then have notin: "fst kv \<notin> fst ` set xs" by simp
  then have "(\<Sum>k\<in>fst ` set xs. table_value (kv # xs) k) = (\<Sum>k\<in>fst ` set xs. table_value xs k)"
    by (intro sum.cong) (metis map_of_Cons_code(2) prod.collapse table_value_def)+
  with Cons notin show ?case by (cases kv) (simp add: table_total_def table_value_def)
qed

lemma table_total_update:
  assumes "distinct (map fst xs)" and "k \<in> fst ` set xs"
  shows "table_total (AList.update k v xs) + table_value xs k = table_total xs + unat v"
proof -
  let ?ys = "AList.update k v xs" and ?K = "fst ` set xs"
  have keys: "map fst ?ys = map fst xs" using assms(2) by (simp add: update_keys)
  then have K: "fst ` set ?ys = ?K" by (metis set_map)
  have "(\<Sum>j\<in>?K - {k}. table_value ?ys j) = (\<Sum>j\<in>?K - {k}. table_value xs j)"
    by (intro sum.cong) (auto simp: table_value_def update_conv')
  moreover have "table_value ?ys k = unat v" by (simp add: table_value_def update_conv')
  moreover have "table_total ?ys = table_value ?ys k + (\<Sum>j\<in>?K - {k}. table_value ?ys j)"
    using table_total_sum [of ?ys] assms keys K by (simp add: sum.remove)
  moreover have "table_total xs = table_value xs k + (\<Sum>j\<in>?K - {k}. table_value xs j)"
    using table_total_sum [of xs] assms by (simp add: sum.remove)
  ultimately show ?thesis by simp
qed

definition bump :: "u128 \<Rightarrow> u128 \<Rightarrow> u128" where
  "bump v d = (if v < d then min d (v + 100 * GRT) else v)"

lemma max_adjustment_nat: "unat MAX_ADJUSTMENT = 10000000000000000000000"
  by (simp add: MAX_ADJUSTMENT_def GRT_def)

lemma bump_bounds:
  assumes "unat v < 10000000000000000000000"
  shows "unat v \<le> unat (bump v d)" and "unat (bump v d) \<le> unat v + 100000000000000000000"
    and "unat (bump v d) \<le> max (unat v) (unat d)" and "bump v d = v \<longleftrightarrow> d \<le> v"
proof -
  have u: "unat (v + 100 * GRT) = unat v + 100000000000000000000"
    using assms by (simp add: GRT_def unat_word_ariths)
  then show "unat v \<le> unat (bump v d)" and "unat (bump v d) \<le> unat v + 100000000000000000000"
    and "unat (bump v d) \<le> max (unat v) (unat d)" and "bump v d = v \<longleftrightarrow> d \<le> v"
    by (auto simp: bump_def unat_min word_less_nat_alt word_le_nat_alt word_unat_eq_iff)
qed

lemma reduce_pass_Cons:
  assumes "r \<in> fst ` set adj"
  shows "reduce_pass ((r, d) # ds) adj =
    (let adj' = AList.update r (bump (the (map_of adj r)) d) adj in
     if MAX_ADJUSTMENT \<le> btree_sum adj' then Inl adj' else reduce_pass ds adj')"
proof -
  from assms obtain v where "map_of adj r = Some v" by (metis map_of_eq_None_iff not_Some_eq)
  then show ?thesis by (simp add: bump_def Let_def)
qed

text \<open>A table on the way: the keys of the desired one, each amount between the minimum and the
  larger of the minimum and the desired one.\<close>

definition scaled :: "(address \<times> u128) list \<Rightarrow> (address \<times> u128) list \<Rightarrow> bool" where
  "scaled desired adj \<longleftrightarrow> map fst adj = map fst desired \<and>
     (\<forall>r\<in>fst ` set desired. unat MIN_DEPOSIT \<le> table_value adj r \<and>
        table_value adj r \<le> max (unat MIN_DEPOSIT) (table_value desired r))"

lemma reduce_step:
  assumes dist: "distinct (map fst desired)" and inv: "scaled desired adj"
    and small: "table_total adj < 10000000000000000000000" and rd: "(r, d) \<in> set desired"
  defines "adj' \<equiv> AList.update r (bump (the (map_of adj r)) d) adj"
  shows "scaled desired adj'" and "table_total adj \<le> table_total adj'"
    and "table_total adj' < table_total adj + 100000000000000000001"
    and "table_total adj' = table_total adj \<Longrightarrow> adj' = adj \<and> unat d \<le> table_value adj r"
    and "MAX_ADJUSTMENT \<le> btree_sum adj' \<longleftrightarrow> 10000000000000000000000 \<le> table_total adj'"
proof -
  have keys: "map fst adj = map fst desired" using inv by (simp add: scaled_def)
  then have K: "fst ` set adj = fst ` set desired" by (metis set_map)
  have r: "r \<in> fst ` set adj" using rd K by force
  then obtain v where v: "map_of adj r = Some v" by (metis map_of_eq_None_iff not_Some_eq)
  have d: "table_value desired r = unat d" using dist rd by (simp add: table_value_def)
  have tv: "table_value adj r = unat v" using v by (simp add: table_value_def)
  have distA: "distinct (map fst adj)" using dist keys by simp
  have "unat v \<le> table_total adj"
    using table_total_sum [OF distA] r tv by (metis finite_imageI finite_set member_le_sum zero_le)
  with small have vs: "unat v < 10000000000000000000000" by simp
  note b = bump_bounds [OF vs, of d]
  have tot: "table_total adj' + unat v = table_total adj + unat (bump v d)"
    using table_total_update [OF distA r, of "bump v d"] tv v by (simp add: adj'_def)
  have val: "table_value adj' k = (if k = r then unat (bump v d) else table_value adj k)" for k
    by (simp add: adj'_def v table_value_def update_conv')
  have "map fst adj' = map fst desired" using keys r K by (simp add: adj'_def update_keys)
  moreover have "unat MIN_DEPOSIT \<le> table_value adj' k \<and>
      table_value adj' k \<le> max (unat MIN_DEPOSIT) (table_value desired k)"
    if "k \<in> fst ` set desired" for k
  proof (cases "k = r")
    case True
    have "unat MIN_DEPOSIT \<le> unat v \<and> unat v \<le> max (unat MIN_DEPOSIT) (unat d)"
      using inv that True tv d unfolding scaled_def by metis
    with True val b(1,3) d show ?thesis by (auto simp: max_def split: if_splits)
  next
    case False
    with inv that val show ?thesis unfolding scaled_def by metis
  qed
  ultimately show "scaled desired adj'" unfolding scaled_def by blast
  show "table_total adj \<le> table_total adj'"
    and up: "table_total adj' < table_total adj + 100000000000000000001" using tot b by linarith+
  show "table_total adj' = table_total adj \<Longrightarrow> adj' = adj \<and> unat d \<le> table_value adj r"
  proof -
    assume "table_total adj' = table_total adj"
    with tot have "bump v d = v" by (simp add: word_unat_eq_iff)
    moreover from this have "d \<le> v" using b(4) by simp
    ultimately show ?thesis using v tv by (simp add: adj'_def update_triv word_le_nat_alt)
  qed
  have "table_total adj' < 2 ^ 128" using up small by simp
  then show "MAX_ADJUSTMENT \<le> btree_sum adj' \<longleftrightarrow> 10000000000000000000000 \<le> table_total adj'"
    by (simp only: word_le_nat_alt unat_btree_sum max_adjustment_nat)
qed

lemma reduce_pass_result:
  assumes dist: "distinct (map fst desired)" and inv: "scaled desired adj"
    and small: "table_total adj < 10000000000000000000000" and sub: "set ds \<subseteq> set desired"
  shows "case reduce_pass ds adj of
      Inl res \<Rightarrow> scaled desired res \<and> 10000000000000000000000 \<le> table_total res \<and>
        table_total res < 10100000000000000000000
    | Inr adj' \<Rightarrow> scaled desired adj' \<and> table_total adj' < 10000000000000000000000 \<and>
        table_total adj \<le> table_total adj' \<and>
        (table_total adj' = table_total adj \<longrightarrow> (\<forall>(r, d)\<in>set ds. unat d \<le> table_value adj r))"
  using inv small sub
proof (induction ds arbitrary: adj)
  case Nil
  then show ?case by simp
next
  case (Cons rd ds)
  obtain r d where rd: "rd = (r, d)" by (cases rd)
  with Cons.prems have mem: "(r, d) \<in> set desired" by simp
  let ?adj = "AList.update r (bump (the (map_of adj r)) d) adj"
  note step = reduce_step [OF dist Cons.prems(1,2) mem]
  have "fst ` set adj = fst ` set desired" using Cons.prems(1) unfolding scaled_def by (metis set_map)
  then have r: "r \<in> fst ` set adj" using mem by force
  show ?case
  proof (cases "10000000000000000000000 \<le> table_total ?adj")
    case True
    with step Cons.prems show ?thesis unfolding rd reduce_pass_Cons [OF r] Let_def by simp
  next
    case False
    then have IH: "case reduce_pass ds ?adj of
        Inl res \<Rightarrow> scaled desired res \<and> 10000000000000000000000 \<le> table_total res \<and>
          table_total res < 10100000000000000000000
      | Inr adj' \<Rightarrow> scaled desired adj' \<and> table_total adj' < 10000000000000000000000 \<and>
          table_total ?adj \<le> table_total adj' \<and>
          (table_total adj' = table_total ?adj \<longrightarrow> (\<forall>(r, d)\<in>set ds. unat d \<le> table_value ?adj r))"
      using Cons.prems step(1) by (intro Cons.IH) simp_all
    have run: "reduce_pass (rd # ds) adj = reduce_pass ds ?adj"
      using False step(5) unfolding rd reduce_pass_Cons [OF r] Let_def by simp
    show ?thesis
    proof (cases "reduce_pass ds ?adj")
      case (Inl res)
      with IH run show ?thesis by simp
    next
      case (Inr adj')
      with IH have i: "scaled desired adj'" "table_total adj' < 10000000000000000000000"
        "table_total ?adj \<le> table_total adj'"
        "table_total adj' = table_total ?adj \<longrightarrow> (\<forall>(r, d)\<in>set ds. unat d \<le> table_value ?adj r)"
        by simp_all
      have "\<forall>(r, d)\<in>set (rd # ds). unat d \<le> table_value adj r" if "table_total adj' = table_total adj"
      proof -
        from that i(3) step(2) have e: "table_total ?adj = table_total adj" "table_total adj' = table_total ?adj"
          by simp_all
        with step(4) i(4) show ?thesis by (auto simp: rd)
      qed
      with i step(2) Inr run show ?thesis by simp
    qed
  qed
qed

lemma reduce_loop_result:
  assumes dist: "distinct (map fst desired)" and inv: "scaled desired adj"
    and small: "table_total adj < 10000000000000000000000"
    and big: "10000000000000000000000 < table_total desired"
  shows "\<exists>res. reduce_loop desired adj = Some res \<and> scaled desired res \<and>
    10000000000000000000000 \<le> table_total res \<and> table_total res < 10100000000000000000000"
  using inv small
proof (induction "10000000000000000000000 - table_total adj" arbitrary: adj rule: less_induct)
  case less
  note pass = reduce_pass_result [OF dist less.prems subset_refl]
  show ?case
  proof (cases "reduce_pass desired adj")
    case (Inl res)
    with pass show ?thesis by (simp add: reduce_loop.simps [of desired adj])
  next
    case (Inr adj')
    with pass have p: "scaled desired adj'" "table_total adj' < 10000000000000000000000"
      "table_total adj \<le> table_total adj'"
      "table_total adj' = table_total adj \<longrightarrow> (\<forall>(r, d)\<in>set desired. unat d \<le> table_value adj r)"
      by simp_all
    have "table_total adj' \<noteq> table_total adj"
    proof
      assume "table_total adj' = table_total adj"
      with p(4) have le: "table_value desired r \<le> table_value adj r" if "r \<in> fst ` set desired" for r
        using that dist by (auto simp: table_value_def [of desired])
      have keys: "map fst adj = map fst desired" using less.prems(1) by (simp add: scaled_def)
      then have "fst ` set adj = fst ` set desired" by (metis set_map)
      with keys dist le have "table_total desired \<le> table_total adj"
        by (simp add: table_total_sum sum_mono)
      with big less.prems(2) show False by simp
    qed
    with p less.prems have "10000000000000000000000 - table_total adj' < 10000000000000000000000 - table_total adj"
      by linarith
    from less.hyps [OF this p(1,2)] Inr show ?thesis by (simp add: reduce_loop.simps [of desired adj])
  qed
qed

lemma btree_from_iter_keys:
  "map fst (btree_from_iter xs) = sorted_list_of_set (fst ` set xs)"
  by (simp add: btree_from_iter_def comp_def)

lemma btree_from_iter_distinct: "distinct (map fst (btree_from_iter xs))"
  by (simp add: btree_from_iter_keys)

lemma map_of_const: "k \<in> fst ` set xs \<Longrightarrow> map_of (map (\<lambda>(r, _). (r, c)) xs) k = Some c"
  by (induction xs) auto

lemma reduce_adjustments_result:
  assumes big: "10000000000000000000000 < table_total (btree_from_iter xs)"
    and nowrap: "table_total (btree_from_iter xs) < 2 ^ 128"
    and few: "card (fst ` set xs) < 5000"
  shows "\<exists>res. reduce_adjustments xs = Some res \<and> scaled (btree_from_iter xs) res \<and>
    10000000000000000000000 \<le> table_total res \<and> table_total res < 10100000000000000000000"
proof -
  let ?D = "btree_from_iter xs" and ?A = "map (\<lambda>(r, _). (r, MIN_DEPOSIT)) (btree_from_iter xs)"
  have keys: "map fst ?A = map fst ?D" by (simp add: comp_def split_beta)
  have len: "length ?D < 5000"
    using few by (simp add: btree_from_iter_def)
  have md: "unat MIN_DEPOSIT = 2000000000000000000" by (simp add: MIN_DEPOSIT_def GRT_def)
  have "table_total ?A = length ?D * unat MIN_DEPOSIT"
    by (simp add: table_total_def comp_def split_beta sum_list_triv)
  with len have small: "table_total ?A < 10000000000000000000000" by (simp add: md)
  have "map_of ?A r = Some MIN_DEPOSIT" if "r \<in> fst ` set ?D" for r
    using that by (rule map_of_const)
  then have inv: "scaled ?D ?A" unfolding scaled_def keys by (simp add: table_value_def)
  have "\<not> btree_sum ?D \<le> MAX_ADJUSTMENT"
    using big nowrap by (simp add: word_le_nat_alt unat_btree_sum max_adjustment_nat)
  with reduce_loop_result [OF btree_from_iter_distinct inv small big] show ?thesis
    by (simp add: reduce_adjustments_def Let_def)
qed

end
