(* ===== verification/EscrowKafka.thy ===== *)
theory EscrowKafka
  imports EscrowPlan Bytes Eip712 "HOL-Library.Signed_Division"
begin

text \<open>
  The Kafka consumers of the escrow manager (\<open>crates/bin/escrow_manager/src/kafka.rs\<close>): the
  client's defaults, the hourly database of receipt values with its pruning and snapshots, the
  decoding of the messages of both receipt topics, and the table of the greatest RAV value per
  allocation.

  A \<open>DateTime<Utc>\<close> is its number of nanoseconds since the epoch; whether a pair of seconds and
  nanoseconds is in the range of the library \<open>chrono\<close> is the argument \<open>in_range\<close>. A
  \<open>BTreeMap\<close> of the database is an association list with distinct keys. The channel between a
  consumer and the database is the list of updates sent. A slice of the wrong length makes
  \<open>Address::from_slice\<close> panic, which is a value of its own. Texts are ASCII.
\<close>

section \<open>The consumer's settings\<close>

definition consumer_defaults :: "(string \<times> string) list" where
  "consumer_defaults =
     [(''group.id'', ''graph-tally-escrow-manager''),
      (''enable.auto.commit'', ''true''),
      (''enable.auto.offset.store'', ''true'')]"

definition consumer_config :: "(string \<rightharpoonup> string) \<Rightarrow> (string \<rightharpoonup> string)" where
  "consumer_config config =
     fold (\<lambda>(key, value) m. if key \<in> dom m then m else m(key \<mapsto> value)) consumer_defaults config"

lemma fold_missing_keys:
  "fold (\<lambda>(key, value) m. if key \<in> dom m then m else m(key \<mapsto> value)) xs m k =
     (case m k of Some v \<Rightarrow> Some v | None \<Rightarrow> map_of xs k)"
proof (induction xs arbitrary: m)
  case Nil
  then show ?case by (simp split: option.split)
next
  case (Cons kv xs)
  obtain a b where kv: "kv = (a, b)" by (cases kv)
  have "(if a \<in> dom m then m else m(a \<mapsto> b)) k = (if m k = None \<and> k = a then Some b else m k)"
    by auto
  with Cons [of "if a \<in> dom m then m else m(a \<mapsto> b)"] show ?case
    by (cases "m k") (simp_all add: kv)
qed

lemma consumer_config_lookup:
  "consumer_config config k = (case config k of Some v \<Rightarrow> Some v | None \<Rightarrow> map_of consumer_defaults k)"
  by (simp add: consumer_config_def fold_missing_keys)

section \<open>Times\<close>

type_synonym datetime = int

definition nanos :: int where "nanos = 1000000000"

text \<open>\<open>timestamp()\<close> is the number of whole seconds, rounded down; \<open>%\<close> truncates.\<close>

definition dt_timestamp :: "datetime \<Rightarrow> int" where
  "dt_timestamp t = t div nanos"

definition hourly_timestamp :: "datetime \<Rightarrow> int" where
  "hourly_timestamp t = (let s = dt_timestamp t in s - s smod 3600)"

definition window :: int where "window = 28 * 24 * 3600 * nanos"

text \<open>\<open>DateTime::from_timestamp\<close>: at most two seconds of nanoseconds, for a leap second.\<close>

definition from_timestamp :: "(int \<Rightarrow> bool) \<Rightarrow> int \<Rightarrow> u32 \<Rightarrow> datetime option" where
  "from_timestamp in_range secs nsecs =
     (if in_range secs \<and> uint nsecs < 2 * nanos then Some (secs * nanos + uint nsecs) else None)"

definition from_timestamp_millis :: "(int \<Rightarrow> bool) \<Rightarrow> int \<Rightarrow> datetime option" where
  "from_timestamp_millis in_range ms =
     (if in_range (ms div 1000) then Some (ms * 1000000) else None)"

section \<open>The database of receipt values\<close>

record update =
  upd_timestamp :: datetime
  upd_indexer :: address
  upd_fee :: u128

type_synonym db_data = "(address \<times> (int \<times> u128) list) list"

record db =
  db_rows :: db_data
  db_window :: int

definition db_new :: db where
  "db_new = \<lparr>db_rows = [], db_window = window\<rparr>"

definition entry_or_default :: "'v \<Rightarrow> ('k \<times> 'v) list \<Rightarrow> 'k \<Rightarrow> 'v" where
  "entry_or_default d xs k = (case map_of xs k of Some v \<Rightarrow> v | None \<Rightarrow> d)"

definition db_update :: "update \<Rightarrow> datetime \<Rightarrow> db \<Rightarrow> db" where
  "db_update u now db =
     (if upd_timestamp u < now - db_window db then db
      else
        let entries = entry_or_default [] (db_rows db) (upd_indexer u);
            hour = hourly_timestamp (upd_timestamp u);
            entry = entry_or_default 0 entries hour in
        db\<lparr>db_rows := AList.update (upd_indexer u)
             (AList.update hour (entry + upd_fee u) entries) (db_rows db)\<rparr>)"

definition db_prune :: "datetime \<Rightarrow> db \<Rightarrow> db" where
  "db_prune now db =
     (let min_timestamp = hourly_timestamp (now - db_window db) in
      db\<lparr>db_rows := filter (\<lambda>(_, entries). entries \<noteq> [])
           (map (\<lambda>(indexer, entries). (indexer, filter (\<lambda>(t, _). min_timestamp < t) entries))
              (db_rows db))\<rparr>)"

definition db_snapshot :: "db \<Rightarrow> (address \<times> u128) list" where
  "db_snapshot db =
     map (\<lambda>(indexer, entries). (indexer, sum_list (map snd entries))) (db_rows db)"

text \<open>One turn of the task behind \<open>spawn\<close>: drain the buffer, and once a second prune and
  publish a snapshot.\<close>

record db_task =
  task_db :: db
  last_snapshot :: datetime
  watched :: "(address \<times> u128) list"

definition db_spawn :: "datetime \<Rightarrow> db_task" where
  "db_spawn now = \<lparr>task_db = db_new, last_snapshot = now, watched = []\<rparr>"

definition db_turn :: "datetime \<Rightarrow> update list \<Rightarrow> db_task \<Rightarrow> db_task" where
  "db_turn now buffer task =
     (let db' = fold (\<lambda>u. db_update u now) buffer (task_db task) in
      if nanos \<le> now - last_snapshot task
      then let db'' = db_prune now db' in
        \<lparr>task_db = db'', last_snapshot = now, watched = db_snapshot db''\<rparr>
      else task\<lparr>task_db := db'\<rparr>)"

section \<open>Messages of the receipt topics\<close>

text \<open>\<open>Address::from_slice\<close>.\<close>

definition address_from_slice :: "byte list \<Rightarrow> address outcome" where
  "address_from_slice bs = (if length bs = 20 then Returned (word_of_bytes bs) else Panicked)"

record indexer_query =
  iq_indexer :: "byte list"
  iq_fee_grt :: f64

record client_query =
  cq_receipt_signer :: "byte list"
  cq_indexer_queries :: "indexer_query list"

record indexer_fees =
  if_signer :: "byte list"
  if_receiver :: "byte list"
  if_fee_grt :: f64

record indexer_fees_hourly =
  ih_timestamp :: int
  ih_aggregations :: "indexer_fees list"

text \<open>\<open>(fee_grt * 1e18) as u128\<close>.\<close>

definition fee_of_grt :: "f64 \<Rightarrow> u128" where
  "fee_of_grt fee_grt = f64_as_uint (f64_mul fee_grt (Fin 1000000000000000000))"

text \<open>The timestamp of a real-time message: milliseconds split into seconds and a fraction, as the
  code computes it; the current time when there is none.\<close>

definition message_timestamp :: "(int \<Rightarrow> bool) \<Rightarrow> datetime \<Rightarrow> int option \<Rightarrow> datetime" where
  "message_timestamp in_range now millis =
     (case Option.bind millis (\<lambda>t. from_timestamp in_range (t sdiv 1000) (word_of_int (t smod 1000) * 1000)) of
        Some t \<Rightarrow> t
      | None \<Rightarrow> now)"

fun send_queries :: "datetime \<Rightarrow> indexer_query list \<Rightarrow> update list \<Rightarrow> update list outcome" where
  "send_queries timestamp [] sent = Returned sent"
| "send_queries timestamp (q # qs) sent =
     bind_outcome (address_from_slice (iq_indexer q)) (\<lambda>indexer.
       send_queries timestamp qs
         (sent @ [\<lparr>upd_timestamp = timestamp, upd_indexer = indexer, upd_fee = fee_of_grt (iq_fee_grt q)\<rparr>]))"

text \<open>A message of the real-time topic: the receive error, the optional payload and broker
  timestamp. \<open>decode\<close> is the Protobuf library's; a message that does not decode is logged.\<close>

datatype kafka_message = ReceiveError | Message "byte list option" "int option"

definition process_receipt_message ::
    "(byte list \<Rightarrow> string + client_query) \<Rightarrow> (int \<Rightarrow> bool) \<Rightarrow> address list \<Rightarrow> datetime
       \<Rightarrow> kafka_message \<Rightarrow> update list outcome" where
  "process_receipt_message decode in_range signers now msg =
     (case msg of
        ReceiveError \<Rightarrow> Returned []
      | Message None _ \<Rightarrow> Returned []
      | Message (Some payload) millis \<Rightarrow>
          (let timestamp = message_timestamp in_range now millis in
           case decode payload of
             Inl _ \<Rightarrow> Returned []
           | Inr query \<Rightarrow>
               bind_outcome (address_from_slice (cq_receipt_signer query)) (\<lambda>signer.
                 if signer \<notin> set signers then Returned []
                 else send_queries timestamp (cq_indexer_queries query) [])))"

section \<open>Catching up on the aggregated topic\<close>

record aggregated_message =
  am_partition :: string
  am_offset :: int
  am_payload :: "byte list option"

datatype bootstrap_error =
    KafkaFailed string
  | MissingPayload string int
  | DecodeFailed string
  | TimestampOutOfRange

text \<open>The updates of one aggregated message, for the accepted signers.\<close>

fun send_aggregations ::
    "(int \<Rightarrow> bool) \<Rightarrow> address list \<Rightarrow> int \<Rightarrow> indexer_fees list \<Rightarrow> update list
       \<Rightarrow> (bootstrap_error + update list) outcome" where
  "send_aggregations in_range signers timestamp [] sent = Returned (Inr sent)"
| "send_aggregations in_range signers timestamp (a # as) sent =
     bind_outcome (address_from_slice (if_signer a)) (\<lambda>signer.
       if signer \<notin> set signers then send_aggregations in_range signers timestamp as sent
       else (case from_timestamp_millis in_range timestamp of
           None \<Rightarrow> Returned (Inl TimestampOutOfRange)
         | Some t \<Rightarrow>
             bind_outcome (address_from_slice (if_receiver a)) (\<lambda>receiver.
               send_aggregations in_range signers timestamp as
                 (sent @ [\<lparr>upd_timestamp = t, upd_indexer = receiver,
                           upd_fee = fee_of_grt (if_fee_grt a)\<rparr>]))))"

text \<open>The loop over the messages of the aggregated topic that have arrived. It leaves the stream
  once the last offset of every partition has been seen; a message before the cutoff is skipped,
  and so is the test for the last offset. The result is the offsets still awaited (none when the
  loop has been left, otherwise it waits for the next message), the latest timestamp and the updates
  sent; an offset of a partition without a latest message is the \<open>unwrap\<close> that panics.\<close>

fun bootstrap_loop ::
    "(byte list \<Rightarrow> string + indexer_fees_hourly) \<Rightarrow> (int \<Rightarrow> bool) \<Rightarrow> address list \<Rightarrow> int option
       \<Rightarrow> (string + aggregated_message) list \<Rightarrow> (string \<times> int) list \<Rightarrow> int \<Rightarrow> update list
       \<Rightarrow> (bootstrap_error + (string \<times> int) list \<times> int \<times> update list) outcome" where
  "bootstrap_loop decode in_range signers cutoff [] offsets latest sent =
     Returned (Inr (offsets, latest, sent))"
| "bootstrap_loop decode in_range signers cutoff (m # ms) offsets latest sent =
     (case m of
        Inl e \<Rightarrow> Returned (Inl (KafkaFailed e))
      | Inr msg \<Rightarrow>
        (case am_payload msg of
           None \<Rightarrow> Returned (Inl (MissingPayload (am_partition msg) (am_offset msg)))
         | Some payload \<Rightarrow>
           (case decode payload of
              Inl e \<Rightarrow> Returned (Inl (DecodeFailed e))
            | Inr fees \<Rightarrow>
              (let latest' = max latest (ih_timestamp fees) in
               if (case cutoff of Some c \<Rightarrow> ih_timestamp fees < c | None \<Rightarrow> False)
               then bootstrap_loop decode in_range signers cutoff ms offsets latest' sent
               else
                 bind_outcome (send_aggregations in_range signers (ih_timestamp fees)
                                 (ih_aggregations fees) sent) (\<lambda>r.
                 case r of
                   Inl e \<Rightarrow> Returned (Inl e)
                 | Inr sent' \<Rightarrow>
                     (case map_of offsets (am_partition msg) of
                        None \<Rightarrow> Panicked
                      | Some last_offset \<Rightarrow>
                          if last_offset = am_offset msg
                          then (let offsets' = AList.delete (am_partition msg) offsets in
                                if offsets' = [] then Returned (Inr ([], latest', sent'))
                                else bootstrap_loop decode in_range signers cutoff ms offsets' latest' sent')
                          else bootstrap_loop decode in_range signers cutoff ms offsets latest' sent'))))))"

text \<open>Where the real-time topic is read from, in milliseconds; without an aggregated topic, from
  the start of the window (the code passes the hourly timestamp in seconds).\<close>

definition realtime_start :: "int \<Rightarrow> int" where
  "realtime_start latest_aggregated_timestamp = latest_aggregated_timestamp + 3600 * 1000"

definition start_timestamp :: "datetime \<Rightarrow> int" where
  "start_timestamp now = hourly_timestamp (now - window)"

section \<open>RAV records\<close>

record rav_record =
  rec_signer :: address
  rec_allocation :: address
  rec_value :: u128

datatype parse_result = V2 rav_record | V1

datatype parse_error =
    MissingKey
  | MissingRecordPayload
  | MalformedKey
  | InvalidIdLength nat
  | BadNumber string

definition parse_record ::
    "alloy_fmt \<Rightarrow> string option \<Rightarrow> string option \<Rightarrow> parse_error + parse_result" where
  "parse_record F msg_key msg_payload =
     rbind (ok_or msg_key MissingKey) (\<lambda>key.
     rbind (ok_or msg_payload MissingRecordPayload) (\<lambda>payload.
     rbind (ok_or (split_once (CHR '':'') key) MalformedKey) (\<lambda>(signer, i).
     if length i = 42 then Inr V1
     else if length i \<noteq> 66 then Inl (InvalidIdLength (length i))
     else
       (let allocation = drop 26 i in
        rbind (map_err BadNumber (parse_address F signer)) (\<lambda>signer.
        rbind (map_err BadNumber (parse_address F allocation)) (\<lambda>allocation.
        rbind (map_err BadNumber (parse_u128 payload)) (\<lambda>value.
          Inr (V2 \<lparr>rec_signer = signer, rec_allocation = allocation, rec_value = value\<rparr>))))))))"

text \<open>\<open>send_if_modified\<close>: the entry of an allocation only ever grows.\<close>

definition store_rav_value :: "rav_record \<Rightarrow> (address \<rightharpoonup> u128) \<Rightarrow> (address \<rightharpoonup> u128)" where
  "store_rav_value r m =
     (case m (rec_allocation r) of
        None \<Rightarrow> m(rec_allocation r \<mapsto> rec_value r)
      | Some v \<Rightarrow> if v < rec_value r then m(rec_allocation r \<mapsto> rec_value r) else m)"

datatype rav_message = RavReceiveError | RavMessage "string option" "string option"

definition process_rav_message ::
    "alloy_fmt \<Rightarrow> address list \<Rightarrow> rav_message \<Rightarrow> (address \<rightharpoonup> u128) \<Rightarrow> (address \<rightharpoonup> u128)" where
  "process_rav_message F signers msg m =
     (case msg of
        RavReceiveError \<Rightarrow> m
      | RavMessage key payload \<Rightarrow>
          (case parse_record F key payload of
             Inl _ \<Rightarrow> m
           | Inr V1 \<Rightarrow> m
           | Inr (V2 r) \<Rightarrow> if rec_signer r \<notin> set signers then m else store_rav_value r m))"

section \<open>The database keeps a log\<close>

text \<open>Abstractly the database is the list of the updates it has kept: the value of an indexer is
  the sum of their fees (wrapping, as the sums of the code do).\<close>

definition upd_hour :: "update \<Rightarrow> int" where
  "upd_hour u = hourly_timestamp (upd_timestamp u)"

definition log_total :: "update list \<Rightarrow> address \<Rightarrow> (int \<Rightarrow> bool) \<Rightarrow> u128" where
  "log_total kept i P = sum_list (map upd_fee (filter (\<lambda>u. upd_indexer u = i \<and> P (upd_hour u)) kept))"

definition log_accept :: "datetime \<Rightarrow> update list \<Rightarrow> update list" where
  "log_accept now buffer = filter (\<lambda>u. now - window \<le> upd_timestamp u) buffer"

definition log_prune :: "datetime \<Rightarrow> update list \<Rightarrow> update list" where
  "log_prune now kept = filter (\<lambda>u. hourly_timestamp (now - window) < upd_hour u) kept"

definition hours_total :: "(int \<times> u128) list \<Rightarrow> (int \<Rightarrow> bool) \<Rightarrow> u128" where
  "hours_total entries P = sum_list (map snd (filter (\<lambda>(h, _). P h) entries))"

definition represents :: "db \<Rightarrow> update list \<Rightarrow> bool" where
  "represents d kept \<longleftrightarrow> db_window d = window \<and> distinct (map fst (db_rows d)) \<and>
     (\<forall>i. distinct (map fst (entry_or_default [] (db_rows d) i))) \<and>
     (\<forall>i P. hours_total (entry_or_default [] (db_rows d) i) P = log_total kept i P)"

lemma entry_or_default_simps [simp]:
  "entry_or_default d [] k = d"
  "entry_or_default d ((k', v) # xs) k = (if k = k' then v else entry_or_default d xs k)"
  by (simp_all add: entry_or_default_def)

lemma entry_or_default_update:
  "entry_or_default d (AList.update k v xs) j = (if j = k then v else entry_or_default d xs j)"
  by (simp add: entry_or_default_def update_conv')

lemma log_total_append: "log_total (kept @ kept') i P = log_total kept i P + log_total kept' i P"
  by (simp add: log_total_def)

lemma log_total_single:
  "log_total [u] i P = (if upd_indexer u = i \<and> P (upd_hour u) then upd_fee u else 0)"
  by (simp add: log_total_def)

lemma hours_total_update:
  "distinct (map fst xs) \<Longrightarrow>
     hours_total (AList.update h (entry_or_default 0 xs h + fee) xs) P =
       hours_total xs P + (if P h then fee else 0)"
  by (induction xs) (auto simp: hours_total_def algebra_simps)

lemma represents_new: "represents db_new []"
  by (simp add: represents_def db_new_def hours_total_def log_total_def)

lemma represents_update:
  assumes "represents d kept"
  shows "represents (db_update u now d) (kept @ log_accept now [u])"
proof (cases "upd_timestamp u < now - window")
  case True
  with assms show ?thesis by (simp add: represents_def db_update_def log_accept_def)
next
  case False
  let ?i = "upd_indexer u" and ?h = "upd_hour u"
  let ?es = "entry_or_default [] (db_rows d) ?i"
  have d: "db_update u now d = d\<lparr>db_rows := AList.update ?i
      (AList.update ?h (entry_or_default 0 ?es ?h + upd_fee u) ?es) (db_rows d)\<rparr>"
    using assms False by (simp add: db_update_def represents_def Let_def upd_hour_def)
  have es: "distinct (map fst ?es)" using assms by (simp add: represents_def)
  have "hours_total (entry_or_default [] (db_rows (db_update u now d)) i) P =
      log_total (kept @ log_accept now [u]) i P" for i P
    using assms False es
    by (auto simp: d represents_def entry_or_default_update hours_total_update log_accept_def
        log_total_append log_total_single)
  moreover have "distinct (map fst (entry_or_default [] (db_rows (db_update u now d)) i))" for i
    using assms es by (auto simp: d represents_def entry_or_default_update distinct_update)
  moreover have "distinct (map fst (db_rows (db_update u now d)))"
    using assms by (simp add: d represents_def distinct_update)
  ultimately show ?thesis using assms by (simp add: represents_def d)
qed

lemma represents_updates:
  "represents d kept \<Longrightarrow> represents (fold (\<lambda>u. db_update u now) us d) (kept @ log_accept now us)"
proof (induction us arbitrary: d kept)
  case Nil
  then show ?case by (simp add: log_accept_def)
next
  case (Cons u us)
  have "represents (fold (\<lambda>u. db_update u now) us (db_update u now d))
      ((kept @ log_accept now [u]) @ log_accept now us)"
    by (rule Cons.IH [OF represents_update [OF Cons.prems]])
  moreover have "(kept @ log_accept now [u]) @ log_accept now us = kept @ log_accept now (u # us)"
    by (simp add: log_accept_def)
  ultimately show ?case by simp
qed

lemma entry_or_default_pruned:
  assumes "distinct (map fst rows)"
  shows "entry_or_default [] (filter (\<lambda>(_, es). es \<noteq> []) (map (\<lambda>(i, es). (i, filter Q es)) rows)) i =
     filter Q (entry_or_default [] rows i)"
  using assms
proof (induction rows)
  case Nil
  then show ?case by simp
next
  case (Cons row rows)
  obtain j es where row: "row = (j, es)" by (cases row)
  have "entry_or_default [] rows j = []"
    using Cons.prems by (force simp: row entry_or_default_def dest: map_of_SomeD split: option.split)
  with Cons show ?case by (auto simp: row)
qed

lemma distinct_pruned:
  "distinct (map fst rows) \<Longrightarrow>
     distinct (map fst (filter P (map (\<lambda>(i, es). (i, g es)) rows)))"
  by (induction rows) (auto simp: image_iff)

lemma hours_total_filter: "hours_total (filter (\<lambda>(h, _). Q h) es) P = hours_total es (\<lambda>h. Q h \<and> P h)"
  by (simp add: hours_total_def case_prod_beta' conj_commute)

lemma represents_prune:
  assumes "represents d kept"
  shows "represents (db_prune now d) (log_prune now kept)"
proof -
  let ?min = "hourly_timestamp (now - window)"
  have rows: "entry_or_default [] (db_rows (db_prune now d)) i =
      filter (\<lambda>(t, _). ?min < t) (entry_or_default [] (db_rows d) i)" for i
    using assms by (simp add: db_prune_def represents_def Let_def entry_or_default_pruned)
  have "log_total (log_prune now kept) i P = log_total kept i (\<lambda>h. ?min < h \<and> P h)" for i P
    unfolding log_total_def log_prune_def filter_filter by (rule arg_cong [where f = sum_list])
      (rule arg_cong [where f = "map upd_fee"], rule filter_cong, auto)
  moreover have "distinct (map fst (db_rows (db_prune now d)))"
    using assms by (simp add: db_prune_def represents_def Let_def distinct_pruned)
  moreover have "db_window (db_prune now d) = window"
    using assms by (simp add: db_prune_def represents_def Let_def)
  ultimately show ?thesis
    using assms by (simp add: represents_def rows hours_total_filter distinct_map_filter)
qed

lemma snapshot_value:
  assumes "represents d kept"
  shows "entry_or_default 0 (db_snapshot d) i = log_total kept i (\<lambda>_. True)"
proof -
  have "entry_or_default 0 (map (\<lambda>(j, es). (j, sum_list (map snd es))) rows) i =
      hours_total (entry_or_default [] rows i) (\<lambda>_. True)" for rows
    by (induction rows) (auto simp: hours_total_def)
  with assms show ?thesis by (simp add: db_snapshot_def represents_def)
qed

text \<open>The task refines its abstract counterpart.\<close>

definition log_turn :: "datetime \<Rightarrow> bool \<Rightarrow> update list \<Rightarrow> update list \<Rightarrow> update list" where
  "log_turn now publish buffer kept =
     (let kept' = kept @ log_accept now buffer in if publish then log_prune now kept' else kept')"

lemma db_turn_refines:
  assumes "represents (task_db t) kept"
  shows "represents (task_db (db_turn now buffer t)) (log_turn now (nanos \<le> now - last_snapshot t) buffer kept)"
    and "nanos \<le> now - last_snapshot t \<Longrightarrow> entry_or_default 0 (watched (db_turn now buffer t)) i =
       log_total (log_turn now True buffer kept) i (\<lambda>_. True)"
proof -
  note upd = represents_updates [OF assms, of now buffer]
  note pruned = represents_prune [OF upd, of now]
  show "represents (task_db (db_turn now buffer t)) (log_turn now (nanos \<le> now - last_snapshot t) buffer kept)"
    using upd pruned by (simp add: db_turn_def log_turn_def Let_def)
  show "nanos \<le> now - last_snapshot t \<Longrightarrow> entry_or_default 0 (watched (db_turn now buffer t)) i =
       log_total (log_turn now True buffer kept) i (\<lambda>_. True)"
    using snapshot_value [OF pruned] by (simp add: db_turn_def log_turn_def Let_def)
qed

lemma log_total_mset:
  "mset kept = mset kept' \<Longrightarrow> log_total kept i P = log_total kept' i P"
proof -
  assume "mset kept = mset kept'"
  then have "mset (map upd_fee (filter (\<lambda>u. upd_indexer u = i \<and> P (upd_hour u)) kept)) =
      mset (map upd_fee (filter (\<lambda>u. upd_indexer u = i \<and> P (upd_hour u)) kept'))" by simp
  then have "sum_mset (mset (map upd_fee (filter (\<lambda>u. upd_indexer u = i \<and> P (upd_hour u)) kept))) =
      sum_mset (mset (map upd_fee (filter (\<lambda>u. upd_indexer u = i \<and> P (upd_hour u)) kept')))"
    by (simp only:)
  then show ?thesis unfolding log_total_def sum_mset_sum_list .
qed

section \<open>The greatest RAV value\<close>

lemma store_rav_value_lookup:
  "store_rav_value r m a =
     (if a = rec_allocation r
      then Some (case m a of None \<Rightarrow> rec_value r | Some v \<Rightarrow> max v (rec_value r)) else m a)"
  by (auto simp: store_rav_value_def max_def split: option.split)

text \<open>After any sequence of records the table holds the greatest value of each allocation.\<close>

lemma fold_store_rav_value:
  "fold store_rav_value rs m a = Some v \<longleftrightarrow>
     (let vs = set (map rec_value (filter (\<lambda>r. rec_allocation r = a) rs)) \<union> set_option (m a) in
      v \<in> vs \<and> (\<forall>w\<in>vs. w \<le> v))"
proof (induction rs arbitrary: m)
  case Nil
  then show ?case by (cases "m a") (auto simp: Let_def)
next
  case (Cons r rs)
  show ?case
  proof (cases "rec_allocation r = a")
    case False
    with Cons show ?thesis by (simp add: store_rav_value_lookup)
  next
    case True
    let ?vs = "set (map rec_value (filter (\<lambda>r. rec_allocation r = a) rs))"
    have "fold store_rav_value (r # rs) m a = Some v \<longleftrightarrow>
        v \<in> ?vs \<union> set_option (store_rav_value r m a) \<and>
        (\<forall>w\<in>?vs \<union> set_option (store_rav_value r m a). w \<le> v)"
      using Cons [of "store_rav_value r m"] by (simp add: Let_def)
    also have "\<dots> \<longleftrightarrow> v \<in> insert (rec_value r) ?vs \<union> set_option (m a) \<and>
        (\<forall>w\<in>insert (rec_value r) ?vs \<union> set_option (m a). w \<le> v)"
      using True by (cases "m a") (auto simp: store_rav_value_lookup max_def)
    finally show ?thesis using True by (simp add: Let_def)
  qed
qed

text \<open>The records that a sequence of messages delivers.\<close>

definition accepted_records :: "alloy_fmt \<Rightarrow> address list \<Rightarrow> rav_message list \<Rightarrow> rav_record list" where
  "accepted_records F signers msgs =
     List.map_filter (\<lambda>msg. case msg of RavReceiveError \<Rightarrow> None
        | RavMessage key payload \<Rightarrow>
            (case parse_record F key payload of
               Inr (V2 r) \<Rightarrow> if rec_signer r \<in> set signers then Some r else None
             | _ \<Rightarrow> None)) msgs"

lemma process_rav_messages:
  "fold (process_rav_message F signers) msgs m = fold store_rav_value (accepted_records F signers msgs) m"
  by (induction msgs arbitrary: m)
     (auto simp: accepted_records_def process_rav_message_def List.map_filter_def
       split: rav_message.split sum.split parse_result.split)

text \<open>A record as the aggregator publishes it is read back, its first part as the signer.\<close>

lemma parse_published_record:
  assumes "address_text_law F" and "b256_text_law F"
  shows "parse_record F (Some (fmt_address_debug F p @ '':'' @ fmt_b256_debug F c)) (Some (show_word v)) =
     Inr (V2 \<lparr>rec_signer = p, rec_allocation = ucast c, rec_value = v\<rparr>)"
proof -
  have "split_once (CHR '':'') (fmt_address_debug F p @ '':'' @ fmt_b256_debug F c) =
      Some (fmt_address_debug F p, fmt_b256_debug F c)"
    using assms(1) by (simp add: address_text_law_def split_once_append)
  with assms show ?thesis
    by (simp add: parse_record_def address_text_law_def b256_text_law_def)
qed

section \<open>Catching up\<close>

text \<open>While partitions are awaited, the loop goes on with the messages that arrive later.\<close>

lemma bootstrap_loop_append:
  assumes "bootstrap_loop decode in_range signers cutoff ms offsets latest sent =
      Returned (Inr (offsets', latest', sent'))" and "offsets' \<noteq> []"
  shows "bootstrap_loop decode in_range signers cutoff (ms @ ms') offsets latest sent =
    bootstrap_loop decode in_range signers cutoff ms' offsets' latest' sent'"
  using assms
proof (induction ms arbitrary: offsets latest sent)
  case (Cons m ms)
  then show ?case
    by (auto simp: Let_def bind_outcome_def split: sum.splits option.splits outcome.splits if_splits)
qed simp

text \<open>A partition whose last message lies before the cutoff is awaited forever.\<close>

lemma bootstrap_awaits_skipped:
  assumes "bootstrap_loop decode in_range signers (Some cutoff) ms offsets latest sent =
      Returned (Inr (offsets', latest', sent'))"
    and "map_of offsets p = Some last_offset" and "distinct (map fst offsets)"
    and "\<forall>msg. Inr msg \<in> set ms \<and> am_partition msg = p \<and> am_offset msg = last_offset \<longrightarrow>
      (\<forall>payload fees. am_payload msg = Some payload \<and> decode payload = Inr fees \<longrightarrow>
         ih_timestamp fees < cutoff)"
  shows "map_of offsets' p = Some last_offset"
  using assms
proof (induction ms arbitrary: offsets latest sent)
  case Nil
  then show ?case by simp
next
  case (Cons m ms)
  obtain msg where msg: "m = Inr msg" using Cons.prems(1) by (cases m) simp_all
  moreover obtain payload where payload: "am_payload msg = Some payload"
    using Cons.prems(1) msg by (cases "am_payload msg") simp_all
  moreover obtain fees where "decode payload = Inr fees"
    using Cons.prems(1) msg payload by (cases "decode payload") simp_all
  ultimately have m: "m = Inr msg" "am_payload msg = Some payload" "decode payload = Inr fees" by simp_all
  have rest: "\<forall>msg. Inr msg \<in> set ms \<and> am_partition msg = p \<and> am_offset msg = last_offset \<longrightarrow>
      (\<forall>payload fees. am_payload msg = Some payload \<and> decode payload = Inr fees \<longrightarrow>
         ih_timestamp fees < cutoff)"
    using Cons.prems(4) by (auto intro: Cons.prems(4) [rule_format])
  show ?case
  proof (cases "ih_timestamp fees < cutoff")
    case True
    with Cons.prems(1) m have "bootstrap_loop decode in_range signers (Some cutoff) ms offsets
        (max latest (ih_timestamp fees)) sent = Returned (Inr (offsets', latest', sent'))"
      by (simp add: Let_def)
    from Cons.IH [OF this Cons.prems(2,3) rest] show ?thesis .
  next
    case False
    with Cons.prems(4) m have other: "am_partition msg = p \<Longrightarrow> am_offset msg \<noteq> last_offset" by auto
    let ?send = "send_aggregations in_range signers (ih_timestamp fees) (ih_aggregations fees) sent"
    obtain r where r: "?send = Returned r"
      using Cons.prems(1) m False by (cases ?send) (simp_all add: Let_def bind_outcome_def)
    obtain sent2 where s2: "r = Inr sent2"
      using Cons.prems(1) m False r by (cases r) (simp_all add: Let_def bind_outcome_def)
    obtain o2 where "map_of offsets (am_partition msg) = Some o2"
      using Cons.prems(1) m False r s2
      by (cases "map_of offsets (am_partition msg)") (simp_all add: Let_def bind_outcome_def)
    with r s2 have sent2: "?send = Returned (Inr sent2)" "map_of offsets (am_partition msg) = Some o2"
      by simp_all
    show ?thesis
    proof (cases "o2 = am_offset msg")
      case True
      with other sent2 Cons.prems(2) have ne: "am_partition msg \<noteq> p" by auto
      let ?offsets = "AList.delete (am_partition msg) offsets"
      have look: "map_of ?offsets p = Some last_offset"
        using ne Cons.prems(2) by (simp add: delete_conv')
      then have "?offsets \<noteq> []" by auto
      with Cons.prems(1) m False sent2 True have "bootstrap_loop decode in_range signers (Some cutoff) ms
          ?offsets (max latest (ih_timestamp fees)) sent2 = Returned (Inr (offsets', latest', sent'))"
        by (simp add: Let_def bind_outcome_def)
      from Cons.IH [OF this look _ rest] Cons.prems(3) show ?thesis by (simp add: distinct_delete)
    next
      case o2: False
      with Cons.prems(1) m False sent2 have "bootstrap_loop decode in_range signers (Some cutoff) ms
          offsets (max latest (ih_timestamp fees)) sent2 = Returned (Inr (offsets', latest', sent'))"
        by (simp add: Let_def bind_outcome_def)
      from Cons.IH [OF this Cons.prems(2,3) rest] show ?thesis .
    qed
  qed
qed

end
