(* ===== verification/Instances.thy ===== *)
theory Instances
  imports AggregatorMain EscrowKafka
begin

text \<open>
  Concrete instances of the library interfaces, on which the hypotheses of the properties hold: a
  signature scheme whose signatures carry the signer and the signed hash, hexadecimal texts, and a
  channel of receipts between one payer and one service. They serve the witnesses; no property
  depends on them.
\<close>

section \<open>A signature scheme\<close>

text \<open>A key is its address. The last component of a signature is a high-S mark, which normalising
  clears and which does not change the signer.\<close>

type_synonym demo_signature = "address \<times> b256 \<times> bool"

definition demo_crypto :: "(demo_signature, address) crypto" where
  "demo_crypto =
     \<lparr>sign_hash_sync = \<lambda>k h. Inr (k, h, False),
      recover_address_from_prehash =
        \<lambda>(a, h, _) h'. if h = h' then Inr a else Inl ''signature of another hash'',
      key_address = \<lambda>k. k,
      normalized_s = \<lambda>(a, h, _). (a, h, False),
      sig_as_bytes = \<lambda>(a, h, high). address_to_vec a @ b256_to_vec h @ [if high then 1 else 0],
      sig_try_from = \<lambda>bs.
        rbind (address_try_from (take 20 bs)) (\<lambda>a.
        rbind (b256_try_from (take 32 (drop 20 bs))) (\<lambda>h.
          Inr (a, h, drop 52 bs = [1])))\<rparr>"

lemma length_to_vec [simp]: "length (address_to_vec a) = 20" "length (b256_to_vec c) = 32"
  by (simp_all add: address_to_vec_def b256_to_vec_def)

lemma demo_signing_law: "signing_law demo_crypto"
  by (auto simp: signing_law_def demo_crypto_def)

lemma demo_normalization_law: "normalization_law demo_crypto"
  by (auto simp: normalization_law_def demo_crypto_def)

lemma demo_signature_bytes_law: "signature_bytes_law demo_crypto"
  by (auto simp: signature_bytes_law_def demo_crypto_def)

lemma demo_signature_bytes_inj:
  "get_signature_bytes demo_crypto (a, h, x) = get_signature_bytes demo_crypto (b, i, y) \<longleftrightarrow> a = b \<and> h = i"
proof
  assume "get_signature_bytes demo_crypto (a, h, x) = get_signature_bytes demo_crypto (b, i, y)"
  then have "address_to_vec a = address_to_vec b" "b256_to_vec h = b256_to_vec i"
    by (simp_all add: get_signature_bytes_def demo_crypto_def append_eq_append_conv)
  then show "a = b \<and> h = i" by (metis try_from_to_vec sum.inject(2))
qed (simp add: get_signature_bytes_def demo_crypto_def)

text \<open>Messages are told apart by their nonce and their value.\<close>

definition demo_receipt_hash :: "eip712_domain \<Rightarrow> receipt \<Rightarrow> b256" where
  "demo_receipt_hash d r = ucast (rcpt_nonce r)"

definition demo_rav_hash :: "eip712_domain \<Rightarrow> rav \<Rightarrow> b256" where
  "demo_rav_hash d v = ucast (rav_valueAggregate v)"

definition demo_lib :: "(demo_signature, address) graph_lib" where
  "demo_lib = \<lparr>lib_crypto = demo_crypto, lib_receipt_hash = demo_receipt_hash,
     lib_rav_hash = demo_rav_hash, lib_pick_error = hd\<rparr>"

lemma demo_lib_simps [simp]:
  "lib_crypto demo_lib = demo_crypto" "lib_receipt_hash demo_lib = demo_receipt_hash"
  "lib_rav_hash demo_lib = demo_rav_hash" "lib_pick_error demo_lib = hd"
  by (simp_all add: demo_lib_def)

section \<open>Texts\<close>

definition hex_digit :: "nat \<Rightarrow> char" where
  "hex_digit n = char_of (if n < 10 then 48 + n else 87 + n)"

definition hex_value :: "char \<Rightarrow> nat" where
  "hex_value c = (let n = of_char c :: nat in if n < 58 then n - 48 else n - 87)"

fun hex_bytes :: "byte list \<Rightarrow> string" where
  "hex_bytes [] = []"
| "hex_bytes (b # bs) = hex_digit (unat b div 16) # hex_digit (unat b mod 16) # hex_bytes bs"

fun unhex_bytes :: "string \<Rightarrow> byte list" where
  "unhex_bytes (c # d # cs) = of_nat (16 * hex_value c + hex_value d) # unhex_bytes cs"
| "unhex_bytes cs = []"

definition demo_parse_address :: "string \<Rightarrow> string + address" where
  "demo_parse_address s =
     address_try_from (unhex_bytes (if take 2 s = ''0x'' then drop 2 s else s))"

definition demo_fmt :: alloy_fmt where
  "demo_fmt =
     \<lparr>fmt_address = \<lambda>a. ''0x'' @ hex_bytes (address_to_vec a),
      fmt_address_debug = \<lambda>a. ''0x'' @ hex_bytes (address_to_vec a),
      fmt_b256 = \<lambda>c. ''0x'' @ hex_bytes (b256_to_vec c),
      fmt_b256_debug = \<lambda>c. ''0x'' @ hex_bytes (b256_to_vec c),
      fmt_b256_upper = \<lambda>c. ''0x'' @ hex_bytes (b256_to_vec c),
      fmt_signature_bytes = hex_bytes,
      parse_address = demo_parse_address\<rparr>"

lemma hex_value_digit: "n < 16 \<Longrightarrow> hex_value (hex_digit n) = n"
  by (auto simp: hex_value_def hex_digit_def)

lemma hex_digit_code: "n < 16 \<Longrightarrow> (of_char (hex_digit n) :: nat) = (if n < 10 then 48 + n else 87 + n)"
  by (simp add: hex_digit_def)

lemma unat_byte: "unat (b :: byte) < 256"
  using unat_less_power [of b] by simp

lemma unhex_hex: "unhex_bytes (hex_bytes bs) = bs"
proof (induction bs)
  case (Cons b bs)
  have "unat b div 16 < 16" using unat_byte [of b] by simp
  then show ?case using Cons by (simp add: hex_value_digit)
qed simp

lemma length_hex_bytes [simp]: "length (hex_bytes bs) = 2 * length bs"
  by (induction bs) simp_all

lemma hex_bytes_append: "hex_bytes (as @ bs) = hex_bytes as @ hex_bytes bs"
  by (induction as) simp_all

lemma hex_bytes_chars:
  "c \<in> set (hex_bytes bs) \<Longrightarrow> \<exists>n<16. c = hex_digit n"
proof (induction bs)
  case (Cons b bs)
  have "unat b div 16 < 16" "unat b mod 16 < 16" using unat_byte [of b] by simp_all
  moreover have "c = hex_digit (unat b div 16) \<or> c = hex_digit (unat b mod 16) \<or> c \<in> set (hex_bytes bs)"
    using Cons.prems by simp
  ultimately show ?case using Cons.IH by blast
qed simp

lemma hex_digit_not:
  assumes "n < 16" and "of_char c \<notin> {48..<58 :: nat} \<union> {97..<103}"
  shows "hex_digit n \<noteq> c"
proof
  assume "hex_digit n = c"
  with hex_digit_code [OF assms(1)] have "of_char c = (if n < 10 then 48 + n else 87 + n)" by simp
  with assms show False by (auto split: if_splits)
qed

lemma hex_no_prefix: "take 2 (hex_bytes bs) \<noteq> ''0x''"
proof (cases bs)
  case (Cons b bs')
  have "hex_digit (unat b mod 16) \<noteq> CHR ''x''" by (rule hex_digit_not) simp_all
  then show ?thesis by (simp add: Cons numeral_2_eq_2)
qed simp

lemma demo_parse_hex:
  "demo_parse_address (''0x'' @ hex_bytes bs) = address_try_from bs"
  "demo_parse_address (hex_bytes bs) = address_try_from bs"
  using hex_no_prefix [of bs] by (simp_all add: demo_parse_address_def unhex_hex)

lemma demo_address_text_law: "address_text_law demo_fmt"
proof -
  have "CHR '':'' \<notin> set (hex_bytes bs)" for bs
  proof
    assume "CHR '':'' \<in> set (hex_bytes bs)"
    then obtain n where "n < 16" "CHR '':'' = hex_digit n" using hex_bytes_chars by blast
    moreover have "of_char (CHR '':'') \<notin> {48..<58 :: nat} \<union> {97..<103}" by simp
    ultimately show False using hex_digit_not [of n "CHR '':''"] by metis
  qed
  then show ?thesis
    using demo_parse_hex(1) by (simp add: address_text_law_def demo_fmt_def)
qed

lemma drop_be_bytes: "k \<le> n \<Longrightarrow> drop k (be_bytes n w) = be_bytes (n - k) w"
proof (induction n arbitrary: k)
  case (Suc n)
  then show ?case by (cases k) simp_all
qed simp

lemma be_bytes_ucast:
  "8 * n \<le> LENGTH('a) \<Longrightarrow> 8 * n \<le> LENGTH('b) \<Longrightarrow>
     be_bytes n (ucast (w :: 'b::len word) :: 'a::len word) = be_bytes n w"
proof (induction n)
  case (Suc n)
  have "ucast (drop_bit (8 * n) (ucast w :: 'a word)) = (ucast (drop_bit (8 * n) w) :: byte)"
    using Suc.prems by (intro bit_eqI) (auto simp: bit_simps)
  with Suc show ?case by simp
qed simp

lemma demo_b256_text_law: "b256_text_law demo_fmt"
proof -
  have "drop 26 (fmt_b256_debug demo_fmt c) = hex_bytes (address_to_vec (ucast c))" for c
  proof -
    have "b256_to_vec c = take 12 (b256_to_vec c) @ drop 12 (b256_to_vec c)" by simp
    moreover have "drop 12 (b256_to_vec c) = be_bytes 20 c"
      unfolding b256_to_vec_def by (subst drop_be_bytes) simp_all
    moreover have "be_bytes 20 c = address_to_vec (ucast c)"
      unfolding address_to_vec_def by (rule be_bytes_ucast [symmetric]) simp_all
    ultimately have "hex_bytes (b256_to_vec c) =
        hex_bytes (take 12 (b256_to_vec c)) @ hex_bytes (address_to_vec (ucast c))"
      by (metis hex_bytes_append)
    then show ?thesis by (simp add: demo_fmt_def)
  qed
  then show ?thesis
    using demo_parse_hex(2) by (simp add: b256_text_law_def) (simp add: demo_fmt_def)
qed

section \<open>A channel\<close>

definition demo_domain :: eip712_domain where
  "demo_domain = graph_tally_eip712_domain 1 7"

text \<open>A receipt of the payer 1, signed with the key 5 by default.\<close>

definition demo_receipt :: "u64 \<Rightarrow> u128 \<Rightarrow> receipt" where
  "demo_receipt t v =
     \<lparr>rcpt_collection_id = 9, rcpt_payer = 1, rcpt_data_service = 2, rcpt_service_provider = 3,
      rcpt_timestamp_ns = t, rcpt_nonce = t, rcpt_value = v\<rparr>"

definition demo_signed :: "u64 \<Rightarrow> u128 \<Rightarrow> demo_signature signed_receipt" where
  "demo_signed t v = \<lparr>message = demo_receipt t v, signature = (5, ucast t, False)\<rparr>"

definition demo_rav :: "u64 \<Rightarrow> u128 \<Rightarrow> rav" where
  "demo_rav t v =
     \<lparr>rav_collectionId = 9, rav_payer = 1, rav_serviceProvider = 3, rav_dataService = 2,
      rav_timestampNs = t, rav_valueAggregate = v, rav_metadata = []\<rparr>"

definition demo_signed_rav :: "u64 \<Rightarrow> u128 \<Rightarrow> demo_signature signed_rav" where
  "demo_signed_rav t v = \<lparr>message = demo_rav t v, signature = (5, ucast v, False)\<rparr>"

definition demo_registry :: "address signer_registry" where
  "demo_registry = [(1, \<lparr>signing_key = 5, accepted_signers = {5, 6}\<rparr>)]"

text \<open>The service's context, with two receipts stored, the signer 5 accepted, and a manager that
  refuses receipts up to the last RAV.\<close>

definition demo_context :: "demo_signature in_memory_context" where
  "demo_context =
     \<lparr>rav_storage = None,
      receipt_storage = [(0, receipt_new (demo_signed 10 5)), (1, receipt_new (demo_signed 20 7))],
      unique_id = 2, sender_escrow_storage = [1 \<mapsto> 100], timestamp_check = 0,
      sender_address = Some 5\<rparr>"

definition demo_manager ::
    "(demo_signature in_memory_context, unit, demo_signature signed_receipt) manager" where
  "demo_manager = manager_new demo_domain
     [stateful_timestamp_check timestamp_check (\<lambda>r. rcpt_timestamp_ns (message r)) (\<lambda>_. ''0x'')]"

lemma demo_context_inv: "mem_inv demo_context"
  by (simp add: mem_inv_def demo_context_def)

lemmas demo_defs = demo_domain_def demo_receipt_def demo_signed_def demo_rav_def demo_signed_rav_def
  demo_receipt_hash_def demo_rav_hash_def demo_registry_def

end
