(* ===== verification/CoreProperties.thy ===== *)
theory CoreProperties
  imports Lifecycle Instances
begin

text \<open>
  The properties of the crates \<open>receipt\<close>, \<open>graph\<close> and \<open>core\<close>: aggregation, the check
  pipeline, truncation, the requests and the stores of a manager on the in-memory context, and the
  life of a channel.
\<close>

section \<open>Aggregation\<close>

lemma aggregate_receipts_eq:
  "aggregate_receipts c p d s rs prev =
     (if prev_value prev + total_value rs < 2 ^ 128
      then Inr \<lparr>rav_collectionId = c, rav_payer = p, rav_serviceProvider = s, rav_dataService = d,
             rav_timestampNs = latest_timestamp rs (prev_timestamp prev),
             rav_valueAggregate = of_nat (prev_value prev + total_value rs), rav_metadata = []\<rparr>
      else Inl AggregateOverflow)"
  using aggregate_receipts_Inr_iff [of c p d s rs prev] aggregate_receipts_Inl_iff [of c p d s rs prev]
  by (simp add: not_less)

text \<open>C5. Aggregation is exact: unless the previous value and the receipts' values reach
  2^128 together (then the result is the overflow error and nothing else), the RAV carries their
  exact sum, the greatest timestamp of the receipts and the previous RAV, the given identity, and
  empty metadata.\<close>

theorem aggregate_receipts_exact:
  "aggregate_receipts c p d s rs prev =
     (if prev_value prev + total_value rs < 2 ^ 128
      then Inr \<lparr>rav_collectionId = c, rav_payer = p, rav_serviceProvider = s, rav_dataService = d,
             rav_timestampNs = Max (insert (prev_timestamp prev)
               ((\<lambda>r. rcpt_timestamp_ns (message r)) ` set rs)),
             rav_valueAggregate = of_nat (prev_value prev + total_value rs), rav_metadata = []\<rparr>
      else Inl AggregateOverflow)"
  by (simp only: aggregate_receipts_eq latest_timestamp_Max)

text \<open>Aggregation is incremental: aggregating a batch in two parts, the second on the RAV of
  the first, whatever its signature, is aggregating it at once; the first part fails only if the
  whole does.\<close>

lemma aggregate_receipts_incremental:
  "aggregate_receipts c p d s (rs @ rs') prev =
     rbind (aggregate_receipts c p d s rs prev)
       (\<lambda>v. aggregate_receipts c p d s rs' (Some \<lparr>message = v, signature = sg\<rparr>))"
proof (cases "prev_value prev + total_value rs < 2 ^ 128")
  case True
  let ?n = "prev_value prev + total_value rs"
  have n: "unat (of_nat ?n :: u128) = ?n" by (rule unat_of_nat_small) (use True in simp)
  show ?thesis
    by (simp only: aggregate_receipts_eq True if_True rbind_simps n total_value_simps
        latest_timestamp_simps prev_simps signed_message.simps rav.simps add.assoc [symmetric])
next
  case False
  then have "\<not> prev_value prev + total_value (rs @ rs') < 2 ^ 128" by simp
  with False show ?thesis by (simp only: aggregate_receipts_eq if_False rbind_simps)
qed

text \<open>Aggregation does not depend on the order of the receipts: any two lists with the same
  receipts, in the same number, give the same RAV or the same error.\<close>

lemma aggregate_receipts_order_irrelevant:
  assumes "mset rs = mset rs'"
  shows "aggregate_receipts c p d s rs prev = aggregate_receipts c p d s rs' prev"
  by (simp only: aggregate_receipts_eq total_value_mset_cong [OF assms]
      latest_timestamp_mset_cong [OF assms])

section \<open>The receipt checks\<close>

text \<open>The unique check partitions its input: nothing is dropped or added, the passing receipts
  have pairwise distinct identifiers, every identifier of the input passes once, and each failing
  receipt carries the error \<open>NonUniqueReceipt\<close>.\<close>

lemma unique_check_batch_partitions:
  "\<exists>ok bad. unique_check_batch ops rxs = Inr (ok, bad) \<and>
     image_mset rx_receipt (mset ok) + image_mset rx_receipt (mset bad) = image_mset rx_receipt (mset rxs) \<and>
     distinct (map (\<lambda>rx. op_unique_id ops (rx_receipt rx)) ok) \<and>
     (\<lambda>rx. op_unique_id ops (rx_receipt rx)) ` set ok = (\<lambda>rx. op_unique_id ops (rx_receipt rx)) ` set rxs \<and>
     rx_state ` set bad \<subseteq> {Failed NonUniqueReceipt}"
proof -
  obtain ok bad where run: "unique_check_loop (op_unique_id ops) {} rxs = (ok, bad)" by fastforce
  show ?thesis
    unfolding unique_check_batch_def run
    using unique_check_partition [OF run] unique_check_distinct [OF run] unique_check_covers [OF run]
      unique_check_failed_error [OF run] by auto
qed

text \<open>The outcome of a receipt's checks is that of the first check that does not pass, in the
  order of the list: a retryable error is returned and the receipt stays as it is, any other error
  becomes the receipt's failed state, and with no such check the receipt is checked.\<close>

lemma finalize_receipt_checks_first_failure:
  "finalize_receipt_checks st ctx checks rx =
     (case map (\<lambda>chk. chk st ctx rx) (dropWhile (\<lambda>chk. chk st ctx rx = Inr ()) checks) of
        Inl (Retryable e) # _ \<Rightarrow> Inl e
      | Inl (CheckFailed e) # _ \<Rightarrow> Inr (Inl (perform_state_error rx (CheckFailure e)))
      | _ \<Rightarrow> Inr (Inr (perform_state_changes rx Checked)))"
proof (induction checks)
  case Nil
  then show ?case by (simp add: finalize_cases)
next
  case (Cons chk checks)
  show ?case
  proof (cases "chk st ctx rx")
    case (Inl e)
    then show ?thesis by (cases e) (simp_all add: finalize_cases)
  next
    case (Inr u)
    with Cons show ?thesis by (simp add: finalize_cases)
  qed
qed

section \<open>Truncation\<close>

text \<open>C26. Truncation to a limit keeps the receipts before one timestamp and no others, at most as
  many as the limit: no timestamp is split. The cut is the timestamp of the first receipt past the
  limit in the order of the timestamps; a list within the limit is kept whole.\<close>

theorem safe_truncate_receipts_cut:
  "length (safe_truncate_receipts ts rxs limit) \<le> unat limit \<and>
   mset (safe_truncate_receipts ts rxs limit) =
     (if length rxs \<le> unat limit then mset rxs
      else filter_mset (\<lambda>rx. ts (rx_receipt rx) < sort (map (\<lambda>rx. ts (rx_receipt rx)) rxs) ! unat limit)
             (mset rxs))"
  unfolding safe_truncate_receipts_def signed_receipt_def
  by (simp only: key_sort.truncate_length key_sort.truncate_mset cut_timestamp_def simp_thms)

lemma sorted_takeWhile_le: "sorted xs \<Longrightarrow> takeWhile (\<lambda>x. x \<le> t) xs = filter (\<lambda>x. x \<le> t) xs"
proof (induction xs)
  case (Cons x xs)
  then have "filter (\<lambda>y. y \<le> t) xs = []" if "\<not> x \<le> t"
    using that by (force simp: filter_empty_conv)
  with Cons show ?case by auto
qed simp

lemma sorted_nth_least:
  assumes "n < length (filter (\<lambda>x. x = t) xs)" and "\<forall>x\<in>set xs. t \<le> x"
  shows "sort xs ! n = (t :: 'a :: linorder)"
proof -
  have "filter (\<lambda>x. x = t) xs = filter (\<lambda>x. x \<le> t) xs"
    using assms(2) by (intro filter_cong) auto
  then have "mset (takeWhile (\<lambda>x. x \<le> t) (sort xs)) = mset (filter (\<lambda>x. x = t) xs)"
    by (simp add: sorted_takeWhile_le)
  then have n: "n < length (takeWhile (\<lambda>x. x \<le> t) (sort xs))"
    using assms(1) by (metis mset_eq_length)
  then have "sort xs ! n \<le> t" by (metis nth_mem set_takeWhileD takeWhile_nth)
  moreover have "sort xs ! n \<in> set (sort xs)"
    using n by (intro nth_mem) (meson length_takeWhile_le order_less_le_trans)
  ultimately show ?thesis using assms(2) by (simp add: order_antisym)
qed

text \<open>The price of not splitting a timestamp: when more receipts than the limit carry the
  least timestamp of all, truncation returns none of them, and a retrieval makes no progress.\<close>

lemma safe_truncate_receipts_no_progress:
  assumes "unat limit < length (filter (\<lambda>rx. ts (rx_receipt rx) = t) rxs)"
    and "\<forall>rx\<in>set rxs. t \<le> ts (rx_receipt rx)"
  shows "safe_truncate_receipts ts rxs limit = []"
proof -
  let ?ts = "\<lambda>rx. ts (rx_receipt rx)"
  have long: "unat limit < length (filter (\<lambda>x. x = t) (map ?ts rxs))"
    using assms(1) by (simp add: filter_map comp_def)
  then have cut: "sort (map ?ts rxs) ! unat limit = t"
    by (rule sorted_nth_least) (use assms(2) in simp)
  have "\<not> length rxs \<le> unat limit"
    using order_less_le_trans [OF long length_filter_le] by simp
  then have "mset (safe_truncate_receipts ts rxs limit) = filter_mset (\<lambda>rx. ?ts rx < t) (mset rxs)"
    unfolding safe_truncate_receipts_def signed_receipt_def
    by (simp add: key_sort.truncate_mset cut_timestamp_def cut)
  also have "\<dots> = {#}" using assms(2) by (auto simp: filter_mset_eq_conv not_less)
  finally show ?thesis by simp
qed

section \<open>Requests\<close>

text \<open>The minimum of a request, one past a timestamp, stands for "later" below the greatest timestamp.\<close>

lemma after_iff_less:
  fixes s t :: u64
  assumes "unat s < 2 ^ 64 - 1"
  shows "s + 1 \<le> t \<longleftrightarrow> s < t"
proof -
  have "unat (s + 1) = unat s + 1" using assms by (simp add: unat_add_no_wrap)
  then show ?thesis by (simp add: word_le_nat_alt word_less_nat_alt Suc_le_eq)
qed

lemma demo_request:
  "create_rav_request in_memory_adapters (signed_receipt_ops demo_crypto) rav_timestampNs
      aggregate_checked demo_manager (Inr 1000) () 0 None demo_context =
    Inr \<lparr>req_valid_receipts = [\<lparr>rx_receipt = demo_signed 10 5, rx_state = Checked\<rparr>,
           \<lparr>rx_receipt = demo_signed 20 7, rx_state = Checked\<rparr>],
         req_previous_rav = None, req_invalid_receipts = [],
         req_expected_rav = Inr (demo_rav 20 12)\<rparr>"
  by code_simp

text \<open>C6. A RAV request made on a well-formed in-memory context is faithful to it: its previous RAV is the
  stored one, the expected RAV is the aggregate of the valid receipts onto it, valid and invalid
  receipts are stored ones, no two valid receipts share a signature, and all valid ones pass the
  manager's checks. Unless the previous RAV has the greatest timestamp there is (then the code's minimum
  wraps around to 0), the receipts are all later than the previous RAV, and no stored receipt that is
  later than it and has a timestamp up to that of a valid receipt is left out.\<close>

theorem create_rav_request_faithful:
  assumes "mem_inv c"
    and "create_rav_request in_memory_adapters (signed_receipt_ops C) rav_timestampNs aggregate_checked
           M since_epoch ctx buffer limit c = Inr req"
  shows "req_previous_rav req = rav_storage c \<and>
    req_expected_rav req = aggregate_checked (req_valid_receipts req) (rav_storage c) \<and>
    image_mset rx_receipt (mset (req_valid_receipts req)) +
      image_mset rx_receipt (mset (req_invalid_receipts req)) \<subseteq># mem_stored c \<and>
    distinct (map (\<lambda>v. get_signature_bytes C (signature (rx_receipt v))) (req_valid_receipts req)) \<and>
    (\<forall>v\<in>set (req_valid_receipts req). passes_all c ctx (mgr_checks M) (receipt_new (rx_receipt v))) \<and>
    ((\<forall>p. rav_storage c = Some p \<longrightarrow> unat (rav_timestampNs (message p)) < 2 ^ 64 - 1) \<longrightarrow>
      image_mset rx_receipt (mset (req_valid_receipts req)) +
        image_mset rx_receipt (mset (req_invalid_receipts req)) \<subseteq>#
        filter_mset (\<lambda>r. \<forall>p. rav_storage c = Some p \<longrightarrow>
          rav_timestampNs (message p) < rcpt_timestamp_ns (message r)) (mem_stored c) \<and>
      (\<forall>v\<in>set (req_valid_receipts req).
         filter_mset (\<lambda>r. (\<forall>p. rav_storage c = Some p \<longrightarrow>
               rav_timestampNs (message p) < rcpt_timestamp_ns (message r)) \<and>
             rcpt_timestamp_ns (message r) \<le> rcpt_timestamp_ns (message (rx_receipt v))) (mem_stored c) \<subseteq>#
           image_mset rx_receipt (mset (req_valid_receipts req)) +
             image_mset rx_receipt (mset (req_invalid_receipts req))))"
proof -
  let ?min = "min_timestamp_after rav_timestampNs (rav_storage c)"
  let ?all = "image_mset rx_receipt (mset (req_valid_receipts req)) +
      image_mset rx_receipt (mset (req_invalid_receipts req))"
  let ?later = "\<lambda>r. \<forall>p. rav_storage c = Some p \<longrightarrow> rav_timestampNs (message p) < rcpt_timestamp_ns (message r)"
  note ops = graph.ops_ts [of C] and run = mem.create_rav_request_Inr [OF assms]
  from mem.collect_receipts_mset [OF assms(1) ops run(3)] obtain P where
    P: "?all = filter_mset P (mem_stored c)" "\<forall>r. P r \<longrightarrow> ?min \<le> rcpt_timestamp_ns (message r)"
    by (auto simp: filter_filter_mset)
  have uid: "op_unique_id (signed_receipt_ops C) = (\<lambda>r. get_signature_bytes C (signature r))"
    by (simp add: signed_receipt_ops_def signed_message_ops_def)
  note valid = mem.collect_receipts_valid [OF assms(1) ops run(3), unfolded uid]
  have "?all \<subseteq># filter_mset ?later (mem_stored c) \<and> (\<forall>v\<in>set (req_valid_receipts req).
      filter_mset (\<lambda>r. ?later r \<and> rcpt_timestamp_ns (message r) \<le> rcpt_timestamp_ns (message (rx_receipt v)))
        (mem_stored c) \<subseteq># ?all)"
    if below: "\<forall>p. rav_storage c = Some p \<longrightarrow> unat (rav_timestampNs (message p)) < 2 ^ 64 - 1"
  proof -
    have later: "(?min \<le> rcpt_timestamp_ns (message r)) = ?later r" for r :: "'a signed_receipt"
      using below by (auto simp: min_timestamp_after_def after_iff_less split: option.split)
    from P have "?all = filter_mset P (filter_mset ?later (mem_stored c))"
      by (auto simp: filter_filter_mset later intro!: filter_mset_cong)
    then have "?all \<subseteq># filter_mset ?later (mem_stored c)" by (simp only: multiset_filter_subset)
    with mem.request_covers [OF assms(1) ops assms(2) _ order_refl] show ?thesis unfolding later by blast
  qed
  moreover have "?all \<subseteq># mem_stored c" unfolding P(1) by (rule multiset_filter_subset)
  ultimately show ?thesis using run(1,2) valid by blast
qed

theorem create_rav_request_faithful_witness:
  "\<exists>req. create_rav_request in_memory_adapters (signed_receipt_ops demo_crypto) rav_timestampNs
      aggregate_checked demo_manager (Inr 1000) () 0 None
      (demo_context\<lparr>rav_storage := Some (demo_signed_rav 10 5)\<rparr>) = Inr req \<and>
    image_mset rx_receipt (mset (req_valid_receipts req)) +
      image_mset rx_receipt (mset (req_invalid_receipts req)) = {#demo_signed 20 7#}"
proof -
  let ?c = "demo_context\<lparr>rav_storage := Some (demo_signed_rav 10 5)\<rparr>"
  let ?req = "\<lparr>req_valid_receipts = [\<lparr>rx_receipt = demo_signed 20 7, rx_state = Checked\<rparr>],
         req_previous_rav = Some (demo_signed_rav 10 5), req_invalid_receipts = [],
         req_expected_rav = Inr (demo_rav 20 12)\<rparr>"
  let ?all = "image_mset rx_receipt (mset (req_valid_receipts ?req)) +
      image_mset rx_receipt (mset (req_invalid_receipts ?req))"
  have run: "create_rav_request in_memory_adapters (signed_receipt_ops demo_crypto) rav_timestampNs
      aggregate_checked demo_manager (Inr 1000) () 0 None ?c = Inr ?req" by code_simp
  have inv: "mem_inv ?c" by (simp add: mem_inv_def demo_context_def)
  have new: "filter_mset (\<lambda>r. \<forall>p. rav_storage ?c = Some p \<longrightarrow>
        rav_timestampNs (message p) < rcpt_timestamp_ns (message r)) (mem_stored ?c) = {#demo_signed 20 7#}"
    "filter_mset (\<lambda>r. (\<forall>p. rav_storage ?c = Some p \<longrightarrow>
        rav_timestampNs (message p) < rcpt_timestamp_ns (message r)) \<and>
        rcpt_timestamp_ns (message r) \<le> rcpt_timestamp_ns (message (demo_signed 20 7))) (mem_stored ?c) =
      {#demo_signed 20 7#}"
    by (simp_all add: mem_stored_def demo_context_def demo_defs receipt_new_def)
  have below: "\<forall>p. rav_storage ?c = Some p \<longrightarrow> unat (rav_timestampNs (message p)) < 2 ^ 64 - 1"
    by (simp add: demo_defs)
  from create_rav_request_faithful [OF inv run] below
  have both: "?all \<subseteq># {#demo_signed 20 7#} \<and> (\<forall>v\<in>set (req_valid_receipts ?req).
      filter_mset (\<lambda>r. (\<forall>p. rav_storage ?c = Some p \<longrightarrow>
        rav_timestampNs (message p) < rcpt_timestamp_ns (message r)) \<and>
        rcpt_timestamp_ns (message r) \<le> rcpt_timestamp_ns (message (rx_receipt v))) (mem_stored ?c) \<subseteq># ?all)"
    unfolding new(1) by blast
  from conjunct1 [OF both] bspec [OF conjunct2 [OF both], of "\<lparr>rx_receipt = demo_signed 20 7, rx_state = Checked\<rparr>"]
  have "?all = {#demo_signed 20 7#}" using new(2) by (intro subset_mset.order_antisym) simp_all
  with run show ?thesis by blast
qed

lemma demo_store_rav:
  "verify_and_store_rav in_memory_adapters demo_crypto demo_rav_hash demo_manager
      (demo_rav 20 12) (demo_signed_rav 20 12) demo_context =
    (Inr () :: rav core_error + unit,
     demo_context\<lparr>rav_storage := Some (demo_signed_rav 20 12), timestamp_check := 20\<rparr>)"
  by code_simp

text \<open>C14. A RAV is stored exactly when its signature recovers to the context's signer and its
  message is the expected one; then it becomes the last RAV, its timestamp becomes the minimum of
  the timestamp check, and nothing else changes. In every other case the context is unchanged.\<close>

theorem verify_and_store_rav_exact:
  "if (\<exists>a. recover_signer C hash (mgr_domain_separator M) sr = Inr a \<and> sender_address c = Some a) \<and>
      message sr = expected
   then verify_and_store_rav in_memory_adapters C hash M expected sr c =
     (Inr (), c\<lparr>rav_storage := Some sr, timestamp_check := rav_timestampNs (message sr)\<rparr>)
   else \<exists>e. verify_and_store_rav in_memory_adapters C hash M expected sr c = (Inl e, c)"
proof (cases "recover_signer C hash (mgr_domain_separator M) sr")
  case (Inl e)
  then show ?thesis by (simp add: verify_and_store_rav_def check_signature_def)
next
  case (Inr a)
  then show ?thesis
    by (auto simp: verify_and_store_rav_def check_signature_def mem_adapter_defs Let_def
        split: option.split)
qed

text \<open>At the greatest timestamp the minimum of the next request wraps around to 0: a RAV with
  timestamp \<open>u64::MAX\<close> makes the request of an unlimited retrieval start over, so that every
  stored receipt before the buffer is in the request again, although the RAV covers it.\<close>

lemma request_after_greatest_timestamp:
  assumes "mem_inv c" and "rav_storage c = Some sr" and "rav_timestampNs (message sr) = - 1"
    and "create_rav_request in_memory_adapters (signed_receipt_ops C) rav_timestampNs aggregate_checked
           M (Inr now) ctx buffer None c = Inr req"
  shows "image_mset rx_receipt (mset (req_valid_receipts req)) +
      image_mset rx_receipt (mset (req_invalid_receipts req)) =
    filter_mset (\<lambda>r. rcpt_timestamp_ns (message r) < ucast now - buffer) (mem_stored c)"
proof -
  have zero: "min_timestamp_after rav_timestampNs (rav_storage c) = 0"
    using assms(2,3) by (simp add: min_timestamp_after_def)
  from mem.collect_receipts_mset [OF assms(1) graph.ops_ts [of C] mem.create_rav_request_Inr(3) [OF assms(1,4)]]
  show ?thesis by (auto simp: zero within_limit_def filter_filter_mset)
qed

lemma request_after_greatest_timestamp_example:
  "\<exists>req. create_rav_request in_memory_adapters (signed_receipt_ops demo_crypto) rav_timestampNs
      aggregate_checked demo_manager (Inr 1000) () 0 None
      (demo_context\<lparr>rav_storage := Some (demo_signed_rav (- 1) 12)\<rparr>) = Inr req \<and>
    image_mset rx_receipt (mset (req_valid_receipts req)) +
      image_mset rx_receipt (mset (req_invalid_receipts req)) = {#demo_signed 10 5, demo_signed 20 7#}"
proof -
  let ?c = "demo_context\<lparr>rav_storage := Some (demo_signed_rav (- 1) 12)\<rparr>"
  have run: "create_rav_request in_memory_adapters (signed_receipt_ops demo_crypto) rav_timestampNs
      aggregate_checked demo_manager (Inr 1000) () 0 None ?c =
    Inr \<lparr>req_valid_receipts = [\<lparr>rx_receipt = demo_signed 10 5, rx_state = Checked\<rparr>,
           \<lparr>rx_receipt = demo_signed 20 7, rx_state = Checked\<rparr>],
         req_previous_rav = Some (demo_signed_rav (- 1) 12), req_invalid_receipts = [],
         req_expected_rav = Inr (demo_rav (- 1) 24)\<rparr>"
    by code_simp
  have "filter_mset (\<lambda>r. rcpt_timestamp_ns (message r) < ucast (1000 :: u128) - 0) (mem_stored ?c) =
      {#demo_signed 10 5, demo_signed 20 7#}"
    by (simp add: mem_stored_def demo_context_def demo_defs receipt_new_def)
  with run request_after_greatest_timestamp [OF _ _ _ run, of "demo_signed_rav (- 1) 12"] show ?thesis
    by (simp add: demo_defs demo_context_inv [unfolded mem_inv_def] mem_inv_def)
qed

text \<open>A buffer longer than the clock wraps around instead of leaving an empty window: the
  request of an unlimited retrieval then takes in all the receipts up to 2^64 nanoseconds minus the
  excess, those of the future included.\<close>

lemma request_with_long_buffer:
  assumes "mem_inv c" and "rav_storage c = None" and "unat (ucast now :: u64) < unat buffer"
    and "create_rav_request in_memory_adapters (signed_receipt_ops C) rav_timestampNs aggregate_checked
           M (Inr now) ctx buffer None c = Inr req"
  shows "image_mset rx_receipt (mset (req_valid_receipts req)) +
      image_mset rx_receipt (mset (req_invalid_receipts req)) =
    filter_mset (\<lambda>r. unat (rcpt_timestamp_ns (message r)) + (unat buffer - unat (ucast now :: u64)) < 2 ^ 64)
      (mem_stored c)"
proof -
  let ?now = "ucast now :: u64"
  have zero: "min_timestamp_after rav_timestampNs (rav_storage c) = 0"
    using assms(2) by (simp add: min_timestamp_after_def)
  have "unat (?now - buffer) = unat ?now + 2 ^ 64 - unat buffer"
    using assms(3) by (simp add: unat_sub_if_size word_size)
  then have "t < ?now - buffer \<longleftrightarrow> unat t + (unat buffer - unat ?now) < 2 ^ 64" for t :: u64
    using unat_less_power [of buffer] assms(3) by (auto simp: word_less_nat_alt)
  with mem.collect_receipts_mset [OF assms(1) graph.ops_ts [of C] mem.create_rav_request_Inr(3) [OF assms(1,4)]]
  show ?thesis by (auto simp: zero within_limit_def filter_filter_mset)
qed

text \<open>C25. A request on the in-memory context fails in three ways only: the clock is before the
  epoch, the window from the code's minimum after the previous RAV to the clock less the buffer is
  empty, or a check of a stored receipt asks to be retried; the error names the cause. So an aggregate
  that overflows does not fail the request, unlike what its documentation says: the request is
  returned, and its expected RAV is the error (C6 and C5).\<close>

theorem create_rav_request_errors:
  assumes "mem_inv c"
    and "create_rav_request in_memory_adapters (signed_receipt_ops C) rav_timestampNs aggregate_checked
           M since_epoch ctx buffer limit c = Inl e"
  shows "(\<exists>m. since_epoch = Inl m \<and> e = InvalidSystemTime m) \<or>
    (\<exists>now. since_epoch = Inr now \<and>
       ucast now - buffer < min_timestamp_after rav_timestampNs (rav_storage c) \<and>
       e = TimestampRangeError (min_timestamp_after rav_timestampNs (rav_storage c)) (ucast now - buffer)) \<or>
    (\<exists>r\<in>#mem_stored c. \<exists>chk\<in>set (mgr_checks M). \<exists>m.
       chk c ctx (receipt_new r) = Inl (Retryable m) \<and> e = ReceiptError (RetryableCheck m))"
proof -
  let ?min = "min_timestamp_after rav_timestampNs (rav_storage c)"
  from assms have run: "collect_receipts in_memory_adapters (signed_receipt_ops C) M since_epoch ctx buffer
      ?min limit c = Inl e"
    by (simp add: create_rav_request_def get_previous_rav_def mem.last_rav_saved rbind_Inl_iff Let_def
        split: prod.splits)
  from mem.collect_receipts_Inl [OF assms(1) this] show ?thesis .
qed

theorem create_rav_request_errors_witness:
  "\<exists>c (e :: rav core_error). create_rav_request in_memory_adapters (signed_receipt_ops demo_crypto)
      rav_timestampNs aggregate_checked demo_manager (Inr 1000) () 10 None c = Inl e \<and>
    ((\<exists>now. (Inr 1000 :: string + u128) = Inr now \<and>
       ucast now - 10 < min_timestamp_after rav_timestampNs (rav_storage c) \<and>
       e = TimestampRangeError (min_timestamp_after rav_timestampNs (rav_storage c)) (ucast now - 10)) \<or>
    (\<exists>r\<in>#mem_stored c. \<exists>chk\<in>set (mgr_checks demo_manager). \<exists>m.
       chk c () (receipt_new r) = Inl (Retryable m) \<and> e = ReceiptError (RetryableCheck m)))"
proof -
  let ?c = "demo_context\<lparr>rav_storage := Some (demo_signed_rav 990 12)\<rparr>"
  have run: "create_rav_request in_memory_adapters (signed_receipt_ops demo_crypto) rav_timestampNs
      aggregate_checked demo_manager (Inr 1000) () 10 None ?c = Inl (TimestampRangeError 991 990)"
    by code_simp
  have "mem_inv ?c" by (simp add: mem_inv_def demo_context_def)
  from create_rav_request_errors [OF this run] run show ?thesis by blast
qed

section \<open>The stores of the in-memory context\<close>

text \<open>Storing a receipt and reading it back by the identifier that the store returned gives the
  receipt; removing it by that identifier leaves the receipts as they were before, and no other
  identifier is touched.\<close>

lemma store_retrieve_remove:
  assumes "mem_inv c"
  shows "\<exists>c'. mem_store_receipt rx c = (Inr (unique_id c), c') \<and>
    retrieve_receipt_by_id (unique_id c) c' = Inr rx \<and>
    (\<forall>i. i \<noteq> unique_id c \<longrightarrow> retrieve_receipt_by_id i c' = retrieve_receipt_by_id i c) \<and>
    remove_receipt_by_id (unique_id c) c' = (Inr (), c\<lparr>unique_id := unique_id c + 1\<rparr>)"
proof -
  let ?i = "unique_id c"
  have fresh: "?i \<notin> fst ` set (receipt_storage c)" using assms by (auto simp: mem_inv_def)
  then have "map_of (receipt_storage c) ?i = None" by (simp add: map_of_eq_None_iff)
  moreover have "AList.delete ?i (receipt_storage c) = receipt_storage c"
    using fresh by (force simp: AList.delete_eq intro!: filter_True)
  ultimately show ?thesis
    using fresh
    by (simp add: mem_store_receipt_def retrieve_receipt_by_id_def remove_receipt_by_id_def Let_def
        update_fresh map_add_def AList.delete_eq split: option.split)
qed

lemma store_retrieve_remove_example:
  "\<exists>c'. mem_store_receipt (receipt_new (demo_signed 30 1)) demo_context = (Inr 2, c') \<and>
    retrieve_receipt_by_id 2 c' = Inr (receipt_new (demo_signed 30 1)) \<and>
    remove_receipt_by_id 2 c' = (Inr (), demo_context\<lparr>unique_id := 3\<rparr>)"
  using store_retrieve_remove [OF demo_context_inv, of "receipt_new (demo_signed 30 1)"]
  by (simp add: demo_context_def) blast

text \<open>Escrow is spent exactly: a reduction succeeds if and only if the sender has an escrow of
  at least that value, lowers it by that value and changes no other; a failed one changes nothing.
  An increase below 2^128 can be spent again in full, which restores the escrow.\<close>

lemma escrow_accounting:
  "(case sender_escrow_storage c a of
      Some e \<Rightarrow>
        if v \<le> e
        then reduce_escrow a v c =
               (Inr (), c\<lparr>sender_escrow_storage := (sender_escrow_storage c)(a \<mapsto> e - v)\<rparr>)
        else reduce_escrow a v c =
               (Inl (InMemoryAdapterError ''Provided value is greater than existing escrow.''), c)
    | None \<Rightarrow> reduce_escrow a v c =
               (Inl (InMemoryAdapterError ''Provided value is greater than existing escrow.''), c)) \<and>
   (unat (case sender_escrow_storage c a of None \<Rightarrow> 0 | Some e \<Rightarrow> e) + unat v < 2 ^ 128 \<longrightarrow>
      (\<exists>c'. reduce_escrow a v (increase_escrow a v c) = (Inr (), c') \<and>
         escrow a c' = Inr (case sender_escrow_storage c a of None \<Rightarrow> 0 | Some e \<Rightarrow> e)))"
proof (intro conjI impI, goal_cases)
  case 1
  then show ?case
    by (auto simp: reduce_escrow_def checked_sub_def split: option.split)
next
  case 2
  let ?e = "case sender_escrow_storage c a of None \<Rightarrow> 0 | Some e \<Rightarrow> e"
  have "v \<le> ?e + v"
    using 2 by (simp add: word_le_nat_alt unat_add_no_wrap)
  then show ?case
    by (simp add: reduce_escrow_def increase_escrow_def escrow_def checked_sub_def Let_def)
qed

lemma escrow_accounting_example:
  "\<exists>c'. reduce_escrow 1 50 (increase_escrow 1 50 demo_context) = (Inr (), c') \<and> escrow 1 c' = Inr 100"
  using escrow_accounting [where c = demo_context and a = 1 and v = 50] by (simp add: demo_context_def)

section \<open>The identifiers of the in-memory context\<close>

text \<open>The operations of the context that change it.\<close>

datatype 'sg context_op =
    StoreOp "'sg signed_receipt checking_receipt"
  | RemoveOp u64
  | RemoveAllOp "u64 list"
  | RemoveRangeOp u64_range
  | UpdateRavOp "'sg signed_rav"
  | IncreaseOp address u128
  | ReduceOp address u128
  | SenderOp address

fun context_step :: "'sg context_op \<Rightarrow> 'sg in_memory_context \<Rightarrow> 'sg in_memory_context" where
  "context_step (StoreOp rx) c = snd (mem_store_receipt rx c)"
| "context_step (RemoveOp i) c = snd (remove_receipt_by_id i c)"
| "context_step (RemoveAllOp ids) c = snd (remove_receipts_by_ids ids c)"
| "context_step (RemoveRangeOp R) c = snd (mem_remove_receipts R c)"
| "context_step (UpdateRavOp v) c = snd (mem_update_last_rav v c)"
| "context_step (IncreaseOp a v) c = increase_escrow a v c"
| "context_step (ReduceOp a v) c = snd (reduce_escrow a v c)"
| "context_step (SenderOp a) c = with_sender_address a c"

definition stores :: "'sg context_op list \<Rightarrow> 'sg signed_receipt checking_receipt list" where
  "stores = List.map_filter (\<lambda>op. case op of StoreOp rx \<Rightarrow> Some rx | _ \<Rightarrow> None)"

lemma stores_snoc: "stores (ops @ [op]) = stores ops @ (case op of StoreOp rx \<Rightarrow> [rx] | _ \<Rightarrow> [])"
  by (cases op) (simp_all add: stores_def List.map_filter_def)

text \<open>Entries are only removed, the counter stays.\<close>

definition shrinks :: "'sg in_memory_context \<Rightarrow> 'sg in_memory_context \<Rightarrow> bool" where
  "shrinks c c' \<longleftrightarrow> unique_id c' = unique_id c \<and> set (receipt_storage c') \<subseteq> set (receipt_storage c) \<and>
     (distinct (map fst (receipt_storage c)) \<longrightarrow> distinct (map fst (receipt_storage c')))"

lemma remove_shrinks: "shrinks c (snd (remove_receipt_by_id i c))"
  by (auto simp: shrinks_def remove_receipt_by_id_def AList.delete_eq distinct_map_filter)

lemma remove_all_shrinks: "shrinks c (snd (remove_receipts_by_ids ids c))"
proof (induction ids arbitrary: c)
  case (Cons i ids)
  obtain res c' where run: "remove_receipt_by_id i c = (res, c')" by fastforce
  with remove_shrinks [of c i] have "shrinks c c'" by simp
  with Cons [of c'] run show ?case by (cases res) (auto simp: shrinks_def)
qed (simp add: shrinks_def)

lemma step_shrinks:
  assumes "\<And>rx. op \<noteq> StoreOp rx"
  shows "shrinks c (context_step op c)"
proof (cases op)
  case (RemoveRangeOp R)
  then show ?thesis by (auto simp: shrinks_def mem_remove_receipts_def distinct_map_filter)
next
  case (StoreOp rx)
  with assms show ?thesis by blast
qed (simp_all add: remove_shrinks remove_all_shrinks,
     auto simp: shrinks_def mem_update_last_rav_def increase_escrow_def reduce_escrow_def with_sender_address_def
       Let_def split: option.split)

text \<open>C27. The context is well formed after any sequence of its operations on a new one without
  receipts, up to 2^64 stores: the identifiers of the stored receipts are distinct and below the
  counter, which counts the stores; and an identifier names one receipt for good: whatever is read by
  it is the receipt of that store, never one that was stored later.\<close>

theorem identifiers_name_one_receipt:
  assumes "length (stores ops) < 2 ^ 64" and "c = fold context_step ops (in_memory_new ravs [] escrows t)"
  shows "mem_inv c \<and> unique_id c = of_nat (length (stores ops)) \<and>
    (\<forall>i rx. retrieve_receipt_by_id i c = Inr rx \<longrightarrow>
       unat i < length (stores ops) \<and> rx = stores ops ! unat i)"
proof -
  have "distinct (map fst (receipt_storage c)) \<and> unique_id c = of_nat (length (stores ops)) \<and>
    (\<forall>(i, rx)\<in>set (receipt_storage c). unat i < length (stores ops) \<and> rx = stores ops ! unat i)"
    using assms
  proof (induction ops arbitrary: c rule: rev_induct)
    case Nil
    then show ?case by (simp add: in_memory_new_def stores_def List.map_filter_simps)
  next
    case (snoc op ops)
    let ?c = "fold context_step ops (in_memory_new ravs [] escrows t)"
    have c: "c = context_step op ?c" using snoc.prems(2) by simp
    have "length (stores ops) < 2 ^ 64" using snoc.prems(1) by (simp add: stores_snoc)
    note IH = snoc.IH [OF this refl]
    show ?case
    proof (cases "\<exists>rx. op = StoreOp rx")
      case False
      then have st: "stores (ops @ [op]) = stores ops" by (cases op) (simp_all add: stores_snoc)
      from False have "shrinks ?c c" unfolding c by (intro step_shrinks) blast
      with IH show ?thesis unfolding st by (auto simp: shrinks_def)
    next
      case True
      then obtain rx where op: "op = StoreOp rx" by blast
      have n: "unat (of_nat (length (stores ops)) :: u64) = length (stores ops)"
        by (rule unat_of_nat_small) (use snoc.prems(1) in \<open>simp add: stores_snoc op\<close>)
      with IH have "unique_id ?c \<notin> fst ` set (receipt_storage ?c)" by force
      with IH n show ?thesis
        by (auto simp: c op mem_store_receipt_def Let_def update_fresh stores_snoc nth_append)
    qed
  qed
  moreover from this have "\<forall>i\<in>fst ` set (receipt_storage c). i < unique_id c"
    using unat_of_nat_small [of "length (stores ops)", where 'a = 64] assms(1) by (auto simp: word_less_nat_alt)
  ultimately show ?thesis
    by (auto simp: mem_inv_def retrieve_receipt_by_id_def ok_or_def split: option.splits dest!: map_of_SomeD)
qed

theorem identifiers_name_one_receipt_witness:
  "retrieve_receipt_by_id 1 (fold context_step
      [StoreOp (receipt_new (demo_signed 10 5)), RemoveOp 0, StoreOp (receipt_new (demo_signed 20 7))]
      (in_memory_new None [] Map.empty 0)) = Inr (receipt_new (demo_signed 20 7))"
proof -
  let ?ops = "[StoreOp (receipt_new (demo_signed 10 5)), RemoveOp 0, StoreOp (receipt_new (demo_signed 20 7))]"
  let ?c = "fold context_step ?ops (in_memory_new None [] Map.empty 0)"
  have stores: "stores ?ops = [receipt_new (demo_signed 10 5), receipt_new (demo_signed 20 7)]"
    by (simp add: stores_def List.map_filter_simps)
  obtain rx where "retrieve_receipt_by_id 1 ?c = Inr rx"
    by (simp add: mem_store_receipt_def remove_receipt_by_id_def retrieve_receipt_by_id_def in_memory_new_def Let_def ok_or_def)
  moreover have "length (stores ?ops) < 2 ^ 64" by (simp add: stores)
  from identifiers_name_one_receipt [OF this refl, of None Map.empty 0] calculation
  have "rx = stores ?ops ! unat (1 :: u64)" by blast
  ultimately show ?thesis by (simp add: stores)
qed

section \<open>Receipts that a RAV covers\<close>

text \<open>No operation but the storing of a RAV moves the minimum of the timestamp check.\<close>

lemma remove_all_keeps_check: "timestamp_check (snd (remove_receipts_by_ids ids c)) = timestamp_check c"
proof (induction ids arbitrary: c)
  case (Cons i ids)
  obtain res c' where run: "remove_receipt_by_id i c = (res, c')" by fastforce
  then have "timestamp_check c' = timestamp_check c" by (auto simp: remove_receipt_by_id_def split: if_splits)
  with Cons [of c'] run show ?case by (cases res) simp_all
qed simp

lemma step_keeps_check:
  "timestamp_check (context_step op c) =
     (case op of UpdateRavOp v \<Rightarrow> rav_timestampNs (message v) | _ \<Rightarrow> timestamp_check c)"
  by (cases op)
     (auto simp: remove_all_keeps_check mem_store_receipt_def remove_receipt_by_id_def mem_remove_receipts_def
       mem_update_last_rav_def increase_escrow_def reduce_escrow_def with_sender_address_def Let_def
       split: option.split)

lemma steps_keep_check:
  assumes "t \<le> timestamp_check c" and "\<And>v. UpdateRavOp v \<in> set ops \<Longrightarrow> t \<le> rav_timestampNs (message v)"
  shows "t \<le> timestamp_check (fold context_step ops c)"
  using assms
proof (induction ops arbitrary: c)
  case (Cons op ops)
  have "t \<le> timestamp_check (context_step op c)"
    unfolding step_keeps_check using Cons.prems by (cases op) simp_all
  with Cons show ?case by simp
qed simp

text \<open>C24. A receipt that the last RAV covers is refused from then on: after a RAV has been stored, and
  whatever operations of the context follow (receipts stored or removed, newer RAVs, escrow), a manager
  with the stateful timestamp check stores no receipt at or before the RAV's timestamp, and the refused
  call leaves the context as it is. This holds as long as no RAV with a smaller timestamp is stored
  (C40 shows what follows from one), and for a call whose check and store are not interrupted (C39).\<close>

theorem covered_receipt_refused:
  assumes "verify_and_store_rav in_memory_adapters C hash M expected sr c = (Inr (), c')"
    and "\<And>v. UpdateRavOp v \<in> set ops \<Longrightarrow> rav_timestampNs (message sr) \<le> rav_timestampNs (message v)"
    and "c'' = fold context_step ops c'"
    and "stateful_timestamp_check timestamp_check (\<lambda>r. rcpt_timestamp_ns (message r)) show_b256
           \<in> set (mgr_checks M)"
    and "rcpt_timestamp_ns (message r) \<le> rav_timestampNs (message sr)"
  shows "\<exists>e. verify_and_store_receipt in_memory_adapters M ctx r c'' = (Inl (ReceiptError e), c'')"
proof -
  from assms(1) have "timestamp_check c' = rav_timestampNs (message sr)"
    by (auto simp: verify_and_store_rav_def mem_adapter_defs Let_def split: sum.splits if_splits)
  then have "rav_timestampNs (message sr) \<le> timestamp_check c''"
    unfolding assms(3) by (intro steps_keep_check assms(2)) simp_all
  with assms(5) have "rcpt_timestamp_ns (message r) \<le> timestamp_check c''" by (rule order_trans)
  then have "stateful_timestamp_check timestamp_check (\<lambda>r. rcpt_timestamp_ns (message r))
      show_b256 c'' ctx (receipt_new r) \<noteq> Inr ()"
    by (simp add: stateful_timestamp_check_Inr_iff)
  with assms(4) have "perform_checks c'' ctx (mgr_checks M) (receipt_new r) \<noteq> Inr ()"
    unfolding perform_checks_Inr_iff by blast
  then obtain e where "perform_checks c'' ctx (mgr_checks M) (receipt_new r) = Inl e"
    by (cases "perform_checks c'' ctx (mgr_checks M) (receipt_new r)") auto
  then show ?thesis by (simp add: verify_and_store_receipt_def)
qed

theorem covered_receipt_refused_witness:
  "\<exists>c' c'' e. verify_and_store_rav in_memory_adapters demo_crypto demo_rav_hash demo_manager
        (demo_rav 20 12) (demo_signed_rav 20 12) demo_context = (Inr () :: rav core_error + unit, c') \<and>
     c'' = fold context_step [StoreOp (receipt_new (demo_signed 30 1)), RemoveOp 0, UpdateRavOp (demo_signed_rav 30 13)] c' \<and>
     verify_and_store_receipt in_memory_adapters demo_manager () (demo_signed 20 3) c'' =
       (Inl (ReceiptError e) :: rav core_error + unit, c'')"
proof -
  let ?c' = "demo_context\<lparr>rav_storage := Some (demo_signed_rav 20 12), timestamp_check := 20\<rparr>"
  let ?ops = "[StoreOp (receipt_new (demo_signed 30 1)), RemoveOp 0, UpdateRavOp (demo_signed_rav 30 13)]"
  let ?c'' = "fold context_step ?ops ?c'"
  have newer: "rav_timestampNs (message (demo_signed_rav 20 12)) \<le> rav_timestampNs (message v)"
    if "UpdateRavOp v \<in> set ?ops" for v using that by (auto simp: demo_defs)
  have "\<exists>e. verify_and_store_receipt in_memory_adapters demo_manager () (demo_signed 20 3) ?c'' =
       (Inl (ReceiptError e) :: rav core_error + unit, ?c'')"
    by (rule covered_receipt_refused [OF demo_store_rav newer refl])
       (simp_all add: demo_manager_def manager_new_def demo_defs)
  with demo_store_rav show ?thesis by blast
qed

section \<open>The life of a channel\<close>

text \<open>C1. The books of a channel balance, however the manager's operations interleave at their calls
  to a fresh in-memory context with room for its stores (fewer than 2^64): with any checks, clocks, buffers and limits, calls that fail, tasks
  that are dropped, answers in any order, repeated or lost, and as long as no accepted receipt
  carries the greatest timestamp, the stored receipts are accepted ones; the last RAV is worth
  exactly the receipts it aggregates, each an accepted one counted at most as often as it was
  accepted and none newer than the RAV. If the requests under way are given up when a RAV is stored,
  an accepted receipt that is no longer stored is covered by the last RAV, and the receipts of every
  awaited RAV extend those of the last one.\<close>

theorem channel_accounting:
  assumes "calls S mem_room overlap c0 c accepted aggregated tasks"
    and "sys_adapters S = in_memory_adapters" and "sys_ops S = signed_receipt_ops C"
    and "sys_rav_ts S = rav_timestampNs" and "sys_agg S = aggregate_checked"
    and "mem_inv c0" and "receipt_storage c0 = []" and "rav_storage c0 = None"
    and "\<forall>r\<in>#accepted. rcpt_timestamp_ns (message r) < - 1"
  shows "mem_stored c \<subseteq># accepted \<and>
    aggregated \<subseteq># accepted \<and>
    (case rav_storage c of None \<Rightarrow> 0 | Some v \<Rightarrow> unat (rav_valueAggregate (message v))) =
      (\<Sum>r\<in>#aggregated. unat (rcpt_value (message r))) \<and>
    (\<forall>r\<in>#aggregated. \<exists>v. rav_storage c = Some v \<and>
       rcpt_timestamp_ns (message r) \<le> rav_timestampNs (message v)) \<and>
    (\<not> overlap \<longrightarrow>
      (\<forall>r\<in>#accepted - mem_stored c. \<exists>v. rav_storage c = Some v \<and>
         rcpt_timestamp_ns (message r) \<le> rav_timestampNs (message v)) \<and>
      (\<forall>expected claimed. Awaiting expected claimed \<in># tasks \<longrightarrow> aggregated \<subseteq># claimed))"
proof -
  have "mem_stored c0 = {#}" using assms(7) by (simp add: mem_stored_def)
  from graph.calls_safe [OF assms(1-6) this assms(8,9)]
  have B: "graph.books_inv c accepted aggregated tasks"
    and O: "\<not> overlap \<longrightarrow> graph.order_inv c accepted aggregated tasks" by (auto simp: graph.safe_def)
  from B have "mem_stored c \<subseteq># accepted" by (simp add: graph.books_inv_def)
  with graph.books_aggregated(1-3) [OF B] O show ?thesis
    by (fastforce simp: graph.before_def graph.owed_def graph.order_inv_def graph.extends_last_def)
qed

text \<open>A run of the demonstration channel: two receipts are accepted and then aggregated.\<close>

definition demo_start :: "demo_signature in_memory_context" where
  "demo_start = demo_context\<lparr>receipt_storage := [], unique_id := 0\<rparr>"

definition demo_first :: "demo_signature in_memory_context" where
  "demo_first = demo_start\<lparr>receipt_storage := [(0, receipt_new (demo_signed 10 5))], unique_id := 1\<rparr>"

definition demo_settled :: "demo_signature in_memory_context" where
  "demo_settled = demo_context\<lparr>rav_storage := Some (demo_signed_rav 20 12), timestamp_check := 20\<rparr>"

definition demo_system ::
    "(demo_signature in_memory_context, unit, demo_signature signed_receipt, signature_bytes, rav,
      demo_signature, address) system" where
  "demo_system =
     \<lparr>sys_adapters = in_memory_adapters, sys_ops = signed_receipt_ops demo_crypto,
      sys_rav_ts = rav_timestampNs, sys_agg = aggregate_checked, sys_manager = demo_manager,
      sys_crypto = demo_crypto, sys_rav_hash = demo_rav_hash\<rparr>"

lemma demo_system_simps [simp]:
  "sys_adapters demo_system = in_memory_adapters" "sys_ops demo_system = signed_receipt_ops demo_crypto"
  "sys_rav_ts demo_system = rav_timestampNs" "sys_agg demo_system = aggregate_checked"
  "sys_manager demo_system = demo_manager" "sys_crypto demo_system = demo_crypto"
  "sys_rav_hash demo_system = demo_rav_hash"
  by (simp_all add: demo_system_def)

lemma demo_store_receipts:
  "verify_and_store_receipt in_memory_adapters demo_manager () (demo_signed 10 5) demo_start =
     (Inr () :: rav core_error + unit, demo_first)"
  "verify_and_store_receipt in_memory_adapters demo_manager () (demo_signed 20 7) demo_first =
     (Inr () :: rav core_error + unit, demo_context)"
  by (simp_all add: verify_and_store_receipt_def mem_adapter_defs demo_manager_def manager_new_def
      stateful_timestamp_check_def demo_start_def demo_first_def demo_context_def demo_defs signed_receipt_def
      receipt_new_def Let_def)

lemma demo_room: "mem_room demo_start" "mem_room demo_first"
  unfolding mem_room_def by code_simp+

lemma demo_calls_first: "calls demo_system mem_room overlap demo_start demo_first {#demo_signed 10 5#} {#} {#}"
proof -
  have "calls demo_system mem_room overlap demo_start demo_start {#} {#} {#}" by (rule calls.start)
  from calls_receive [OF this demo_room(1), of "()" "demo_signed 10 5"] show ?thesis
    by (simp add: demo_store_receipts)
qed

lemma demo_calls_received:
  assumes "calls demo_system mem_room overlap demo_start demo_first {#demo_signed 10 5#} {#} tasks"
  shows "calls demo_system mem_room overlap demo_start demo_context
    {#demo_signed 20 7, demo_signed 10 5#} {#} tasks"
  using calls_receive [OF assms demo_room(2), of "()" "demo_signed 20 7"]
  by (simp add: demo_store_receipts)

abbreviation demo_awaited :: "(rav, demo_signature, demo_signature signed_receipt) task" where
  "demo_awaited \<equiv> Awaiting (demo_rav 20 12) {#demo_signed 10 5, demo_signed 20 7#}"

lemma demo_calls_requested:
  assumes "calls demo_system mem_room overlap demo_start demo_context
    {#demo_signed 20 7, demo_signed 10 5#} {#} tasks"
  shows "calls demo_system mem_room overlap demo_start demo_context
    {#demo_signed 20 7, demo_signed 10 5#} {#} (add_mset demo_awaited tasks)"
  using calls_request [OF assms, of "Inr 1000" "()" 0 None, unfolded demo_system_simps, OF demo_request]
  by simp

lemma demo_calls_settled:
  assumes "calls demo_system mem_room overlap demo_start demo_context
    {#demo_signed 20 7, demo_signed 10 5#} {#} (add_mset demo_awaited tasks)"
  shows "calls demo_system mem_room overlap demo_start demo_settled
    {#demo_signed 20 7, demo_signed 10 5#} {#demo_signed 10 5, demo_signed 20 7#}
    (if overlap then add_mset demo_awaited tasks else filter_mset (\<lambda>t. \<not> on_request t) tasks)"
  using calls_answer [OF assms, of "demo_rav 20 12" "{#demo_signed 10 5, demo_signed 20 7#}" "demo_signed_rav 20 12"]
  by (cases overlap) (simp_all add: demo_store_rav demo_settled_def)

lemmas demo_calls = demo_calls_settled
  [OF demo_calls_requested [OF demo_calls_received [OF demo_calls_first [of False]]], simplified]

theorem channel_accounting_witness:
  "unat (rav_valueAggregate (demo_rav 20 12)) =
     (\<Sum>r\<in>#{#demo_signed 10 5, demo_signed 20 7#}. unat (rcpt_value (message r)))"
proof -
  have "mem_inv demo_start" "receipt_storage demo_start = []" "rav_storage demo_start = None"
    by (simp_all add: demo_start_def demo_context_def mem_inv_def)
  moreover have "\<forall>r\<in>#{#demo_signed 20 7, demo_signed 10 5#}. rcpt_timestamp_ns (message r) < - 1"
    by (simp add: demo_defs)
  ultimately have "(case rav_storage demo_settled of None \<Rightarrow> 0
        | Some v \<Rightarrow> unat (rav_valueAggregate (message v))) =
      (\<Sum>r\<in>#{#demo_signed 10 5, demo_signed 20 7#}. unat (rcpt_value (message r)))"
    using channel_accounting [OF demo_calls, of demo_crypto] by simp
  then show ?thesis by (simp add: demo_settled_def demo_defs)
qed

text \<open>C15. The manager's operations are interleavings of their own calls: from any state that is
  reached with others under way, receiving a receipt, requesting a RAV, storing an answer to an
  awaited request and removing the obsolete receipts, each from its beginning to its end, reach the
  state that the operation returns.\<close>

theorem operations_are_calls:
  fixes S :: "('ctx, 'c, 'r, 'u, 'v, 'sg, 'k) system"
  assumes "calls S room overlap c0 c accepted aggregated tasks"
  shows "(room c \<and> verify_and_store_receipt (sys_adapters S) (sys_manager S) ctx r c =
        (stored :: 'v core_error + unit, c1) \<longrightarrow>
      calls S room overlap c0 c1 (if is_ok stored then add_mset r accepted else accepted) aggregated tasks) \<and>
    (create_rav_request (sys_adapters S) (sys_ops S) (sys_rav_ts S) (sys_agg S) (sys_manager S)
        since_epoch ctx buffer limit c = Inr req \<and> req_expected_rav req = Inr expected \<longrightarrow>
      calls S room overlap c0 c accepted aggregated
        (add_mset (Awaiting expected (aggregated + receipts (req_valid_receipts req))) tasks)) \<and>
    (Awaiting awaited claimed \<in># tasks \<and>
        verify_and_store_rav (sys_adapters S) (sys_crypto S) (sys_rav_hash S) (sys_manager S)
          awaited sr c = (answered :: 'v core_error + unit, c2) \<longrightarrow>
      calls S room overlap c0 c2 accepted (if is_ok answered then claimed else aggregated)
        (if is_ok answered \<and> \<not> overlap then filter_mset (\<lambda>t. \<not> on_request t) tasks else tasks)) \<and>
    (remove_obsolete_receipts (sys_adapters S) (sys_rav_ts S) c = (removed :: 'v core_error + unit, c3) \<longrightarrow>
      calls S room overlap c0 c3 accepted aggregated tasks)"
  using calls_receive [OF assms] calls_request [OF assms] calls_answer [OF assms] calls_clean [OF assms]
  by blast

theorem operations_are_calls_witness:
  "calls demo_system mem_room False demo_start demo_context {#demo_signed 20 7, demo_signed 10 5#} {#} {#}"
proof -
  have "mem_room demo_first \<and> verify_and_store_receipt (sys_adapters demo_system) (sys_manager demo_system)
      () (demo_signed 20 7) demo_first = (Inr () :: rav core_error + unit, demo_context)"
    using demo_room demo_store_receipts by simp
  from mp [OF conjunct1 [OF operations_are_calls [OF demo_calls_first]] this] show ?thesis by simp
qed

text \<open>C40. Overlapping requests can lose a receipt for good: if a RAV is stored for a request that is
  older than the last stored RAV, it takes the place of the newer one, whose receipts may already be
  removed. In this run both receipts are accepted, the RAV over both is stored and the store is
  cleaned; the late RAV over the first receipt alone is accepted after that, and the second receipt
  is neither stored nor part of the last RAV.\<close>

theorem stale_answer_loses_receipt:
  "\<exists>c tasks. calls demo_system mem_room True demo_start c
      {#demo_signed 20 7, demo_signed 10 5#} {#demo_signed 10 5#} tasks \<and>
    mem_stored c = {#} \<and> rav_storage c = Some (demo_signed_rav 10 5)"
proof -
  let ?late = "Awaiting (demo_rav 10 5) {#demo_signed 10 5#}"
  have "create_rav_request in_memory_adapters (signed_receipt_ops demo_crypto) rav_timestampNs
      aggregate_checked demo_manager (Inr 1000) () 0 None demo_first =
    Inr \<lparr>req_valid_receipts = [\<lparr>rx_receipt = demo_signed 10 5, rx_state = Checked\<rparr>],
         req_previous_rav = None, req_invalid_receipts = [], req_expected_rav = Inr (demo_rav 10 5)\<rparr>"
    by code_simp
  from calls_request [OF demo_calls_first [of True], unfolded demo_system_simps, OF this]
  have "calls demo_system mem_room True demo_start demo_first {#demo_signed 10 5#} {#} {#?late#}"
    by simp
  from demo_calls_settled [OF demo_calls_requested [OF demo_calls_received [OF this]]]
  obtain tasks where settled: "calls demo_system mem_room True demo_start demo_settled
      {#demo_signed 20 7, demo_signed 10 5#} {#demo_signed 10 5, demo_signed 20 7#} tasks"
    and late: "?late \<in># tasks" by simp
  let ?clean = "demo_settled\<lparr>receipt_storage := []\<rparr>"
  have "remove_obsolete_receipts in_memory_adapters rav_timestampNs demo_settled =
      (Inr () :: rav core_error + unit, ?clean)" by code_simp
  from calls_clean [OF settled, unfolded demo_system_simps, OF this]
  have cleaned: "calls demo_system mem_room True demo_start ?clean
      {#demo_signed 20 7, demo_signed 10 5#} {#demo_signed 10 5, demo_signed 20 7#} tasks" .
  let ?lost = "?clean\<lparr>rav_storage := Some (demo_signed_rav 10 5), timestamp_check := 10\<rparr>"
  have "verify_and_store_rav in_memory_adapters demo_crypto demo_rav_hash demo_manager
      (demo_rav 10 5) (demo_signed_rav 10 5) ?clean = (Inr () :: rav core_error + unit, ?lost)" by code_simp
  from calls_answer [OF cleaned late, unfolded demo_system_simps, OF this]
  show ?thesis by (intro exI [of _ ?lost]) (auto simp: mem_stored_def)
qed


end
