(* ===== verification/AggregatorProperties.thy ===== *)
theory AggregatorProperties
  imports Lifecycle Instances
begin

text \<open>
  The properties of the aggregation service: the registry of signers, the contract and the errors
  of \<open>check_and_aggregate_receipts\<close>, aggregation in steps, the messages of both gRPC services,
  the agreement of the three entry points, and the counters over any sequence of requests.
\<close>

section \<open>The registry\<close>

text \<open>C22. A registry is built exactly from a configuration that names at least one payer, each
  payer and each signing address once, accepts signers for configured payers only, and binds no
  signer to two payers, whichever way it arrives.\<close>

theorem registry_build_accepts:
  "(\<exists>R. registry_build C ks acc = Inr R) \<longleftrightarrow>
     ks \<noteq> [] \<and> distinct (map fst ks) \<and> distinct (map (\<lambda>(p, k). key_address C k) ks) \<and>
     (\<forall>(p, a)\<in>set acc. p \<in> fst ` set ks \<and>
        (\<forall>(q, k)\<in>set ks. key_address C k = a \<longrightarrow> q = p) \<and> (\<forall>(q, b)\<in>set acc. b = a \<longrightarrow> q = p))"
proof -
  have "(\<forall>a p q. (a, p) \<in> owners C ks acc \<longrightarrow> (a, q) \<in> owners C ks acc \<longrightarrow> p = q) \<longleftrightarrow>
      (\<forall>(p, a)\<in>set acc. (\<forall>(q, k)\<in>set ks. key_address C k = a \<longrightarrow> q = p) \<and>
         (\<forall>(q, b)\<in>set acc. b = a \<longrightarrow> q = p))"
    if "distinct (map (pair_signer C) ks)"
  proof -
    have "inj_on (pair_signer C) (set ks)"
      using that by (simp add: distinct_map)
    then have inj: "p = q" if "(p, k) \<in> set ks" "(q, l) \<in> set ks" "key_address C k = key_address C l"
      for p q k l
      using that inj_onD [of "pair_signer C" "set ks" "(p, k)" "(q, l)"] by simp
    have own: "(a, p) \<in> owners C ks acc \<longleftrightarrow>
        (\<exists>k. (p, k) \<in> set ks \<and> key_address C k = a) \<or> (p, a) \<in> set acc" for a p
      by (force simp: owners_def)
    show ?thesis
      unfolding own Ball_def split_paired_All prod.case by (safe; (use inj in \<open>blast\<close>)?; metis inj)
  qed
  moreover have "map (pair_signer C) ks = map (\<lambda>(p, k). key_address C k) ks" by auto
  moreover have "(\<forall>(p, a)\<in>set acc. p \<in> fst ` set ks \<and> P p a) \<longleftrightarrow>
      fst ` set acc \<subseteq> fst ` set ks \<and> (\<forall>(p, a)\<in>set acc. P p a)" for P
    by (simp add: image_subset_iff case_prod_beta ball_conj_distrib)
  ultimately show ?thesis
    unfolding registry_build_accepts_iff config_ok_def by (simp only:) blast
qed

theorem registry_build_accepts_witness:
  "\<exists>R. registry_build demo_crypto [(1, 5), (2, 7)] [(1, 6), (1, 5)] = Inr R"
  unfolding registry_build_accepts by (simp add: demo_crypto_def)

text \<open>What a built registry resolves to: a configured payer to its own key, accepting that key's
  address and the signers listed for the payer, any other payer to nothing; and the accepted signers
  of two different payers are disjoint.\<close>

lemma registry_build_resolves:
  assumes "registry_build C ks acc = Inr R"
  shows "(\<forall>p. resolve R p = (case map_of ks p of None \<Rightarrow> None
           | Some k \<Rightarrow> Some (k, insert (key_address C k) {a. (p, a) \<in> set acc}))) \<and>
    (\<forall>p q k l A B. resolve R p = Some (k, A) \<and> resolve R q = Some (l, B) \<and> p \<noteq> q \<longrightarrow> A \<inter> B = {})"
  using registry_build_resolve(1) [OF assms] registry_build_exclusive [OF assms] by blast

section \<open>Aggregation by the service\<close>

text \<open>C4. The contract of the service: a signed RAV is returned exactly for a batch that is not
  empty, whose payer has a key, whose receipts have distinct canonical signatures, name one channel
  and are signed by signers accepted for the payer, whose previous RAV, if any, is signed by such a
  signer, belongs to the same channel and is older than every receipt, and whose total value is below
  2^128; the RAV is then the aggregate of the batch, signed with the payer's key.\<close>

theorem check_and_aggregate_contract:
  "check_and_aggregate_receipts L d rs prev signers = Inr sm \<longleftrightarrow>
     rs \<noteq> [] \<and>
     (\<exists>k acc. resolve signers (rcpt_payer (message (hd rs))) = Some (k, acc) \<and>
        distinct (map (\<lambda>r. get_signature_bytes (lib_crypto L) (signature r)) rs) \<and>
        (\<forall>r\<in>set rs. (\<exists>a\<in>acc. recover_signer (lib_crypto L) (lib_receipt_hash L) d r = Inr a) \<and>
           same_channel (message r) (message (hd rs))) \<and>
        (\<forall>p. prev = Some p \<longrightarrow>
           (\<exists>a\<in>acc. recover_signer (lib_crypto L) (lib_rav_hash L) d p = Inr a) \<and>
           continues_channel (message p) (message (hd rs)) \<and>
           (\<forall>r\<in>set rs. rav_timestampNs (message p) < rcpt_timestamp_ns (message r))) \<and>
        prev_value prev + total_value rs < 2 ^ 128 \<and>
        message sm = batch_rav rs prev \<and>
        sign_hash_sync (lib_crypto L) k (lib_rav_hash L d (batch_rav rs prev)) = Inr (signature sm))"
  unfolding check_and_aggregate_Inr_iff valid_batch_def by (simp only: conj_assoc)

lemma demo_aggregate:
  "check_and_aggregate_receipts demo_lib demo_domain [demo_signed 10 5, demo_signed 20 7] None demo_registry =
     Inr (demo_signed_rav 20 12)"
  by code_simp

theorem check_and_aggregate_contract_witness:
  "\<exists>k acc. resolve demo_registry 1 = Some (k, acc) \<and>
     (\<forall>r\<in>{demo_signed 10 5, demo_signed 20 7}.
        \<exists>a\<in>acc. recover_signer demo_crypto demo_receipt_hash demo_domain r = Inr a) \<and>
     demo_rav 20 12 = batch_rav [demo_signed 10 5, demo_signed 20 7] None"
  using check_and_aggregate_contract [THEN iffD1, OF demo_aggregate]
  by (simp add: demo_signed_def demo_receipt_def demo_signed_rav_def) blast

text \<open>C13. Payers are kept apart: with a built registry, the RAV returned for a batch recovers to the
  key configured for the payer it names, that signer is accepted for this payer and for no other.\<close>

theorem returned_rav_signed_for_payer:
  assumes "signing_law (lib_crypto L)" and "registry_build (lib_crypto L) ks acc = Inr R"
    and "check_and_aggregate_receipts L d rs prev R = Inr sm"
  shows "\<exists>k A. map_of ks (rav_payer (message sm)) = Some k \<and>
    resolve R (rav_payer (message sm)) = Some (k, A) \<and>
    recover_signer (lib_crypto L) (lib_rav_hash L) d sm = Inr (key_address (lib_crypto L) k) \<and>
    key_address (lib_crypto L) k \<in> A \<and>
    (\<forall>q l B. resolve R q = Some (l, B) \<and> key_address (lib_crypto L) k \<in> B \<longrightarrow> q = rav_payer (message sm))"
proof -
  from assms(3) obtain k A where *: "resolve R (rcpt_payer (message (hd rs))) = Some (k, A)"
      "message sm = batch_rav rs prev"
      "sign_hash_sync (lib_crypto L) k (lib_rav_hash L d (batch_rav rs prev)) = Inr (signature sm)"
    unfolding check_and_aggregate_Inr_iff by blast
  then have res: "resolve R (rav_payer (message sm)) = Some (k, A)" by (simp add: batch_rav_def)
  then have "map_of ks (rav_payer (message sm)) = Some k"
    by (simp add: registry_build_resolve(1) [OF assms(2)] split: option.splits)
  moreover have "recover_signer (lib_crypto L) (lib_rav_hash L) d sm = Inr (key_address (lib_crypto L) k)"
    using assms(1) * by (simp add: recover_signer_Inr_iff signing_law_def)
  moreover note own = registry_build_own_key [OF assms(2) res]
  moreover have "q = rav_payer (message sm)"
    if "resolve R q = Some (l, B)" "key_address (lib_crypto L) k \<in> B" for q l B
    by (rule registry_build_exclusive [OF assms(2) that(1) res that(2) own])
  ultimately show ?thesis using res by blast
qed

lemma demo_registry_built: "registry_build demo_crypto [(1, 5)] [(1, 6)] = Inr demo_registry"
  by code_simp

theorem returned_rav_signed_for_payer_witness:
  "\<exists>k A. resolve demo_registry 1 = Some (k, A) \<and> k \<in> A \<and>
     recover_signer demo_crypto demo_rav_hash demo_domain (demo_signed_rav 20 12) = Inr k"
proof -
  have "signing_law (lib_crypto demo_lib)" "registry_build (lib_crypto demo_lib) [(1, 5)] [(1, 6)] = Inr demo_registry"
    by (simp_all add: demo_signing_law demo_registry_built)
  from returned_rav_signed_for_payer [OF this demo_aggregate] show ?thesis
    by (simp add: demo_signed_rav_def demo_rav_def) (auto simp: demo_crypto_def)
qed

lemma batch_rav_value:
  "prev_value prev + total_value rs < 2 ^ 128 \<Longrightarrow> message sm = batch_rav rs prev \<Longrightarrow>
     prev_value (Some sm) = prev_value prev + total_value rs"
  using unat_of_nat_small [where ?'a = 128, of "prev_value prev + total_value rs"]
  by (simp add: batch_rav_def)

lemma batch_rav_append:
  assumes "prev_value prev + total_value rs < 2 ^ 128" and "message sm = batch_rav rs prev"
    and "rs \<noteq> []" and "continues_channel (message sm) (message (hd rs'))"
  shows "batch_rav (rs @ rs') prev = batch_rav rs' (Some sm)"
proof -
  note n = batch_rav_value [OF assms(1,2)]
  have "rav_timestampNs (message sm) = latest_timestamp rs (prev_timestamp prev)"
    by (simp add: assms(2) batch_rav_def)
  with assms(3,4) n show ?thesis
    unfolding batch_rav_def [of "rs @ rs'"] batch_rav_def [of rs']
    by (simp only: prev_simps(4) n [unfolded prev_simps(3)] latest_timestamp_simps total_value_simps add.assoc)
       (simp add: continues_channel_def assms(2) batch_rav_def)
qed

lemma valid_batch_append:
  assumes first: "valid_batch L d rs prev A" "rs \<noteq> []" and more: "rs' \<noteq> []"
    and sm: "message sm = batch_rav rs prev"
      "\<exists>a\<in>A. recover_signer (lib_crypto L) (lib_rav_hash L) d sm = Inr a"
    and later: "\<forall>r\<in>set rs'. rav_timestampNs (message sm) < rcpt_timestamp_ns (message r)"
    and dist: "distinct (map (\<lambda>r. get_signature_bytes (lib_crypto L) (signature r)) (rs @ rs'))"
  shows "valid_batch L d (rs @ rs') prev A \<longleftrightarrow> valid_batch L d rs' (Some sm) A"
proof -
  have same: "same_channel (message r) (message (hd rs)) \<longleftrightarrow> same_channel (message r) (message (hd rs'))"
    if "continues_channel (message sm) (message (hd rs'))" for r
    using that by (auto simp: continues_channel_def same_channel_def sm(1) batch_rav_def)
  have cont: "continues_channel (message sm) q \<longleftrightarrow> same_channel q (message (hd rs))" for q
    by (auto simp: continues_channel_def same_channel_def sm(1) batch_rav_def)
  have n: "prev_value (Some sm) = prev_value prev + total_value rs"
    using first(1) sm(1) by (intro batch_rav_value) (simp_all add: valid_batch_def)
  have old: "rav_timestampNs (message p) \<le> rav_timestampNs (message sm)" if "prev = Some p" for p
    using that latest_timestamp_ge(1) [of "rav_timestampNs (message p)" rs] by (simp add: sm(1) batch_rav_def)
  have hd: "hd (rs @ rs') = hd rs" using first(2) by simp
  have "hd rs' \<in> set rs'" using more by simp
  show ?thesis
  proof
    assume V: "valid_batch L d (rs @ rs') prev A"
    then have "same_channel (message (hd rs')) (message (hd rs))"
      using \<open>hd rs' \<in> set rs'\<close> by (simp add: valid_batch_def hd)
    then have c: "continues_channel (message sm) (message (hd rs'))" by (simp add: cont)
    have "\<forall>r\<in>set rs'. same_channel (message r) (message (hd rs'))"
      using V by (simp add: valid_batch_def hd flip: same [OF c])
    then show "valid_batch L d rs' (Some sm) A"
      unfolding valid_batch_def n using V dist c sm(2) later
      by (auto simp: valid_batch_def add.assoc)
  next
    assume V: "valid_batch L d rs' (Some sm) A"
    then have c: "continues_channel (message sm) (message (hd rs'))" by (simp add: valid_batch_def)
    have "prev_value prev + total_value (rs @ rs') < 2 ^ 128"
      using V n by (simp add: valid_batch_def add.assoc)
    moreover have "\<forall>r\<in>set rs'. rav_timestampNs (message p) < rcpt_timestamp_ns (message r)" if "prev = Some p" for p
      using old [OF that] later by (meson order_le_less_trans)
    moreover have "\<forall>r\<in>set rs'. same_channel (message r) (message (hd rs))"
      using V by (simp add: valid_batch_def same [OF c])
    ultimately show "valid_batch L d (rs @ rs') prev A"
      using V first(1) dist unfolding valid_batch_def hd by (auto simp: ball_Un)
  qed
qed

text \<open>C19. Aggregation in steps: once a first batch has given a RAV, aggregating later receipts onto
  that RAV gives the RAV and the signature that aggregating all the receipts at once gives, and one
  succeeds exactly if the other does, provided that no later receipt repeats a signature of the first
  batch. The service keeps no state: the signed previous RAV stands for all it has seen.\<close>

theorem aggregation_in_steps:
  assumes "signing_law (lib_crypto L)" and "registry_build (lib_crypto L) ks acc = Inr R"
    and "check_and_aggregate_receipts L d rs prev R = Inr sm" and "rs' \<noteq> []"
    and "\<forall>r\<in>set rs'. rav_timestampNs (message sm) < rcpt_timestamp_ns (message r)"
    and "distinct (map (\<lambda>r. get_signature_bytes (lib_crypto L) (signature r)) (rs @ rs'))"
  shows "check_and_aggregate_receipts L d rs' (Some sm) R = Inr sm' \<longleftrightarrow>
    check_and_aggregate_receipts L d (rs @ rs') prev R = Inr sm'"
proof -
  from assms(3) obtain k A where *: "rs \<noteq> []" "resolve R (rcpt_payer (message (hd rs))) = Some (k, A)"
      "valid_batch L d rs prev A" "message sm = batch_rav rs prev"
      "sign_hash_sync (lib_crypto L) k (lib_rav_hash L d (batch_rav rs prev)) = Inr (signature sm)"
    unfolding check_and_aggregate_Inr_iff by blast
  have "recover_signer (lib_crypto L) (lib_rav_hash L) d sm = Inr (key_address (lib_crypto L) k)"
    using assms(1) * by (simp add: recover_signer_Inr_iff signing_law_def)
  then have acc: "\<exists>a\<in>A. recover_signer (lib_crypto L) (lib_rav_hash L) d sm = Inr a"
    using registry_build_own_key [OF assms(2) *(2)] by blast
  note app = valid_batch_append [OF *(3,1) assms(4) *(4) acc assms(5,6)]
  have n: "prev_value prev + total_value rs < 2 ^ 128" using *(3) by (simp add: valid_batch_def)
  note msg = batch_rav_append [OF n *(4,1)]
  have hd: "hd (rs @ rs') = hd rs" using *(1) by simp
  show ?thesis
  proof
    assume L: "check_and_aggregate_receipts L d rs' (Some sm) R = Inr sm'"
    then obtain k' A' where s: "resolve R (rcpt_payer (message (hd rs'))) = Some (k', A')"
        "valid_batch L d rs' (Some sm) A'" "message sm' = batch_rav rs' (Some sm)"
        "sign_hash_sync (lib_crypto L) k' (lib_rav_hash L d (batch_rav rs' (Some sm))) = Inr (signature sm')"
      unfolding check_and_aggregate_Inr_iff by blast
    from s(2) have c: "continues_channel (message sm) (message (hd rs'))" by (simp add: valid_batch_def)
    then have "rcpt_payer (message (hd rs')) = rcpt_payer (message (hd rs))"
      by (simp add: continues_channel_def *(4) batch_rav_def)
    with s(1) *(2) have "k' = k" "A' = A" by simp_all
    with s app msg [OF c] *(1,2) show "check_and_aggregate_receipts L d (rs @ rs') prev R = Inr sm'"
      unfolding check_and_aggregate_Inr_iff hd by simp
  next
    assume R: "check_and_aggregate_receipts L d (rs @ rs') prev R = Inr sm'"
    with *(2) have s: "valid_batch L d (rs @ rs') prev A" "message sm' = batch_rav (rs @ rs') prev"
        "sign_hash_sync (lib_crypto L) k (lib_rav_hash L d (batch_rav (rs @ rs') prev)) = Inr (signature sm')"
      unfolding check_and_aggregate_Inr_iff hd by simp_all
    from s(1) have V: "valid_batch L d rs' (Some sm) A" by (simp only: app)
    then have c: "continues_channel (message sm) (message (hd rs'))" by (simp add: valid_batch_def)
    then have "rcpt_payer (message (hd rs')) = rcpt_payer (message (hd rs))"
      by (simp add: continues_channel_def *(4) batch_rav_def)
    with s V msg [OF c] *(2) assms(4) show "check_and_aggregate_receipts L d rs' (Some sm) R = Inr sm'"
      unfolding check_and_aggregate_Inr_iff by simp
  qed
qed

theorem aggregation_in_steps_witness:
  "check_and_aggregate_receipts demo_lib demo_domain [demo_signed 30 1] (Some (demo_signed_rav 20 12)) demo_registry =
     Inr (demo_signed_rav 30 13) \<longleftrightarrow>
   check_and_aggregate_receipts demo_lib demo_domain ([demo_signed 10 5, demo_signed 20 7] @ [demo_signed 30 1]) None
     demo_registry = Inr (demo_signed_rav 30 13)"
proof (rule aggregation_in_steps [where ks = "[(1, 5)]" and acc = "[(1, 6)]", OF _ _ demo_aggregate])
  show "distinct (map (\<lambda>r. get_signature_bytes (lib_crypto demo_lib) (signature r))
      ([demo_signed 10 5, demo_signed 20 7] @ [demo_signed 30 1]))"
    by (simp add: demo_signed_def demo_signature_bytes_inj)
qed (simp_all add: demo_signing_law demo_registry_built demo_defs)

text \<open>C21. A signature cannot be counted twice by rewriting it: a batch in which two receipts carry
  signatures with the same low-S form is refused as a duplicate, whatever their messages.\<close>

theorem malleable_signatures_refused:
  assumes "\<not> distinct (map (\<lambda>r. normalized_s (lib_crypto L) (signature r)) rs)"
  shows "\<exists>b. check_and_aggregate_receipts L d rs prev signers = Inl (CoreFailed (DuplicateReceiptSignature b))"
proof -
  have "map (\<lambda>r. get_signature_bytes (lib_crypto L) (signature r)) rs =
      map (sig_as_bytes (lib_crypto L)) (map (\<lambda>r. normalized_s (lib_crypto L) (signature r)) rs)"
    by (simp add: get_signature_bytes_def)
  with assms have "\<not> distinct (map (\<lambda>r. get_signature_bytes (lib_crypto L) (signature r)) rs)"
    by (metis distinct_map)
  then have "check_signatures_unique (lib_crypto L) rs \<noteq> Inr ()"
    by (simp add: check_signatures_unique_Inr_iff)
  then obtain e where "check_signatures_unique (lib_crypto L) rs = Inl e"
    by (cases "check_signatures_unique (lib_crypto L) rs") auto
  with check_signatures_unique_InlD [OF this] show ?thesis
    by (auto simp: check_and_aggregate_receipts_def)
qed

theorem malleable_signatures_refused_witness:
  "\<exists>b. check_and_aggregate_receipts demo_lib demo_domain
     [demo_signed 10 5, (demo_signed 10 5)\<lparr>signature := (5, 10, True)\<rparr>] None demo_registry =
     Inl (CoreFailed (DuplicateReceiptSignature b))"
  by (rule malleable_signatures_refused) (simp add: demo_crypto_def demo_signed_def)

lemma check_collection_id_InlD:
  "check_collection_id rs c p d s = Inl e \<Longrightarrow> e = CoreFailed RavCollectionIdNotUniform \<and>
     (\<exists>r\<in>set rs. \<not> (rcpt_collection_id (message r) = c \<and> rcpt_payer (message r) = p \<and>
        rcpt_data_service (message r) = d \<and> rcpt_service_provider (message r) = s))"
  by (induction rs) (auto simp: Let_def split: if_splits)

lemma check_receipt_timestamps_InlD:
  assumes "check_receipt_timestamps rs prev = Inl e"
  shows "\<exists>p. prev = Some p \<and> (\<exists>j<length rs. rcpt_timestamp_ns (message (rs ! j)) \<le> rav_timestampNs (message p) \<and>
    (\<forall>i<j. rav_timestampNs (message p) < rcpt_timestamp_ns (message (rs ! i))) \<and>
    e = CoreFailed (ReceiptTimestampLowerThanRav (rav_timestampNs (message p)) (rcpt_timestamp_ns (message (rs ! j)))))"
proof (cases prev)
  case None
  with assms show ?thesis by (simp add: check_receipt_timestamps_def)
next
  case (Some p)
  with try_for_each_first [OF assms [unfolded check_receipt_timestamps_def, unfolded Some option.case]] show ?thesis
    by (fastforce simp: not_le split: if_splits)
qed

lemma check_previous_rav_InlD:
  "check_previous_rav prev c p d s = Inl e \<Longrightarrow>
     \<exists>v. prev = Some v \<and> e = CoreFailed (RavCollectionIdMismatch (rav_collectionId (message v)) c) \<and>
       \<not> (rav_collectionId (message v) = c \<and> rav_payer (message v) = p \<and>
          rav_dataService (message v) = d \<and> rav_serviceProvider (message v) = s)"
  by (auto simp: check_previous_rav_def Let_def split: option.splits if_splits)

lemma check_address_InlD:
  "check_signature_is_from_one_of_addresses C hash m d A = Inl e \<Longrightarrow>
     (\<exists>x. recover_signer C hash d m = Inl x \<and> e = MessageFailed x) \<or>
     (\<exists>a. recover_signer C hash d m = Inr a \<and> a \<notin> A \<and> e = CoreFailed (InvalidRecoveredSigner a))"
  by (cases "recover_signer C hash d m")
     (auto simp: check_signature_is_from_one_of_addresses_def split: if_splits)

text \<open>What each error says of the batch.\<close>

definition error_cause ::
    "('sg, 'k) graph_lib \<Rightarrow> eip712_domain \<Rightarrow> 'sg signed_receipt list \<Rightarrow> 'sg signed_rav option
       \<Rightarrow> 'k signer_registry \<Rightarrow> aggregator_error \<Rightarrow> bool" where
  "error_cause L d rs prev signers e =
     (let canonical = (\<lambda>r. get_signature_bytes (lib_crypto L) (signature r));
          recovered = recover_signer (lib_crypto L) (lib_receipt_hash L) d;
          first = message (hd rs) in
      case e of
        CoreFailed (DuplicateReceiptSignature b) \<Rightarrow>
          (\<exists>j<length rs. b = canonical (rs ! j) \<and> b \<in> canonical ` set (take j rs) \<and>
             distinct (map canonical (take j rs)))
      | CoreFailed CoreNoValidReceiptsForRavRequest \<Rightarrow> rs = []
      | NoSigningKeyForPayer p \<Rightarrow> p = rcpt_payer first \<and> resolve signers p = None
      | CoreFailed (InvalidRecoveredSigner a) \<Rightarrow>
          (\<exists>k A. resolve signers (rcpt_payer first) = Some (k, A) \<and> a \<notin> A \<and>
             ((\<exists>r\<in>set rs. recovered r = Inr a) \<or>
              (\<forall>r\<in>set rs. \<exists>a\<in>A. recovered r = Inr a) \<and>
              (\<exists>p. prev = Some p \<and> recover_signer (lib_crypto L) (lib_rav_hash L) d p = Inr a)))
      | MessageFailed x \<Rightarrow>
          (\<exists>k A. resolve signers (rcpt_payer first) = Some (k, A) \<and>
             ((\<exists>r\<in>set rs. recovered r = Inl x) \<or>
              (\<forall>r\<in>set rs. \<exists>a\<in>A. recovered r = Inr a) \<and>
              (\<exists>p. prev = Some p \<and> recover_signer (lib_crypto L) (lib_rav_hash L) d p = Inl x) \<or>
              valid_batch L d rs prev A \<and>
              signed_message_new (lib_crypto L) (lib_rav_hash L) d (batch_rav rs prev) k = Inl x))
      | CoreFailed (ReceiptTimestampLowerThanRav v t) \<Rightarrow>
          (\<exists>p. prev = Some p \<and> v = rav_timestampNs (message p)) \<and>
          (\<exists>j<length rs. t = rcpt_timestamp_ns (message (rs ! j)) \<and> t \<le> v \<and>
             (\<forall>i<j. v < rcpt_timestamp_ns (message (rs ! i))))
      | CoreFailed RavCollectionIdNotUniform \<Rightarrow> (\<exists>r\<in>set rs. \<not> same_channel (message r) first)
      | CoreFailed (RavCollectionIdMismatch a b) \<Rightarrow>
          (\<exists>p. prev = Some p \<and> \<not> continues_channel (message p) first \<and>
             a = rav_collectionId (message p)) \<and> b = rcpt_collection_id first
      | AggregationFailed x \<Rightarrow> x = AggregateOverflow \<and> 2 ^ 128 \<le> prev_value prev + total_value rs
      | _ \<Rightarrow> False)"

text \<open>The check that an error comes from.\<close>

lemma check_and_aggregate_InlE:
  assumes "check_and_aggregate_receipts L d rs prev signers = Inl e"
  defines "m \<equiv> message (hd rs)"
  obtains (duplicate) "check_signatures_unique (lib_crypto L) rs = Inl e"
  | (empty) "rs = []" "e = CoreFailed CoreNoValidReceiptsForRavRequest"
  | (unknown) "resolve signers (rcpt_payer m) = None" "e = NoSigningKeyForPayer (rcpt_payer m)"
  | (receipts) k A where "resolve signers (rcpt_payer m) = Some (k, A)"
      "par_try_for_each (lib_pick_error L) (\<lambda>receipt.
         check_signature_is_from_one_of_addresses (lib_crypto L) (lib_receipt_hash L) receipt d A) rs = Inl e"
  | (previous) k A p where "resolve signers (rcpt_payer m) = Some (k, A)" "prev = Some p"
      "\<forall>r\<in>set rs. \<exists>a\<in>A. recover_signer (lib_crypto L) (lib_receipt_hash L) d r = Inr a"
      "check_signature_is_from_one_of_addresses (lib_crypto L) (lib_rav_hash L) p d A = Inl e"
  | (times) "check_receipt_timestamps rs prev = Inl e"
  | (uniform) "check_collection_id rs (rcpt_collection_id m) (rcpt_payer m) (rcpt_data_service m)
        (rcpt_service_provider m) = Inl e"
  | (continues) "check_previous_rav prev (rcpt_collection_id m) (rcpt_payer m) (rcpt_data_service m)
        (rcpt_service_provider m) = Inl e"
  | (overflow) x where "aggregate_receipts (rcpt_collection_id m) (rcpt_payer m) (rcpt_data_service m)
        (rcpt_service_provider m) rs prev = Inl x" "e = AggregationFailed x"
  | (sign) k A x v where "resolve signers (rcpt_payer m) = Some (k, A)" "valid_batch L d rs prev A"
      "aggregate_receipts (rcpt_collection_id m) (rcpt_payer m) (rcpt_data_service m)
        (rcpt_service_provider m) rs prev = Inr v"
      "signed_message_new (lib_crypto L) (lib_rav_hash L) d v k = Inl x" "e = MessageFailed x"
proof (cases "check_signatures_unique (lib_crypto L) rs")
  case (Inl x)
  with assms(1) duplicate show thesis by (simp add: check_and_aggregate_receipts_def)
next
  case unique: (Inr u)
  show thesis
  proof (cases "rs = [] \<or> resolve signers (rcpt_payer m) = None")
    case True
    with assms(1) unique empty unknown show thesis
      by (cases rs) (auto simp: check_and_aggregate_Nil check_and_aggregate_receipts_def Let_def m_def)
  next
    case False
    then obtain r rest k A where rs: "rs = r # rest" and res: "resolve signers (rcpt_payer m) = Some (k, A)"
      by (cases rs) auto
    from assms(1) have "rbind (par_try_for_each (lib_pick_error L) (\<lambda>receipt.
          check_signature_is_from_one_of_addresses (lib_crypto L) (lib_receipt_hash L) receipt d A) rs) (\<lambda>_.
        rbind (case prev of Some p \<Rightarrow>
            check_signature_is_from_one_of_addresses (lib_crypto L) (lib_rav_hash L) p d A
          | None \<Rightarrow> Inr ()) (\<lambda>_.
        rbind (check_receipt_timestamps rs prev) (\<lambda>_.
        rbind (check_collection_id rs (rcpt_collection_id m) (rcpt_payer m) (rcpt_data_service m)
          (rcpt_service_provider m)) (\<lambda>_.
        rbind (check_previous_rav prev (rcpt_collection_id m) (rcpt_payer m) (rcpt_data_service m)
          (rcpt_service_provider m)) (\<lambda>_.
        rbind (map_err AggregationFailed (aggregate_receipts (rcpt_collection_id m) (rcpt_payer m)
          (rcpt_data_service m) (rcpt_service_provider m) rs prev)) (\<lambda>rav.
        map_err MessageFailed (signed_message_new (lib_crypto L) (lib_rav_hash L) d rav k))))))) = Inl e"
      using unique res
      by (simp only: check_and_aggregate_receipts_def Let_def rs m_def list.case list.sel ok_or_simps
          rbind_simps prod.case)
    moreover have "valid_batch L d rs prev A"
      if "\<forall>r\<in>set rs. \<exists>a\<in>A. recover_signer (lib_crypto L) (lib_receipt_hash L) d r = Inr a"
        "\<forall>p. prev = Some p \<longrightarrow> (\<exists>a\<in>A. recover_signer (lib_crypto L) (lib_rav_hash L) d p = Inr a)"
        "check_receipt_timestamps rs prev = Inr ()"
        "check_collection_id rs (rcpt_collection_id m) (rcpt_payer m) (rcpt_data_service m) (rcpt_service_provider m) = Inr ()"
        "check_previous_rav prev (rcpt_collection_id m) (rcpt_payer m) (rcpt_data_service m) (rcpt_service_provider m) = Inr ()"
        "aggregate_receipts (rcpt_collection_id m) (rcpt_payer m) (rcpt_data_service m) (rcpt_service_provider m) rs prev = Inr v" for v
      using that unique
      by (auto simp: valid_batch_def check_receipt_timestamps_Inr_iff check_collection_id_Inr_iff check_previous_rav_Inr_iff
          check_signatures_unique_Inr_iff aggregate_receipts_Inr_iff same_channel_def continues_channel_def m_def)
    ultimately show thesis
      unfolding rbind_Inl_iff map_err_Inl_iff map_err_Inr_iff par_try_for_each_Inr_iff check_address_Inr_iff
      using receipts [OF res] previous [OF res] times uniform continues overflow sign [OF res]
      by (cases prev) (auto simp: check_address_Inr_iff)
  qed
qed

text \<open>C20. Every error of the service names the condition of the contract that the batch
  breaks, and the data it carries is that of the breach: the first signature that repeats an earlier
  one; the timestamp of the previous RAV with that of the first receipt not after it; the collection
  ids of a previous RAV and of receipts that belong to different channels; a payer without a key; an
  address that was recovered from a signature and is not accepted, or the failure of recovering one
  or of signing. The last two may come from any receipt, from the previous RAV only if all receipts'
  signers are accepted, and from signing only if the batch is valid; the errors for an empty batch,
  for receipts of several channels and for an overflow carry nothing. There are no other errors. The
  thread pool that checks the receipts' signatures is relied on to report one of the errors it has
  met.\<close>

theorem check_and_aggregate_errors:
  assumes "\<And>es. es \<noteq> [] \<Longrightarrow> lib_pick_error L es \<in> set es"
    and "check_and_aggregate_receipts L d rs prev signers = Inl e"
  shows "error_cause L d rs prev signers e"
  using assms(2)
proof (cases rule: check_and_aggregate_InlE)
  case duplicate
  from check_signatures_unique_first [OF this] obtain j where "j < length rs"
    "e = CoreFailed (DuplicateReceiptSignature (get_signature_bytes (lib_crypto L) (signature (rs ! j))))"
    "get_signature_bytes (lib_crypto L) (signature (rs ! j)) \<in>
       (\<lambda>r. get_signature_bytes (lib_crypto L) (signature r)) ` set (take j rs) \<and>
     distinct (map (\<lambda>r. get_signature_bytes (lib_crypto L) (signature r)) (take j rs))" by blast
  then show ?thesis unfolding error_cause_def Let_def by (simp del: image_iff) blast
next
  case (receipts k A)
  from par_try_for_each_InlD [OF receipts(2) assms(1)] obtain x where "x \<in> set rs"
    "check_signature_is_from_one_of_addresses (lib_crypto L) (lib_receipt_hash L) x d A = Inl e" by blast
  with check_address_InlD [OF this(2)] receipts(1) show ?thesis by (auto simp: error_cause_def Let_def)
next
  case (previous k A p)
  with check_address_InlD [OF previous(4)] show ?thesis by (auto simp: error_cause_def Let_def)
next
  case times
  from check_receipt_timestamps_InlD [OF this] show ?thesis by (auto simp: error_cause_def Let_def)
next
  case uniform
  from check_collection_id_InlD [OF this] show ?thesis by (auto simp: error_cause_def Let_def same_channel_def)
next
  case continues
  from check_previous_rav_InlD [OF this] show ?thesis by (auto simp: error_cause_def Let_def continues_channel_def)
next
  case (overflow x)
  then show ?thesis by (simp add: error_cause_def Let_def aggregate_receipts_Inl_iff)
next
  case (sign k A x v)
  then have "v = batch_rav rs prev" by (simp add: aggregate_receipts_Inr_iff batch_rav_def)
  with sign show ?thesis by (auto simp: error_cause_def Let_def)
qed (simp_all add: error_cause_def Let_def)

theorem check_and_aggregate_errors_witness:
  "error_cause demo_lib demo_domain [demo_signed 20 5, demo_signed 10 7, demo_signed 5 7] (Some (demo_signed_rav 10 12))
     demo_registry (CoreFailed (ReceiptTimestampLowerThanRav 10 10))"
proof (rule check_and_aggregate_errors)
  show "check_and_aggregate_receipts demo_lib demo_domain [demo_signed 20 5, demo_signed 10 7, demo_signed 5 7]
      (Some (demo_signed_rav 10 12)) demo_registry = Inl (CoreFailed (ReceiptTimestampLowerThanRav 10 10))" by code_simp
qed simp

section \<open>The messages of the gRPC services\<close>

text \<open>C28. The Protobuf forms are canonical: a receipt or RAV message of either service decodes exactly
  if it is the encoding of the result, and so does a list of them, so nothing malformed is accepted and
  nothing is lost; and the two halves of a 128-bit value, in the current and the legacy form, are split
  and joined without loss in both directions.\<close>

theorem pb_messages_canonical:
  "(receipt_try_from_pb p = Inr r \<longleftrightarrow> p = pb_from_receipt r) \<and>
   (rav_try_from_pb q = Inr v \<longleftrightarrow> q = pb_from_rav v) \<and>
   (receipt_try_from_v2 p' = Inr r \<longleftrightarrow> p' = v2_from_receipt r) \<and>
   (rav_try_from_v2 q' = Inr v \<longleftrightarrow> q' = v2_from_rav v) \<and>
   (collect_results receipt_try_from_pb ps = Inr rs \<longleftrightarrow> ps = map pb_from_receipt rs) \<and>
   (collect_results rav_try_from_pb qs = Inr vs \<longleftrightarrow> qs = map pb_from_rav vs) \<and>
   (collect_results receipt_try_from_v2 ps' = Inr rs \<longleftrightarrow> ps' = map v2_from_receipt rs) \<and>
   (collect_results rav_try_from_v2 qs' = Inr vs \<longleftrightarrow> qs' = map v2_from_rav vs) \<and>
   u128_from_uint128 (uint128_from_u128 n) = n \<and> uint128_from_u128 (u128_from_uint128 u) = u \<and>
   u128_from_legacy (legacy_from_u128 n) = n \<and> legacy_from_u128 (u128_from_legacy u') = u'"
  by (simp add: receipt_codec.dec_Inr_iff rav_codec.dec_Inr_iff legacy_receipt_codec.dec_Inr_iff
      legacy_rav_codec.dec_Inr_iff receipt_codec.decode_list_iff rav_codec.decode_list_iff
      legacy_receipt_codec.decode_list_iff legacy_rav_codec.decode_list_iff)

text \<open>C29. The legacy service is the current one on every request, malformed ones included: read
  with the current types, its answer and its effect on the service's state are the same, given the same
  answers of the libraries, among them the thread pool's choice of one of several rejected signatures.\<close>

theorem legacy_service_equivalent:
  "apfst (\<lambda>r. case r of Inl e \<Rightarrow> Inl e | Inr p \<Rightarrow> Inr (upgrade_response p))
     (v2_aggregate_receipts L F impl request sv) =
   grpc_aggregate_receipts L F impl (upgrade_request request) sv"
  by (rule v2_agrees_upgrade)

section \<open>Requests\<close>

text \<open>C30. The three entry points agree on a batch that is not empty: the JSON-RPC method and both
  gRPC services, called with the encoding of the same batch, return the same RAV, the one of
  \<open>check_and_aggregate_receipts\<close>, or report the same error, and leave the service in the same
  state; the RAV is decoded from either response. Of several rejected signatures the thread pool picks
  the one that is reported; the errors are the same for the same pick.\<close>

theorem entry_points_agree:
  assumes "signature_bytes_law (lib_crypto L)" and "rs \<noteq> []"
  shows "snd (grpc_aggregate_receipts L F impl (pb_rav_request_new (lib_crypto L) rs prev) sv) =
      snd (rpc_aggregate_receipts L F impl ''0.0'' rs prev sv) \<and>
    snd (v2_aggregate_receipts L F impl (v2_rav_request_new (lib_crypto L) rs prev) sv) =
      snd (rpc_aggregate_receipts L F impl ''0.0'' rs prev sv) \<and>
    (case check_and_aggregate_receipts L (rpc_domain_separator impl) rs prev (rpc_signers impl) of
       Inr sm \<Rightarrow>
         fst (rpc_aggregate_receipts L F impl ''0.0'' rs prev sv) = Inr \<lparr>jr_data = sm, jr_warnings = None\<rparr> \<and>
         (\<exists>p. fst (grpc_aggregate_receipts L F impl (pb_rav_request_new (lib_crypto L) rs prev) sv) = Inr p \<and>
            pb_response_signed_rav (lib_crypto L) p = Inr sm) \<and>
         (\<exists>p. fst (v2_aggregate_receipts L F impl (v2_rav_request_new (lib_crypto L) rs prev) sv) = Inr p \<and>
            v2_response_signed_rav (lib_crypto L) p = Inr sm)
     | Inl e \<Rightarrow>
         fst (rpc_aggregate_receipts L F impl ''0.0'' rs prev sv) =
           Inl \<lparr>je_code = - 32002, je_message = aggregator_error_to_string F e, je_data = None\<rparr> \<and>
         fst (grpc_aggregate_receipts L F impl (pb_rav_request_new (lib_crypto L) rs prev) sv) =
           Inl (FailedPrecondition (aggregator_error_to_string F e)) \<and>
         fst (v2_aggregate_receipts L F impl (v2_rav_request_new (lib_crypto L) rs prev) sv) =
           Inl (FailedPrecondition (aggregator_error_to_string F e)))"
proof -
  let ?C = "lib_crypto L"
  have v2: "collect_results (signed_receipt_try_from_v2 ?C) (v2q_receipts (v2_rav_request_new ?C rs prev)) = Inr rs"
    "transpose_map (signed_rav_try_from_v2 ?C) (v2q_previous_rav (v2_rav_request_new ?C rs prev)) = Inr prev"
    using pb_request_roundtrip [OF assms(1), of rs prev]
    by (simp_all add: collect_results_upgrade transpose_map_upgrade flip: upgrade_v2_rav_request_new)
       (simp_all add: upgrade_request_def)
  have resp: "pb_response_signed_rav ?C \<lparr>pbp_rav = Some (pb_from_signed_rav ?C sm)\<rparr> = Inr sm"
    "v2_response_signed_rav ?C \<lparr>v2p_rav = Some (v2_from_signed_rav ?C sm)\<rparr> = Inr sm" for sm
    using signed_rav_pb_roundtrip [OF assms(1), of sm]
    by (simp_all add: v2_response_signed_rav_upgrade upgrade_response_def upgrade_v2_from_signed_rav
        pb_response_signed_rav_def)
  show ?thesis
  proof (cases "check_and_aggregate_receipts L (rpc_domain_separator impl) rs prev (rpc_signers impl)")
    case (Inl e)
    then show ?thesis
      using assms(2) v2 pb_request_roundtrip [OF assms(1), of rs prev]
      by (simp add: rpc_aggregate_receipts_def aggregate_receipts_rpc_cases grpc_aggregate_receipts_def
          v2_aggregate_receipts_def Let_def)
  next
    case (Inr sm)
    then show ?thesis
      using assms(2) v2 pb_request_roundtrip [OF assms(1), of rs prev] resp
      by (simp add: rpc_aggregate_receipts_def aggregate_receipts_rpc_cases grpc_aggregate_receipts_def
          v2_aggregate_receipts_def Let_def)
  qed
qed

theorem entry_points_agree_witness:
  "\<forall>sv. \<exists>p. fst (grpc_aggregate_receipts demo_lib demo_fmt
       \<lparr>rpc_signers = demo_registry, rpc_domain_separator = demo_domain, rpc_kafka = None\<rparr>
       (pb_rav_request_new demo_crypto [demo_signed 10 5, demo_signed 20 7] None) sv) = Inr p \<and>
     pb_response_signed_rav demo_crypto p = Inr (demo_signed_rav 20 12)"
proof
  fix sv
  let ?C = demo_crypto
  let ?impl = "\<lparr>rpc_signers = demo_registry, rpc_domain_separator = demo_domain, rpc_kafka = None\<rparr>"
  have "signature_bytes_law (lib_crypto demo_lib)" by (simp add: demo_signature_bytes_law)
  from entry_points_agree [OF this, of "[demo_signed 10 5, demo_signed 20 7]" demo_fmt ?impl None sv]
  show "\<exists>p. fst (grpc_aggregate_receipts demo_lib demo_fmt ?impl
       (pb_rav_request_new ?C [demo_signed 10 5, demo_signed 20 7] None) sv) = Inr p \<and>
     pb_response_signed_rav ?C p = Inr (demo_signed_rav 20 12)"
    by (simp add: demo_aggregate)
qed

text \<open>The answer of the JSON-RPC method is a function of the request and the signers alone: it
  depends neither on Kafka, whose failure never reaches the client, nor on the state of the service;
  and it is classified by the version, the emptiness of the batch and the result of the
  aggregation, in this order.\<close>

lemma rpc_answer:
  "fst (rpc_aggregate_receipts L F impl version rs prev sv) =
     (if version \<noteq> ''0.0'' then
        Inl \<lparr>je_code = - 32001,
             je_message = ''Unsupported API version: '' @ [CHR 0x22] @ version @ [CHR 0x22] @ ''.'',
             je_data = Some graph_tally_rpc_api_versions_info\<rparr>
      else if rs = [] then
        Inl \<lparr>je_code = - 32002, je_message = ''Cannot aggregate empty receipt batch'', je_data = None\<rparr>
      else case check_and_aggregate_receipts L (rpc_domain_separator impl) rs prev (rpc_signers impl) of
             Inl e \<Rightarrow> Inl \<lparr>je_code = - 32002, je_message = aggregator_error_to_string F e, je_data = None\<rparr>
           | Inr sm \<Rightarrow> Inr \<lparr>jr_data = sm, jr_warnings = None\<rparr>)"
  by (simp add: rpc_aggregate_receipts_def aggregate_receipts_rpc_cases Let_def split: sum.split)

section \<open>The counters\<close>

text \<open>Any sequence of requests, over all three entry points.\<close>

datatype 'sg api_request =
    JsonRpc string "'sg signed_receipt list" "'sg signed_rav option"
  | Grpc pb_rav_request
  | GrpcV2 v2_rav_request

fun serve ::
    "('sg, 'k) graph_lib \<Rightarrow> alloy_fmt \<Rightarrow> 'k rpc_impl \<Rightarrow> 'sg api_request \<Rightarrow> service \<Rightarrow> service" where
  "serve L F impl (JsonRpc version rs prev) sv = snd (rpc_aggregate_receipts L F impl version rs prev sv)"
| "serve L F impl (Grpc request) sv = snd (grpc_aggregate_receipts L F impl request sv)"
| "serve L F impl (GrpcV2 request) sv = snd (v2_aggregate_receipts L F impl request sv)"

text \<open>A gRPC request is counted only if its messages decode.\<close>

definition decodes :: "('sg, 'k) crypto \<Rightarrow> pb_rav_request \<Rightarrow> bool" where
  "decodes C request \<longleftrightarrow>
     is_ok (collect_results (signed_receipt_try_from_pb C) (pbq_receipts request)) \<and>
     is_ok (transpose_map (signed_rav_try_from_pb C) (pbq_previous_rav request))"

fun counted :: "('sg, 'k) crypto \<Rightarrow> 'sg api_request \<Rightarrow> bool" where
  "counted C (JsonRpc version rs prev) = True"
| "counted C (Grpc request) = decodes C request"
| "counted C (GrpcV2 request) = decodes C (upgrade_request request)"

definition service_start :: service where
  "service_start =
     \<lparr>sv_metrics = \<lparr>aggregation_success_count = 0, aggregation_failure_count = 0,
        deprecation_warning_count = 0, version_error_count = 0, total_aggregated_receipts = 0,
        total_grt_aggregated = Fin 0, kafka_publish_success_total = 0, kafka_publish_failure_total = 0\<rparr>,
      published = []\<rparr>"

definition service_inv :: "'k rpc_impl \<Rightarrow> nat \<Rightarrow> service \<Rightarrow> bool" where
  "service_inv impl n sv \<longleftrightarrow>
     (let m = sv_metrics sv in
      aggregation_success_count m + aggregation_failure_count m = of_nat n \<and>
      kafka_publish_success_total m = of_nat (length (published sv)) \<and>
      (if rpc_kafka impl = None then published sv = [] \<and> kafka_publish_failure_total m = 0
       else aggregation_success_count m = kafka_publish_success_total m + kafka_publish_failure_total m))"

lemma service_inv_start: "service_inv impl 0 service_start"
  by (simp add: service_inv_def service_start_def Let_def)

lemma service_inv_success:
  "service_inv impl n sv \<Longrightarrow> service_inv impl (Suc n) (after_success F impl v grt c sv)"
  by (auto simp: service_inv_def after_success_def count_success_def produce_kafka_records_cases Let_def
      algebra_simps split: option.split)

lemma service_inv_failure: "service_inv impl n sv \<Longrightarrow> service_inv impl (Suc n) (after_failure sv)"
  by (auto simp: service_inv_def after_failure_def count_failure_def Let_def algebra_simps)

lemma service_inv_version_error:
  "service_inv impl n sv \<Longrightarrow>
     service_inv impl n (sv\<lparr>sv_metrics := (sv_metrics sv)\<lparr>version_error_count := x\<rparr>\<rparr>)"
  by (simp add: service_inv_def Let_def)

lemmas service_inv_intros = service_inv_success service_inv_failure service_inv_version_error

lemma service_inv_grpc:
  assumes "service_inv impl n sv"
  shows "service_inv impl (if decodes (lib_crypto L) request then Suc n else n)
    (snd (grpc_aggregate_receipts L F impl request sv))"
  using assms
  by (cases "collect_results (signed_receipt_try_from_pb (lib_crypto L)) (pbq_receipts request)";
      cases "transpose_map (signed_rav_try_from_pb (lib_crypto L)) (pbq_previous_rav request)")
     (auto simp: grpc_aggregate_receipts_def decodes_def Let_def intro: service_inv_intros split: sum.split)

lemma snd_v2: "snd (v2_aggregate_receipts L F impl request sv) =
    snd (grpc_aggregate_receipts L F impl (upgrade_request request) sv)"
  using arg_cong [OF v2_agrees_upgrade [of L F impl request sv], of snd] by simp

lemma service_inv_serve:
  assumes "service_inv impl n sv"
  shows "service_inv impl (if counted (lib_crypto L) request then Suc n else n) (serve L F impl request sv)"
proof (cases request)
  case (JsonRpc version rs prev)
  with assms show ?thesis
    by (auto simp: rpc_aggregate_receipts_def aggregate_receipts_rpc_cases Let_def
        intro: service_inv_intros split: sum.split)
next
  case (Grpc request)
  then show ?thesis by (simp only: counted.simps serve.simps service_inv_grpc [OF assms])
next
  case (GrpcV2 request)
  then show ?thesis by (simp only: counted.simps serve.simps snd_v2 service_inv_grpc [OF assms])
qed

text \<open>C33. After any sequence of requests from the start of the service, over all entry points
  and whatever Kafka answers to a record (here a function of the record), modulo the 64-bit width of
  the counters: successes and failures together count the requests whose messages decode, each
  published record has been counted as one, and with Kafka configured every success has been counted
  as published or as failed to publish.\<close>

theorem service_counters:
  "service_inv impl (length (filter (counted (lib_crypto L)) requests))
     (fold (serve L F impl) requests service_start)"
proof -
  have "service_inv impl (n + length (filter (counted (lib_crypto L)) requests))
      (fold (serve L F impl) requests sv)" if "service_inv impl n sv" for n sv
    using that
  proof (induction requests arbitrary: n sv)
    case (Cons request requests)
    from Cons.IH [OF service_inv_serve [OF Cons.prems, of L request F]] show ?case
      by (cases "counted (lib_crypto L) request") simp_all
  qed simp
  from this [OF service_inv_start] show ?thesis by simp
qed

section \<open>Routing\<close>

text \<open>C31. What stands between a request and the service once it runs: a JSON-RPC request
  passes the timeout and, sent by POST, meets the service with the configured limits, but the
  concurrency limit and the timeout meant for the gRPC services are put on a router that has no
  routes yet, so a gRPC request meets both services, the legacy one included, without either.\<close>

theorem grpc_routes_unprotected:
  assumes "router_law A grpc_path routes"
    and "run_server A bind local_addr port signers d request_size response_size connections timeout kafka =
      Returned (Inr srv)"
    and "impl = \<lparr>rpc_signers = signers, rpc_domain_separator = d, rpc_kafka = kafka\<rparr>"
  shows "routes (steer (rs_routers srv) (Some content_type)) =
    (if take 16 content_type = map (\<lambda>c. of_nat (of_char c)) ''application/grpc''
     then {(grpc_path i, GrpcService i impl True, []) | i. True}
     else {(''/'', PostService (JsonRpcService impl
             \<lparr>sc_max_request_body_size = request_size, sc_max_response_body_size = response_size,
              sc_max_connections = connections, sc_http_only = True\<rparr>), [TimeoutLayer timeout])})"
proof -
  obtain listener where "bind (''0.0.0.0:'' @ show_nat (unat port)) = Inr listener"
    using assms(2) by (cases "bind (''0.0.0.0:'' @ show_nat (unat port))")
      (auto simp: run_server_def create_json_rpc_service_def create_grpc_service_def Let_def)
  from run_server_starts [where bind = bind, OF this, of A signers d kafka local_addr request_size response_size connections timeout]
    assms(2,3) obtain grpc where "create_grpc_service A impl = Inr grpc"
    and "rs_routers srv = [json_rpc_router A (JsonRpcService impl
       \<lparr>sc_max_request_body_size = request_size, sc_max_response_body_size = response_size,
        sc_max_connections = connections, sc_http_only = True\<rparr>) timeout, grpc_router A connections timeout grpc]"
    by (cases "local_addr listener") auto
  then show ?thesis
    by (simp add: steer_def route_index_cases json_rpc_router_routes [OF assms(1)] grpc_router_routes [OF assms(1)]
        grpc_service_routes [OF assms(1)])
qed

theorem grpc_routes_unprotected_witness:
  "\<exists>srv. run_server (list_routers (case_grpc_interface ''tap_aggregator'' ''graph_tally''))
      (\<lambda>a. Inr a) (\<lambda>a. Inr a) 8080 demo_registry demo_domain 1000 1000 32 60 None = Returned (Inr srv) \<and>
    (''graph_tally'', GrpcService GraphTallyAggregator
       \<lparr>rpc_signers = demo_registry, rpc_domain_separator = demo_domain, rpc_kafka = None\<rparr> True, []) \<in>
      set (steer (rs_routers srv) (Some (map (\<lambda>c. of_nat (of_char c)) ''application/grpc+proto'')))"
proof -
  let ?path = "case_grpc_interface ''tap_aggregator'' ''graph_tally''"
  obtain srv where srv: "run_server (list_routers ?path)
      (\<lambda>a. Inr a) (\<lambda>a. Inr a) 8080 demo_registry demo_domain 1000 1000 32 60 None = Returned (Inr srv)"
    using run_server_starts [where bind = "\<lambda>a. Inr a" and port = 8080, OF refl, of "list_routers ?path" demo_registry
        demo_domain None "\<lambda>a. Inr a" 1000 1000 32 60] by auto
  from grpc_routes_unprotected [OF list_routers_law srv refl, of "map (\<lambda>c. of_nat (of_char c)) ''application/grpc+proto''"]
  have "set (steer (rs_routers srv) (Some (map (\<lambda>c. of_nat (of_char c)) ''application/grpc+proto''))) =
      {(?path i, GrpcService i \<lparr>rpc_signers = demo_registry, rpc_domain_separator = demo_domain, rpc_kafka = None\<rparr> True, []) | i. True}"
    by simp
  then have "(?path GraphTallyAggregator, GrpcService GraphTallyAggregator
       \<lparr>rpc_signers = demo_registry, rpc_domain_separator = demo_domain, rpc_kafka = None\<rparr> True, []) \<in>
      set (steer (rs_routers srv) (Some (map (\<lambda>c. of_nat (of_char c)) ''application/grpc+proto'')))" by blast
  with srv show ?thesis by (intro exI [of _ srv]) simp
qed

section \<open>The configuration\<close>

text \<open>C35. The configuration texts are read back: when the signing keys and the accepted signers are
  written as lists of pairs, with the debug form of the addresses and any key form that the key parser
  reads, the registry made from the two texts is the one built from the keys and the signers, or the
  error of that registry.\<close>

theorem signer_registry_reads_back:
  assumes "address_text_law F" and "\<And>a. plain_text (fmt_address_debug F a) \<and> CHR ''='' \<notin> set (fmt_address_debug F a)"
    and "\<And>k. plain_text (show_key k) \<and> parse_key (show_key k) = Inr k"
  shows "AggregatorMain.signer_registry C F parse_key
      (render_pairs (map (\<lambda>(p, k). (fmt_address_debug F p, show_key k)) ks))
      (Some (render_pairs (map (\<lambda>(p, a). (fmt_address_debug F p, fmt_address_debug F a)) acc))) =
    map_err (\<lambda>e. WithContext InSigners (RegistryError e)) (registry_build C ks acc)"
proof -
  let ?dbg = "fmt_address_debug F"
  have dbg: "parse_address F (?dbg a) = Inr a" for a using assms(1) by (simp add: address_text_law_def)
  have "pairs (render_pairs (map (\<lambda>(p, k). (?dbg p, show_key k)) ks)) = Inr (map (\<lambda>(p, k). (?dbg p, show_key k)) ks)"
    "pairs (render_pairs (map (\<lambda>(p, a). (?dbg p, ?dbg a)) acc)) = Inr (map (\<lambda>(p, a). (?dbg p, ?dbg a)) acc)"
    using assms(2,3) by (auto intro!: pairs_render_pairs)
  moreover have "collect_results (parse_signing_pair F parse_key) (map (\<lambda>(p, k). (?dbg p, show_key k)) ks) = Inr ks"
    "collect_results (parse_accepted_pair F) (map (\<lambda>(p, a). (?dbg p, ?dbg a)) acc) = Inr acc"
    using assms(3) dbg
    by (auto intro!: collect_results_map simp: parse_signing_pair_def parse_accepted_pair_def)
  ultimately show ?thesis by (simp add: AggregatorMain.signer_registry_def)
qed

lemma demo_plain_text:
  "plain_text (fmt_address_debug demo_fmt a) \<and> CHR ''='' \<notin> set (fmt_address_debug demo_fmt a)"
proof -
  have "\<not> is_whitespace c \<and> c \<noteq> CHR '';'' \<and> c \<noteq> CHR ''=''" if "c \<in> set (hex_bytes bs)" for c bs
  proof -
    from hex_bytes_chars [OF that] obtain n where n: "n < 16" "c = hex_digit n" by blast
    have "\<not> is_whitespace c" using n hex_digit_code [OF n(1)] by (auto simp: is_whitespace_def)
    moreover have "c \<noteq> CHR '';''" "c \<noteq> CHR ''=''"
      using n hex_digit_not [OF n(1), of "CHR '';''"] hex_digit_not [OF n(1), of "CHR ''=''"] by simp_all
    ultimately show ?thesis by blast
  qed
  then show ?thesis by (auto simp: plain_text_def demo_fmt_def is_whitespace_def)
qed

theorem signer_registry_reads_back_witness:
  "AggregatorMain.signer_registry demo_crypto demo_fmt (parse_address demo_fmt)
      (render_pairs [(fmt_address_debug demo_fmt 1, fmt_address_debug demo_fmt 5)])
      (Some (render_pairs [(fmt_address_debug demo_fmt 1, fmt_address_debug demo_fmt 6)])) = Inr demo_registry"
proof -
  have "\<And>k. plain_text (fmt_address_debug demo_fmt k) \<and> parse_address demo_fmt (fmt_address_debug demo_fmt k) = Inr k"
    using demo_plain_text demo_address_text_law by (simp add: address_text_law_def)
  from signer_registry_reads_back [OF demo_address_text_law demo_plain_text this, of demo_crypto "[(1, 5)]" "[(1, 6)]"]
  show ?thesis by (simp add: demo_registry_built)
qed

text \<open>Nothing in a list of pairs is skipped silently: the list is accepted exactly if every
  segment that is not blank has an equals sign, and the pairs are then the segments in order, each cut
  at its first equals sign; otherwise the error quotes the first segment without one.\<close>

lemma pairs_all_or_error:
  "pairs raw =
     (let entries = filter (\<lambda>e. e \<noteq> []) (map trim (split_char (CHR '';'') raw)) in
      case filter (\<lambda>e. CHR ''='' \<notin> set e) entries of
        bad # _ \<Rightarrow> Inl (MalformedEntry bad)
      | [] \<Rightarrow> Inr (map (\<lambda>e. (trim (takeWhile (\<lambda>c. c \<noteq> CHR ''='') e),
                             trim (tl (dropWhile (\<lambda>c. c \<noteq> CHR ''='') e)))) entries))"
proof -
  have split: "split_once d e = (if d \<in> set e then Some (takeWhile (\<lambda>c. c \<noteq> d) e, tl (dropWhile (\<lambda>c. c \<noteq> d) e)) else None)"
    for d e by (induction e) auto
  have "collect_results split_pair es =
      (case filter (\<lambda>e. CHR ''='' \<notin> set e) es of
        bad # _ \<Rightarrow> Inl (MalformedEntry bad)
      | [] \<Rightarrow> Inr (map (\<lambda>e. (trim (takeWhile (\<lambda>c. c \<noteq> CHR ''='') e),
                             trim (tl (dropWhile (\<lambda>c. c \<noteq> CHR ''='') e)))) es))" for es
    by (induction es) (auto simp: split_pair_def split split: list.split)
  then show ?thesis by (simp add: pairs_def Let_def)
qed

end
