(* ===== verification/EscrowContracts.thy ===== *)
theory EscrowContracts
  imports EscrowPlan Bytes Eip712
begin

text \<open>
  What the escrow manager reads from and sends to the outside: its configuration
  (\<open>config.rs\<close>), the subgraph queries (\<open>subgraphs.rs\<close>) and the contract calls
  (\<open>contracts.rs\<close>, all in \<open>crates/bin/escrow_manager/src\<close>).

  The subgraph client, the RPC provider and the contracts are not part of the repository: a query is
  a function from the query's text to the rows or the error that come back, a transaction is a
  function from the calls to the block it landed in, if any. Calls are kept as values of a datatype
  with the arguments that the code passes; their ABI encoding is generated code. An error that the
  code wraps with \<open>context\<close> is the text of the context, as its \<open>Display\<close> is.
\<close>

section \<open>Configuration\<close>

record kafka_config =
  kc_config :: "string \<rightharpoonup> string"
  kc_realtime_topic :: string
  kc_aggregated_topic :: "string option"
  kc_aggregated_cutoff_timestamp :: "int option"

record escrow_config =
  ec_authorize_signers :: bool
  ec_dry_run :: bool
  ec_debts :: "address \<rightharpoonup> u64"
  ec_payments_escrow_contract :: address
  ec_graph_tally_collector_contract :: address
  ec_grt_contract :: address
  ec_grt_allowance :: u64
  ec_kafka :: kafka_config
  ec_network_subgraph :: string
  ec_query_auth :: string
  ec_rpc_url :: string
  ec_secret_key :: b256
  ec_signers :: "b256 list"
  ec_update_interval_seconds :: u32
  ec_port_metrics :: u16
  ec_balance_fill_factor :: f64
  ec_withdraw_enabled :: bool
  ec_withdraw_margin :: f64
  ec_min_withdraw_grt :: u64

text \<open>The values of the fields that a configuration file may leave out; the decimal literals are
  the nearest doubles.\<close>

definition default_port_metrics :: u16 where "default_port_metrics = 9090"
definition default_balance_fill_factor :: f64 where "default_balance_fill_factor = f64_of_rat (8 / 10)"
definition default_withdraw_margin :: f64 where "default_withdraw_margin = f64_of_rat (1 / 4)"
definition default_min_withdraw_grt :: u64 where "default_min_withdraw_grt = 500"

section \<open>Subgraph queries\<close>

text \<open>The texts of the queries. A line ends with a line feed.\<close>

definition text_lines :: "string list \<Rightarrow> string" where
  "text_lines ls = concat (map (\<lambda>l. l @ [CHR 0x0A]) ls)"

definition authorized_signers_query :: "alloy_fmt \<Rightarrow> address \<Rightarrow> string" where
  "authorized_signers_query F payer =
     ''{ payer(id:'' @ [CHR 0x22] @ fmt_address_debug F payer @ [CHR 0x22] @ '') { signers { id } } }''"

definition escrow_accounts_query :: "alloy_fmt \<Rightarrow> address \<Rightarrow> address \<Rightarrow> string" where
  "escrow_accounts_query F payer collector = [CHR 0x0A] @ text_lines
    [''        paymentsEscrowAccounts('',
     ''            block: $block'',
     ''            orderBy: id'',
     ''            orderDirection: asc'',
     ''            first: $first'',
     ''            where: {'',
     ''                id_gt: $last'',
     ''                payer: '' @ [CHR 0x22] @ fmt_address_debug F payer @ [CHR 0x22],
     ''                collector: '' @ [CHR 0x22] @ fmt_address_debug F collector @ [CHR 0x22],
     ''            }'',
     ''        ) {'',
     ''            id'',
     ''            balance'',
     ''            totalAmountThawing'',
     ''            thawEndTimestamp'',
     ''            receiver {'',
     ''                id'',
     ''            }'',
     ''        }''] @ ''        ''"

definition active_allocations_query :: string where
  "active_allocations_query = [CHR 0x0A] @ text_lines
    [''        allocations('',
     ''            block: $block'',
     ''            orderBy: id'',
     ''            orderDirection: asc'',
     ''            first: $first'',
     ''            where: {'',
     ''                id_gt: $last'',
     ''                status: Active'',
     [CHR 0x09] @ [CHR 0x09] @ ''        isLegacy: false'',
     ''            }'',
     ''        ) {'',
     ''            id'',
     ''            indexer { id }'',
     ''        }''] @ ''    ''"

text \<open>\<open>query\<close> is the client's: the signers of the payer, if it has an entry.\<close>

definition authorized_signers ::
    "alloy_fmt \<Rightarrow> (string \<Rightarrow> string + address list option) \<Rightarrow> address \<Rightarrow> string + address list" where
  "authorized_signers F query payer =
     rbind (query (authorized_signers_query F payer))
       (\<lambda>data. Inr (case data of None \<Rightarrow> [] | Some signers \<Rightarrow> signers))"

record escrow_account_row =
  row_balance :: u128
  row_total_amount_thawing :: u128
  row_thaw_end_timestamp :: u64
  row_receiver :: address

datatype paginated_query_error = EmptyResponse | QueryFailed string

text \<open>The rows become a map by receiver: of two rows with one receiver the later one counts. An
  empty response is an empty map. \<open>show_error\<close> prints an error of the client.\<close>

definition escrow_accounts ::
    "alloy_fmt \<Rightarrow> (paginated_query_error \<Rightarrow> string)
       \<Rightarrow> (string \<Rightarrow> nat \<Rightarrow> paginated_query_error + escrow_account_row list) \<Rightarrow> address \<Rightarrow> address
       \<Rightarrow> string + (address \<times> escrow_account) list" where
  "escrow_accounts F show_error paginated_query payer collector =
     (case paginated_query (escrow_accounts_query F payer collector) 500 of
        Inr accounts \<Rightarrow>
          Inr (fold (\<lambda>a. AList.update (row_receiver a)
                 \<lparr>balance = row_balance a, thawing = row_total_amount_thawing a,
                  thaw_end_timestamp = row_thaw_end_timestamp a\<rparr>) accounts [])
      | Inl EmptyResponse \<Rightarrow> Inr []
      | Inl err \<Rightarrow> Inl (show_error err))"

record allocation =
  alloc_id :: address
  alloc_indexer :: address

text \<open>Each row is a pair of an allocation and its indexer.\<close>

definition active_allocations ::
    "(paginated_query_error \<Rightarrow> string) \<Rightarrow> (string \<Rightarrow> nat \<Rightarrow> paginated_query_error + (address \<times> address) list)
       \<Rightarrow> string + allocation list" where
  "active_allocations show_error paginated_query =
     rbind (map_err show_error (paginated_query active_allocations_query 500)) (\<lambda>rows.
       Inr (map (\<lambda>(i, indexer). \<lparr>alloc_id = i, alloc_indexer = indexer\<rparr>) rows))"

section \<open>Contract calls\<close>

record contracts =
  ct_payments_escrow :: address
  ct_graph_tally_collector :: address
  ct_token :: address
  ct_payer :: address

definition contracts_new :: "address \<Rightarrow> address \<Rightarrow> address \<Rightarrow> address \<Rightarrow> contracts" where
  "contracts_new payer token payments_escrow graph_tally_collector =
     \<lparr>ct_payments_escrow = payments_escrow, ct_graph_tally_collector = graph_tally_collector,
      ct_token = token, ct_payer = payer\<rparr>"

definition payer_of :: "contracts \<Rightarrow> address" where
  "payer_of ct = ct_payer ct"

definition collector_of :: "contracts \<Rightarrow> address" where
  "collector_of ct = ct_graph_tally_collector ct"

text \<open>\<open>owner_allowance\<close> is the token's: the allowance of an owner to a spender.\<close>

definition allowance ::
    "(address \<Rightarrow> address \<Rightarrow> string + 256 word) \<Rightarrow> contracts \<Rightarrow> string + u128" where
  "allowance owner_allowance ct =
     rbind (map_err (\<lambda>_. ''get allowance'') (owner_allowance (payer_of ct) (ct_payments_escrow ct))) (\<lambda>allowed.
       Inr (if uint allowed < 2 ^ 128 then ucast allowed else - 1))"

definition approve ::
    "(address \<Rightarrow> 256 word \<Rightarrow> string + unit) \<Rightarrow> contracts \<Rightarrow> u128 \<Rightarrow> string + unit" where
  "approve send_approve ct amount = send_approve (ct_payments_escrow ct) (ucast amount)"

text \<open>A call that is part of a \<open>multicall\<close> transaction of the escrow contract.\<close>

datatype escrow_call =
    DepositCall address address "256 word"
  | ThawCall address address "256 word"
  | WithdrawCall address address

text \<open>\<open>multicall\<close> sends one transaction and waits for its receipt: the block number, if the
  receipt has one, or the error.\<close>

type_synonym multicall = "escrow_call list \<Rightarrow> string + u64 option"

text \<open>An error of the contract library: the response of the node, which may hold an error of the
  contract's interface, or anything else. \<open>decode\<close> finds the interface's error and prints it.\<close>

datatype 'r call_error = ErrorResp 'r | OtherCallError string

definition decoded_err :: "('r \<Rightarrow> string option) \<Rightarrow> ('r \<Rightarrow> string) \<Rightarrow> 'r call_error \<Rightarrow> string" where
  "decoded_err decode show_response err =
     (case err of
        ErrorResp r \<Rightarrow> (case decode r of Some decoded \<Rightarrow> decoded | None \<Rightarrow> show_response r)
      | OtherCallError text \<Rightarrow> text)"

definition send_multicall ::
    "('r \<Rightarrow> string option) \<Rightarrow> ('r \<Rightarrow> string) \<Rightarrow> (escrow_call list \<Rightarrow> 'r call_error + 'p)
       \<Rightarrow> ('p \<Rightarrow> string + u64 option) \<Rightarrow> multicall" where
  "send_multicall decode show_response send get_receipt calls =
     rbind (map_err (decoded_err decode show_response) (send calls)) get_receipt"

definition deposit_calls :: "contracts \<Rightarrow> (address \<times> u128) list \<Rightarrow> escrow_call list" where
  "deposit_calls ct deposits =
     map (\<lambda>(receiver, amount). DepositCall (collector_of ct) receiver (ucast amount)) deposits"

definition deposit_many :: "multicall \<Rightarrow> contracts \<Rightarrow> (address \<times> u128) list \<Rightarrow> string + u64" where
  "deposit_many multicall ct deposits =
     rbind (multicall (deposit_calls ct deposits)) (\<lambda>block_number. ok_or block_number ''invalid deposit receipt'')"

definition thaw_calls :: "contracts \<Rightarrow> (address \<times> u128) list \<Rightarrow> escrow_call list" where
  "thaw_calls ct thaws =
     map (\<lambda>(receiver, tokens). ThawCall (collector_of ct) receiver (ucast tokens)) thaws"

definition thaw_many :: "multicall \<Rightarrow> contracts \<Rightarrow> (address \<times> u128) list \<Rightarrow> string + u64" where
  "thaw_many multicall ct thaws =
     rbind (multicall (thaw_calls ct thaws)) (\<lambda>block_number. ok_or block_number ''invalid thaw receipt'')"

definition withdraw_calls :: "contracts \<Rightarrow> address list \<Rightarrow> escrow_call list" where
  "withdraw_calls ct receivers = map (WithdrawCall (collector_of ct)) receivers"

definition withdraw_many :: "multicall \<Rightarrow> contracts \<Rightarrow> address list \<Rightarrow> string + u64" where
  "withdraw_many multicall ct receivers =
     rbind (multicall (withdraw_calls ct receivers))
       (\<lambda>block_number. ok_or block_number ''invalid withdraw receipt'')"

text \<open>\<open>block\<close> is the provider's latest block, by its timestamp.\<close>

definition latest_block_timestamp :: "string + u64 option \<Rightarrow> string + u64" where
  "latest_block_timestamp block = rbind (map_err (\<lambda>_. ''get latest block'') block) (\<lambda>b. ok_or b ''no latest block'')"

subsection \<open>Authorizing a signer\<close>

text \<open>The packed message of the proof: chain, collector, a tag, the deadline and the payer.\<close>

definition authorization_message :: "u64 \<Rightarrow> address \<Rightarrow> 256 word \<Rightarrow> address \<Rightarrow> byte list" where
  "authorization_message chain_id collector deadline payer =
     be_bytes 32 (ucast chain_id :: 256 word) @
     be_bytes 20 collector @
     map (\<lambda>c. of_nat (of_char c)) ''authorizeSignerProof'' @
     be_bytes 32 deadline @
     be_bytes 20 payer"

text \<open>\<open>sign_message\<close> signs the hash of the message with the prefix of Ethereum messages, and
  \<open>send_authorize\<close> sends the transaction of the collector.\<close>

definition authorize_signer ::
    "(byte list \<Rightarrow> b256) \<Rightarrow> ('k \<Rightarrow> b256 \<Rightarrow> string + byte list) \<Rightarrow> ('k \<Rightarrow> address)
       \<Rightarrow> (address \<Rightarrow> 256 word \<Rightarrow> byte list \<Rightarrow> string + unit)
       \<Rightarrow> string + u64 \<Rightarrow> u64 \<Rightarrow> contracts \<Rightarrow> 'k \<Rightarrow> string + unit" where
  "authorize_signer keccak256 sign_message address_of send_authorize chain_id now_secs ct signer =
     rbind (map_err (\<lambda>_. ''get chain ID'') chain_id) (\<lambda>chain_id.
     let deadline_offset_s = 60;
         deadline = ucast (now_secs + deadline_offset_s);
         hash = keccak256 (authorization_message chain_id (collector_of ct) deadline (payer_of ct)) in
     rbind (map_err (\<lambda>_. ''sign authorization proof'') (sign_message signer hash)) (\<lambda>proof.
       send_authorize (address_of signer) deadline proof))"

end
