(* ===== verification/EscrowCycle.thy ===== *)
theory EscrowCycle
  imports EscrowKafka EscrowContracts
begin

text \<open>
  The escrow manager's \<open>main\<close> (\<open>crates/bin/escrow_manager/src/main.rs\<close>): the authorization of
  signers and the allowance at startup, and one turn of its loop: the receivers and their debts, the
  plan, the three transactions, the metrics, and the block that the next turn's queries are pinned
  to. The stages of the loop's body are one definition each, composed in \<open>escrow_cycle\<close>.

  What a turn reads from outside is the record \<open>cycle_env\<close>. A turn is partial, because
  \<open>next_balance\<close> and \<open>reduce_adjustments\<close> are: \<open>None\<close> is a turn that never ends. The
  timer, the signals, the log and the durations are not modelled.
\<close>

section \<open>Startup\<close>

text \<open>The signers for which a transaction is sent; its result is only logged.\<close>

definition signers_to_authorize :: "bool \<Rightarrow> address list \<Rightarrow> address list \<Rightarrow> address list" where
  "signers_to_authorize dry_run authorized signers =
     filter (\<lambda>signer. \<not> (signer \<in> set authorized \<or> dry_run)) signers"

text \<open>The loop over the signers when \<open>authorize_signers\<close> is set: what the query of the
  authorized ones returned, and the signers for which \<open>authorize_signer\<close> is called.\<close>

definition authorize_at_startup ::
    "escrow_config \<Rightarrow> string + address list \<Rightarrow> address list \<Rightarrow> string + address list" where
  "authorize_at_startup config authorized signers =
     (if ec_authorize_signers config
      then rbind (map_err (\<lambda>_. ''fetch authorized signers'') authorized) (\<lambda>authorized.
             Inr (signers_to_authorize (ec_dry_run config) authorized signers))
      else Inr [])"

text \<open>The allowance is read, raised if it is below the configured one, and read again: the last
  value read and the amount approved, if any.\<close>

definition ensure_allowance ::
    "escrow_config \<Rightarrow> string + u128 \<Rightarrow> (u128 \<Rightarrow> string + unit) \<Rightarrow> string + u128
       \<Rightarrow> string + (u128 \<times> u128 option)" where
  "ensure_allowance config allowance_before send_approve allowance_after =
     rbind allowance_before (\<lambda>allowance.
     let expected_allowance = ucast (ec_grt_allowance config) * GRT in
     if allowance < expected_allowance
     then
       (if ec_dry_run config then Inr (allowance, None)
        else rbind (map_err (\<lambda>_. ''approve'') (send_approve expected_allowance)) (\<lambda>_.
             rbind allowance_after (\<lambda>allowance. Inr (allowance, Some expected_allowance))))
     else Inr (allowance, None))"

section \<open>State\<close>

text \<open>The gauges and counters; the per-receiver ones are tables by the receiver's label.\<close>

record response_metrics =
  rm_ok :: u64
  rm_err :: u64

text \<open>Both counters are incremented once when they are registered.\<close>

definition response_metrics_new :: response_metrics where
  "response_metrics_new = \<lparr>rm_ok = 1, rm_err = 1\<rparr>"

record escrow_metrics =
  em_total_debt_grt :: f64
  em_total_balance_grt :: f64
  em_total_target_grt :: f64
  em_total_adjustment_grt :: f64
  em_total_thawing_grt :: f64
  em_receiver_count :: int
  em_thawing_count :: int
  em_deposit :: response_metrics
  em_thaw :: response_metrics
  em_withdraw :: response_metrics
  em_debt_grt :: "string \<rightharpoonup> f64"
  em_balance_grt :: "string \<rightharpoonup> f64"
  em_target_grt :: "string \<rightharpoonup> f64"
  em_adjustment_grt :: "string \<rightharpoonup> f64"
  em_thawing_grt :: "string \<rightharpoonup> f64"

definition escrow_metrics_new :: escrow_metrics where
  "escrow_metrics_new =
     \<lparr>em_total_debt_grt = Fin 0, em_total_balance_grt = Fin 0, em_total_target_grt = Fin 0,
      em_total_adjustment_grt = Fin 0, em_total_thawing_grt = Fin 0, em_receiver_count = 0,
      em_thawing_count = 0, em_deposit = response_metrics_new, em_thaw = response_metrics_new,
      em_withdraw = response_metrics_new, em_debt_grt = Map.empty, em_balance_grt = Map.empty,
      em_target_grt = Map.empty, em_adjustment_grt = Map.empty, em_thawing_grt = Map.empty\<rparr>"

text \<open>\<open>ms_subgraph_block\<close> is the block the subgraph client is pinned to, \<open>ms_sent\<close> the
  transactions sent so far, in order.\<close>

record manager_state =
  ms_metrics :: escrow_metrics
  ms_subgraph_block :: "u64 option"
  ms_sent :: "escrow_call list list"

text \<open>The queries see the block that the client is pinned to; the receipts and RAVs are the
  snapshots of the two Kafka tables.\<close>

record cycle_env =
  ce_allocations :: "u64 option \<Rightarrow> string + allocation list"
  ce_accounts :: "u64 option \<Rightarrow> string + (address \<times> escrow_account) list"
  ce_receipts :: "address \<rightharpoonup> u128"
  ce_ravs :: "address \<rightharpoonup> u128"
  ce_latest_block_timestamp :: "string + u64"
  ce_multicall :: multicall

section \<open>Receivers and debts\<close>

text \<open>\<open>v as f64 / GRT as f64\<close>: the divisor is a double.\<close>

definition in_grt :: "u128 \<Rightarrow> f64" where
  "in_grt v = f64_div (u128_as_f64 v) 1000000000000000000"

definition receivers_of :: "allocation list \<Rightarrow> (address \<times> escrow_account) list \<Rightarrow> address list" where
  "receivers_of allocations accounts =
     sorted_list_of_set (set (map alloc_indexer allocations) \<union> set (map fst accounts))"

definition account_of :: "(address \<times> escrow_account) list \<Rightarrow> address \<Rightarrow> escrow_account" where
  "account_of accounts receiver = entry_or_default default_account accounts receiver"

text \<open>The RAV values of an indexer's allocations are added up.\<close>

definition indexer_ravs :: "(address \<rightharpoonup> u128) \<Rightarrow> allocation list \<Rightarrow> (address \<times> u128) list" where
  "indexer_ravs ravs allocations =
     fold (\<lambda>allocation t.
       case ravs (alloc_id allocation) of
         Some value \<Rightarrow>
           AList.update (alloc_indexer allocation)
             (entry_or_default 0 t (alloc_indexer allocation) + value) t
       | None \<Rightarrow> t) allocations []"

definition debts_of ::
    "(address \<rightharpoonup> u128) \<Rightarrow> (address \<times> u128) list \<Rightarrow> address list \<Rightarrow> (address \<times> u128) list" where
  "debts_of receipts ravs receivers =
     map (\<lambda>receiver. (receiver,
            max (case receipts receiver of Some v \<Rightarrow> v | None \<Rightarrow> 0) (entry_or_default 0 ravs receiver)))
       receivers"

text \<open>The totals over the accounts, and the gauges of each receiver.\<close>

definition set_totals :: "address list \<Rightarrow> (address \<times> escrow_account) list \<Rightarrow> escrow_metrics \<Rightarrow> escrow_metrics" where
  "set_totals receivers accounts m =
     m\<lparr>em_receiver_count := int (length receivers),
       em_total_balance_grt := in_grt (sum_list (map (balance \<circ> snd) accounts)),
       em_total_thawing_grt := in_grt (sum_list (map (thawing \<circ> snd) accounts)),
       em_thawing_count := int (length (filter (\<lambda>(_, a). 0 < thawing a) accounts))\<rparr>"

definition set_receiver_gauges ::
    "alloy_fmt \<Rightarrow> (address \<times> escrow_account) list \<Rightarrow> address \<times> u128 \<Rightarrow> escrow_metrics \<Rightarrow> escrow_metrics" where
  "set_receiver_gauges F accounts = (\<lambda>(receiver, debt) m.
     let receiver_str = fmt_address_debug F receiver; account = account_of accounts receiver in
     m\<lparr>em_balance_grt := (em_balance_grt m)(receiver_str \<mapsto> in_grt (balance account)),
       em_thawing_grt := (em_thawing_grt m)(receiver_str \<mapsto> in_grt (thawing account)),
       em_debt_grt := (em_debt_grt m)(receiver_str \<mapsto> in_grt debt)\<rparr>)"

definition set_debts ::
    "alloy_fmt \<Rightarrow> (address \<times> escrow_account) list \<Rightarrow> (address \<times> u128) list \<Rightarrow> escrow_metrics \<Rightarrow> escrow_metrics" where
  "set_debts F accounts debts m =
     (fold (set_receiver_gauges F accounts) debts m)
       \<lparr>em_total_debt_grt := in_grt (btree_sum debts)\<rparr>"

section \<open>The plan\<close>

text \<open>Whether anything is reclaimed in this turn, and against which time. A clock that cannot be
  read leaves withdrawals out.\<close>

definition reclaim_of :: "escrow_config \<Rightarrow> (address \<times> u128) list \<Rightarrow> string + u64 \<Rightarrow> reclaim option" where
  "reclaim_of config debts latest_block =
     (let reclaim_enabled = ec_withdraw_enabled config \<and> debt_ready debts;
          chain_now = (if reclaim_enabled
                       then (case latest_block of Inr timestamp \<Rightarrow> Some timestamp | Inl _ \<Rightarrow> None)
                       else None) in
      if reclaim_enabled
      then Some \<lparr>chain_now = chain_now, margin_bps = withdraw_margin_bps (ec_withdraw_margin config),
                  min_withdraw = min_withdraw_of (ec_min_withdraw_grt config)\<rparr>
      else None)"

record plan =
  pl_total_target :: u128
  pl_adjustments :: "(address \<times> u128) list"
  pl_thaws :: "(address \<times> u128) list"
  pl_withdrawals :: "address list"

definition plan_empty :: plan where
  "plan_empty = \<lparr>pl_total_target = 0, pl_adjustments = [], pl_thaws = [], pl_withdrawals = []\<rparr>"

definition target_of :: "escrow_config \<Rightarrow> (address \<times> u128) list \<Rightarrow> address \<Rightarrow> u128 option" where
  "target_of config debts receiver =
     (let debt = max (entry_or_default 0 debts receiver)
                   (ucast (case ec_debts config receiver of Some d \<Rightarrow> d | None \<Rightarrow> 0) * GRT) in
      next_balance debt (ec_balance_fill_factor config))"

definition add_action :: "address \<Rightarrow> action \<Rightarrow> plan \<Rightarrow> plan" where
  "add_action receiver act p =
     (case act of
        NoAction \<Rightarrow> p
      | Withdraw \<Rightarrow> p\<lparr>pl_withdrawals := pl_withdrawals p @ [receiver]\<rparr>
      | Deposit amount \<Rightarrow> p\<lparr>pl_adjustments := pl_adjustments p @ [(receiver, amount)]\<rparr>
      | Thaw amount \<Rightarrow> p\<lparr>pl_thaws := pl_thaws p @ [(receiver, amount)]\<rparr>)"

text \<open>The body of the loop over the receivers.\<close>

definition plan_receiver ::
    "alloy_fmt \<Rightarrow> escrow_config \<Rightarrow> (address \<times> escrow_account) list \<Rightarrow> (address \<times> u128) list
       \<Rightarrow> reclaim option \<Rightarrow> address \<Rightarrow> plan \<times> escrow_metrics \<Rightarrow> (plan \<times> escrow_metrics) option" where
  "plan_receiver F config accounts debts reclaim receiver = (\<lambda>(p, m).
     map_option (\<lambda>target.
       let act = decide (account_of accounts receiver) target reclaim;
           receiver_str = fmt_address_debug F receiver;
           adjustment = (case act of Deposit amount \<Rightarrow> in_grt amount | _ \<Rightarrow> Fin 0) in
       (add_action receiver act (p\<lparr>pl_total_target := pl_total_target p + target\<rparr>),
        m\<lparr>em_target_grt := (em_target_grt m)(receiver_str \<mapsto> in_grt target),
          em_adjustment_grt := (em_adjustment_grt m)(receiver_str \<mapsto> adjustment)\<rparr>))
       (target_of config debts receiver))"

fun plan_loop ::
    "alloy_fmt \<Rightarrow> escrow_config \<Rightarrow> (address \<times> escrow_account) list \<Rightarrow> (address \<times> u128) list
       \<Rightarrow> reclaim option \<Rightarrow> address list \<Rightarrow> plan \<times> escrow_metrics \<Rightarrow> (plan \<times> escrow_metrics) option" where
  "plan_loop F config accounts debts reclaim [] pm = Some pm"
| "plan_loop F config accounts debts reclaim (receiver # receivers) pm =
     Option.bind (plan_receiver F config accounts debts reclaim receiver pm)
       (plan_loop F config accounts debts reclaim receivers)"

section \<open>Transactions\<close>

text \<open>A transaction that is sent: the counters, the latest block of a transaction, the log of what
  was sent. \<open>latest_tx_block.max(Some(block))\<close>: no block is less than any.\<close>

definition count_result :: "string + u64 \<Rightarrow> response_metrics \<Rightarrow> response_metrics" where
  "count_result result r =
     (case result of Inr _ \<Rightarrow> r\<lparr>rm_ok := rm_ok r + 1\<rparr> | Inl _ \<Rightarrow> r\<lparr>rm_err := rm_err r + 1\<rparr>)"

definition max_block :: "u64 option \<Rightarrow> string + u64 \<Rightarrow> u64 option" where
  "max_block latest result =
     (case result of
        Inr block \<Rightarrow> Some (case latest of None \<Rightarrow> block | Some b \<Rightarrow> max b block)
      | Inl _ \<Rightarrow> latest)"

definition send_thaws ::
    "escrow_config \<Rightarrow> contracts \<Rightarrow> multicall \<Rightarrow> (address \<times> u128) list
       \<Rightarrow> u64 option \<times> manager_state \<Rightarrow> u64 option \<times> manager_state" where
  "send_thaws config ct mc thaws = (\<lambda>(latest_tx_block, st).
     if thaws = [] \<or> ec_dry_run config then (latest_tx_block, st)
     else
       let result = thaw_many mc ct thaws; m = ms_metrics st in
       (max_block latest_tx_block result,
        st\<lparr>ms_metrics := m\<lparr>em_thaw := count_result result (em_thaw m)\<rparr>,
           ms_sent := ms_sent st @ [thaw_calls ct thaws]\<rparr>))"

definition send_deposits ::
    "escrow_config \<Rightarrow> contracts \<Rightarrow> multicall \<Rightarrow> (address \<times> u128) list
       \<Rightarrow> u64 option \<times> manager_state \<Rightarrow> (u64 option \<times> manager_state) option" where
  "send_deposits config ct mc adjustments = (\<lambda>(latest_tx_block, st).
     if adjustments = [] then Some (latest_tx_block, st)
     else
       map_option (\<lambda>adjustments.
         if ec_dry_run config then (latest_tx_block, st)
         else
           let result = deposit_many mc ct adjustments; m = ms_metrics st in
           (max_block latest_tx_block result,
            st\<lparr>ms_metrics := m\<lparr>em_deposit := count_result result (em_deposit m)\<rparr>,
               ms_sent := ms_sent st @ [deposit_calls ct adjustments]\<rparr>))
         (if btree_sum adjustments \<le> MAX_ADJUSTMENT then Some adjustments
          else reduce_adjustments adjustments))"

definition send_withdrawals ::
    "escrow_config \<Rightarrow> contracts \<Rightarrow> multicall \<Rightarrow> address list
       \<Rightarrow> u64 option \<times> manager_state \<Rightarrow> u64 option \<times> manager_state" where
  "send_withdrawals config ct mc withdrawals = (\<lambda>(latest_tx_block, st).
     if withdrawals = [] \<or> ec_dry_run config then (latest_tx_block, st)
     else
       let result = withdraw_many mc ct withdrawals; m = ms_metrics st in
       (max_block latest_tx_block result,
        st\<lparr>ms_metrics := m\<lparr>em_withdraw := count_result result (em_withdraw m)\<rparr>,
           ms_sent := ms_sent st @ [withdraw_calls ct withdrawals]\<rparr>))"

section \<open>One turn of the loop\<close>

definition set_plan_totals :: "plan \<Rightarrow> escrow_metrics \<Rightarrow> escrow_metrics" where
  "set_plan_totals p m =
     m\<lparr>em_total_target_grt := in_grt (pl_total_target p),
       em_total_adjustment_grt := in_grt (btree_sum (pl_adjustments p))\<rparr>"

text \<open>The block of the latest transaction becomes the one that the queries ask for.\<close>

definition pin_subgraph :: "u64 option \<times> manager_state \<Rightarrow> manager_state" where
  "pin_subgraph = (\<lambda>(latest_tx_block, st).
     case latest_tx_block of
       Some tx_block \<Rightarrow> st\<lparr>ms_subgraph_block := Some tx_block\<rparr>
     | None \<Rightarrow> st)"

text \<open>The second half of a turn: the transactions of the plan.\<close>

definition carry_out ::
    "escrow_config \<Rightarrow> contracts \<Rightarrow> multicall \<Rightarrow> plan \<Rightarrow> manager_state
       \<Rightarrow> manager_state option" where
  "carry_out config ct mc p st =
     (let thawed = send_thaws config ct mc (pl_thaws p) (None, st) in
      map_option (\<lambda>deposited. pin_subgraph (send_withdrawals config ct mc (pl_withdrawals p) deposited))
        (send_deposits config ct mc (pl_adjustments p) thawed))"

text \<open>A failed query ends the turn at once.\<close>

definition escrow_cycle ::
    "alloy_fmt \<Rightarrow> escrow_config \<Rightarrow> contracts \<Rightarrow> cycle_env \<Rightarrow> manager_state \<Rightarrow> manager_state option" where
  "escrow_cycle F config ct env st =
     (case ce_allocations env (ms_subgraph_block st) of
        Inl _ \<Rightarrow> Some st
      | Inr allocations \<Rightarrow>
        (case ce_accounts env (ms_subgraph_block st) of
           Inl _ \<Rightarrow> Some st
         | Inr accounts \<Rightarrow>
           (let receivers = receivers_of allocations accounts;
                ravs = indexer_ravs (ce_ravs env) allocations;
                debts = debts_of (ce_receipts env) ravs receivers;
                m = set_debts F accounts debts (set_totals receivers accounts (ms_metrics st));
                reclaim = reclaim_of config debts (ce_latest_block_timestamp env) in
            Option.bind (plan_loop F config accounts debts reclaim receivers (plan_empty, m)) (\<lambda>(p, m).
            carry_out config ct (ce_multicall env) p (st\<lparr>ms_metrics := set_plan_totals p m\<rparr>)))))"

lemmas escrow_cycle_defs = escrow_cycle_def carry_out_def pin_subgraph_def

section \<open>The plan of a turn\<close>

text \<open>What is decided for a receiver whose target is computed.\<close>

definition action_for ::
    "escrow_config \<Rightarrow> (address \<times> escrow_account) list \<Rightarrow> (address \<times> u128) list \<Rightarrow> reclaim option
       \<Rightarrow> address \<Rightarrow> action" where
  "action_for config accounts debts reclaim receiver =
     decide (account_of accounts receiver) (the (target_of config debts receiver)) reclaim"

definition deposits_for :: "(address \<Rightarrow> action) \<Rightarrow> address list \<Rightarrow> (address \<times> u128) list" where
  "deposits_for act rs = List.map_filter (\<lambda>r. case act r of Deposit x \<Rightarrow> Some (r, x) | _ \<Rightarrow> None) rs"

definition thaws_for :: "(address \<Rightarrow> action) \<Rightarrow> address list \<Rightarrow> (address \<times> u128) list" where
  "thaws_for act rs = List.map_filter (\<lambda>r. case act r of Thaw x \<Rightarrow> Some (r, x) | _ \<Rightarrow> None) rs"

definition withdrawals_for :: "(address \<Rightarrow> action) \<Rightarrow> address list \<Rightarrow> address list" where
  "withdrawals_for act rs = filter (\<lambda>r. act r = Withdraw) rs"

lemmas plan_for_defs = deposits_for_def thaws_for_def withdrawals_for_def

lemma plan_loop_result:
  assumes "plan_loop F config accounts debts reclaim rs (p0, m0) = Some (p, m)"
  defines "act \<equiv> action_for config accounts debts reclaim"
  shows "(\<forall>r\<in>set rs. target_of config debts r \<noteq> None) \<and>
    pl_adjustments p = pl_adjustments p0 @ deposits_for act rs \<and>
    pl_thaws p = pl_thaws p0 @ thaws_for act rs \<and>
    pl_withdrawals p = pl_withdrawals p0 @ withdrawals_for act rs"
  using assms(1)
proof (induction rs arbitrary: p0 m0)
  case Nil
  then show ?case by (simp add: plan_for_defs List.map_filter_simps)
next
  case (Cons r rs)
  from Cons.prems obtain t where t: "target_of config debts r = Some t"
    by (cases "target_of config debts r") (auto simp: plan_receiver_def)
  have act: "act r = decide (account_of accounts r) t reclaim"
    by (simp add: act_def action_for_def t)
  from Cons.prems t obtain m1 where
    "plan_loop F config accounts debts reclaim rs
       (add_action r (act r) (p0\<lparr>pl_total_target := pl_total_target p0 + t\<rparr>), m1) = Some (p, m)"
    by (auto simp: plan_receiver_def Let_def act)
  from Cons.IH [OF this] t show ?case
    by (cases "act r") (simp_all add: add_action_def plan_for_defs List.map_filter_simps)
qed

lemma plan_loop_total:
  assumes "\<forall>r\<in>set rs. target_of config debts r \<noteq> None"
  shows "\<exists>pm'. plan_loop F config accounts debts reclaim rs pm = Some pm'"
  using assms
proof (induction rs arbitrary: pm)
  case (Cons r rs)
  obtain p m where pm: "pm = (p, m)" by (cases pm)
  from Cons.prems obtain t where "target_of config debts r = Some t" by auto
  moreover have "\<forall>r\<in>set rs. target_of config debts r \<noteq> None" using Cons.prems by simp
  note Cons.IH [OF this]
  ultimately show ?case by (simp add: pm plan_receiver_def Let_def)
qed simp

lemma deposits_for_set: "(r, x) \<in> set (deposits_for act rs) \<longleftrightarrow> r \<in> set rs \<and> act r = Deposit x"
  by (induction rs) (auto simp: deposits_for_def List.map_filter_simps split: action.splits option.splits)

lemma thaws_for_set: "(r, x) \<in> set (thaws_for act rs) \<longleftrightarrow> r \<in> set rs \<and> act r = Thaw x"
  by (induction rs) (auto simp: thaws_for_def List.map_filter_simps split: action.splits option.splits)

lemma plan_receivers:
  "map fst (deposits_for act rs) = filter (\<lambda>r. case act r of Deposit _ \<Rightarrow> True | _ \<Rightarrow> False) rs"
  "map fst (thaws_for act rs) = filter (\<lambda>r. case act r of Thaw _ \<Rightarrow> True | _ \<Rightarrow> False) rs"
  by (induction rs) (auto simp: plan_for_defs List.map_filter_simps split: action.splits)

text \<open>One action per receiver keeps the three batches apart.\<close>

lemma plan_batches_distinct:
  assumes "distinct rs"
  shows "distinct (map fst (thaws_for act rs) @ map fst (deposits_for act rs) @ withdrawals_for act rs)"
proof -
  have "{r. case act r of Thaw _ \<Rightarrow> True | _ \<Rightarrow> False} \<inter> {r. case act r of Deposit _ \<Rightarrow> True | _ \<Rightarrow> False} = {}"
    and "{r. case act r of Thaw _ \<Rightarrow> True | _ \<Rightarrow> False} \<inter> {r. act r = Withdraw} = {}"
    and "{r. case act r of Deposit _ \<Rightarrow> True | _ \<Rightarrow> False} \<inter> {r. act r = Withdraw} = {}"
    by (auto split: action.split_asm)
  with assms show ?thesis unfolding plan_receivers withdrawals_for_def
    by (simp add: Int_def set_eq_iff)
qed

section \<open>Scaling keeps the receivers\<close>

lemma reduce_pass_keys:
  "set (map fst ds) \<subseteq> set (map fst adj) \<Longrightarrow>
     (case reduce_pass ds adj of Inl r \<Rightarrow> map fst r | Inr a \<Rightarrow> map fst a) = map fst adj"
proof (induction ds arbitrary: adj)
  case (Cons rd ds)
  obtain r d where rd: "rd = (r, d)" by (cases rd)
  from Cons.prems have r: "r \<in> fst ` set adj" and ds: "set (map fst ds) \<subseteq> set (map fst adj)"
    by (simp_all add: rd)
  have keys: "map fst (AList.update r v adj) = map fst adj" for v using r by (simp add: update_keys)
  from ds have sub: "set (map fst ds) \<subseteq> set (map fst (AList.update r v adj))" for v
    by (simp only: keys)
  show ?case unfolding rd reduce_pass.simps Let_def
    using Cons.IH [OF sub] by (simp only: keys sum.case simp_thms split: if_split)
qed simp

lemma reduce_loop_keys:
  assumes "reduce_loop ds adj = Some res" and "set (map fst ds) \<subseteq> set (map fst adj)"
  shows "map fst res = map fst adj"
proof -
  have "set (map fst ds) \<subseteq> set (map fst adj) \<longrightarrow> map fst res = map fst adj"
  proof (rule reduce_loop.raw_induct
      [where P = "\<lambda>ds adj res. set (map fst ds) \<subseteq> set (map fst adj) \<longrightarrow> map fst res = map fst adj", OF _ assms(1)], intro impI)
    fix loop ds adj res
    assume IH: "\<And>ds adj res. loop ds adj = Some res \<Longrightarrow>
        set (map fst ds) \<subseteq> set (map fst adj) \<longrightarrow> map fst res = map fst (adj :: (address \<times> u128) list)"
      and body: "(case reduce_pass ds adj of Inl x \<Rightarrow> Some x | Inr adj' \<Rightarrow> loop ds adj') = Some res"
      and sub: "set (map fst ds) \<subseteq> set (map fst adj)"
    show "map fst res = map fst adj"
    proof (cases "reduce_pass ds adj")
      case (Inl x)
      with body reduce_pass_keys [OF sub] show ?thesis by simp
    next
      case (Inr a)
      with reduce_pass_keys [OF sub] have a: "map fst a = map fst adj" by simp
      from body Inr have "loop ds a = Some res" by simp
      from IH [OF this, rule_format] sub show ?thesis by (simp only: a)
    qed
  qed
  with assms(2) show ?thesis by simp
qed

lemma reduce_adjustments_keys:
  assumes "reduce_adjustments xs = Some res"
  shows "map fst res = sorted_list_of_set (fst ` set xs)"
proof -
  let ?D = "btree_from_iter xs"
  let ?A = "map (\<lambda>(r, _). (r, MIN_DEPOSIT)) ?D"
  have keys: "map fst ?A = map fst ?D" by (simp add: comp_def split_beta)
  then have "set (map fst ?D) \<subseteq> set (map fst ?A)" by (simp only: order_refl)
  with assms have "map fst res = map fst ?A"
    by (intro reduce_loop_keys [of ?D]) (simp_all add: reduce_adjustments_def Let_def split: if_splits)
  with keys show ?thesis by (simp add: btree_from_iter_keys)
qed

end
