(* ===== verification/EscrowTurn.thy ===== *)
theory EscrowTurn
  imports EscrowCycle
begin

text \<open>
  What a turn of the escrow manager does, stage by stage: the debts it sees, the action it decides
  for each receiver, the transactions it sends and the block it pins the queries to. The properties
  of \<open>EscrowProperties\<close> are read off these lemmas.
\<close>

section \<open>What a turn sees and decides\<close>

definition debts_seen ::
    "cycle_env \<Rightarrow> allocation list \<Rightarrow> (address \<times> escrow_account) list \<Rightarrow> (address \<times> u128) list" where
  "debts_seen env allocations accounts =
     debts_of (ce_receipts env) (indexer_ravs (ce_ravs env) allocations) (receivers_of allocations accounts)"

definition decided ::
    "escrow_config \<Rightarrow> cycle_env \<Rightarrow> allocation list \<Rightarrow> (address \<times> escrow_account) list \<Rightarrow> address \<Rightarrow> action" where
  "decided config env allocations accounts =
     (let debts = debts_seen env allocations accounts in
      action_for config accounts debts (reclaim_of config debts (ce_latest_block_timestamp env)))"

text \<open>The debt that a receiver's target is computed from.\<close>

definition claimed_debt :: "escrow_config \<Rightarrow> (address \<times> u128) list \<Rightarrow> address \<Rightarrow> u128" where
  "claimed_debt config debts receiver =
     max (entry_or_default 0 debts receiver)
       (ucast (case ec_debts config receiver of Some d \<Rightarrow> d | None \<Rightarrow> 0) * GRT)"

lemma target_of_claimed:
  "target_of config debts receiver =
     next_balance (claimed_debt config debts receiver) (ec_balance_fill_factor config)"
  by (simp add: target_of_def claimed_debt_def)

text \<open>What is deposited: the decided deposits, scaled down when they exceed the limit.\<close>

definition capped :: "(address \<times> u128) list \<Rightarrow> (address \<times> u128) list option" where
  "capped ds = (if ds = [] \<or> btree_sum ds \<le> MAX_ADJUSTMENT then Some ds else reduce_adjustments ds)"

lemma capped_keys:
  assumes "capped ds = Some paid" and "sorted (map fst ds)" and "distinct (map fst ds)"
  shows "map fst paid = map fst ds"
proof (cases "ds = [] \<or> btree_sum ds \<le> MAX_ADJUSTMENT")
  case False
  with assms(1) have "reduce_adjustments ds = Some paid" by (simp add: capped_def)
  then have "map fst paid = sorted_list_of_set (set (map fst ds))"
    by (simp add: reduce_adjustments_keys)
  with assms(2,3) show ?thesis by (simp only: sorted_list_of_set.idem_if_sorted_distinct)
qed (use assms(1) in \<open>auto simp: capped_def\<close>)

section \<open>Transactions\<close>

text \<open>The blocks of the transactions that landed, and the block the queries are pinned to after
  them.\<close>

definition landed :: "multicall \<Rightarrow> escrow_call list list \<Rightarrow> u64 list" where
  "landed mc txs = List.map_filter (\<lambda>tx. case mc tx of Inr b \<Rightarrow> b | Inl _ \<Rightarrow> None) txs"

definition greatest :: "u64 list \<Rightarrow> u64 option" where
  "greatest bs = (if bs = [] then None else Some (Max (set bs)))"

text \<open>One stage of the transactions, and what the three have in common.\<close>

definition sends ::
    "multicall \<Rightarrow> escrow_call list list \<Rightarrow> u64 option \<times> manager_state \<Rightarrow> u64 option \<times> manager_state \<Rightarrow> bool" where
  "sends mc txs before after \<longleftrightarrow>
     ms_sent (snd after) = ms_sent (snd before) @ txs \<and>
     ms_subgraph_block (snd after) = ms_subgraph_block (snd before) \<and>
     (\<forall>bs. fst before = greatest bs \<longrightarrow> fst after = greatest (bs @ landed mc txs))"

lemma landed_append: "landed mc (txs @ txs') = landed mc txs @ landed mc txs'"
  by (simp add: landed_def List.map_filter_def)

lemma sends_none: "sends mc [] s s"
  by (simp add: sends_def landed_def List.map_filter_simps)

lemma sends_trans: "sends mc txs a b \<Longrightarrow> sends mc txs' b c \<Longrightarrow> sends mc (txs @ txs') a c"
  by (simp add: sends_def landed_append)

lemma greatest_snoc: "greatest (bs @ [b]) = Some (case greatest bs of None \<Rightarrow> b | Some c \<Rightarrow> max c b)"
  by (simp add: greatest_def max.commute)

lemma sends_one:
  assumes "ms_sent s' = ms_sent s @ [tx]" and "ms_subgraph_block s' = ms_subgraph_block s"
    and "b' = max_block b (rbind (mc tx) (\<lambda>n. ok_or n e))"
  shows "sends mc [tx] (b, s) (b', s')"
proof -
  have "max_block (greatest bs) (rbind (mc tx) (\<lambda>n. ok_or n e)) = greatest (bs @ landed mc [tx])" for bs
  proof (cases "mc tx")
    case (Inl err)
    then show ?thesis by (simp add: landed_def List.map_filter_simps max_block_def)
  next
    case (Inr n)
    then show ?thesis
      by (cases n) (simp_all add: landed_def List.map_filter_simps max_block_def greatest_snoc)
  qed
  with assms show ?thesis by (simp add: sends_def)
qed

text \<open>An empty batch, and every batch of a dry run, is no transaction.\<close>

definition batch :: "bool \<Rightarrow> escrow_call list \<Rightarrow> escrow_call list list" where
  "batch dry_run calls = (if calls = [] \<or> dry_run then [] else [calls])"

lemma send_thaws_sends:
  "sends mc (batch (ec_dry_run config) (thaw_calls ct thaws)) s (send_thaws config ct mc thaws s)"
proof (cases s)
  case (Pair b st)
  then show ?thesis
    by (auto simp: send_thaws_def batch_def thaw_calls_def sends_none Let_def thaw_many_def
        intro!: sends_one)
qed

lemma send_withdrawals_sends:
  "sends mc (batch (ec_dry_run config) (withdraw_calls ct ws)) s (send_withdrawals config ct mc ws s)"
proof (cases s)
  case (Pair b st)
  then show ?thesis
    by (auto simp: send_withdrawals_def batch_def withdraw_calls_def sends_none Let_def withdraw_many_def
        intro!: sends_one)
qed

lemma send_deposits_capped:
  "send_deposits config ct mc ds s = None \<longleftrightarrow> capped ds = None"
  by (cases s) (auto simp: send_deposits_def capped_def)

lemma capped_empty:
  assumes "capped ds = Some paid"
  shows "paid = [] \<longleftrightarrow> ds = []"
proof (cases "ds = [] \<or> btree_sum ds \<le> MAX_ADJUSTMENT")
  case False
  with assms have "map fst paid = sorted_list_of_set (set (map fst ds))"
    by (simp add: capped_def reduce_adjustments_keys)
  moreover have "sorted_list_of_set (set (map fst ds)) \<noteq> []"
    using False by (simp add: sorted_list_of_set_eq_Nil_iff)
  ultimately have "paid \<noteq> []" by (metis list.map_disc_iff)
  with False show ?thesis by simp
qed (use assms in \<open>auto simp: capped_def\<close>)

lemma send_deposits_sends:
  assumes "send_deposits config ct mc ds s = Some s'"
  shows "\<exists>paid. capped ds = Some paid \<and>
    sends mc (batch (ec_dry_run config) (deposit_calls ct paid)) s s'"
proof -
  obtain b st where s: "s = (b, st)" by (cases s)
  from assms obtain paid where paid: "capped ds = Some paid"
    using send_deposits_capped [of config ct mc ds s] by (metis not_None_eq)
  have "s' = (if ds = [] \<or> ec_dry_run config then s else
      (max_block b (deposit_many mc ct paid), st\<lparr>ms_metrics := (ms_metrics st)
         \<lparr>em_deposit := count_result (deposit_many mc ct paid) (em_deposit (ms_metrics st))\<rparr>,
         ms_sent := ms_sent st @ [deposit_calls ct paid]\<rparr>))"
    using assms paid by (auto simp: s send_deposits_def capped_def Let_def split: if_splits)
  moreover have "deposit_calls ct paid = [] \<longleftrightarrow> ds = []"
    using capped_empty [OF paid] by (simp add: deposit_calls_def)
  ultimately have "sends mc (batch (ec_dry_run config) (deposit_calls ct paid)) s s'"
    by (auto simp: s batch_def sends_none deposit_many_def intro!: sends_one)
  with paid show ?thesis by blast
qed

section \<open>The turn\<close>

lemma deposits_sorted:
  assumes "sorted rs" and "distinct rs"
  shows "sorted (map fst (deposits_for act rs))" and "distinct (map fst (deposits_for act rs))"
  using assms sorted_filter [of "\<lambda>x. x" rs] by (simp_all add: plan_receivers)

lemma plan_loop_None:
  "plan_loop F config accounts debts reclaim rs pm = None \<longleftrightarrow> (\<exists>r\<in>set rs. target_of config debts r = None)"
proof -
  obtain p m where pm: "pm = (p, m)" by (cases pm)
  show ?thesis
  proof (cases "plan_loop F config accounts debts reclaim rs pm")
    case None
    with plan_loop_total [of rs config debts F accounts reclaim pm]
    have "\<not> (\<forall>r\<in>set rs. target_of config debts r \<noteq> None)" by (metis option.distinct(1) None)
    then have "\<exists>r\<in>set rs. target_of config debts r = None" by metis
    with None show ?thesis by simp
  next
    case (Some pm')
    moreover obtain p' m' where "pm' = (p', m')" by (cases pm')
    ultimately show ?thesis using plan_loop_result [of F config accounts debts reclaim rs p m p' m'] pm by auto
  qed
qed

text \<open>A turn whose queries succeed ends if every receiver has a target and the deposits can be
  capped.\<close>

lemma escrow_cycle_None:
  assumes "ce_allocations env (ms_subgraph_block st) = Inr allocations"
    and "ce_accounts env (ms_subgraph_block st) = Inr accounts"
  defines "rs \<equiv> receivers_of allocations accounts" and "debts \<equiv> debts_seen env allocations accounts"
  shows "escrow_cycle F config ct env st = None \<longleftrightarrow>
    (\<exists>r\<in>set rs. target_of config debts r = None) \<or>
    capped (deposits_for (decided config env allocations accounts) rs) = None"
proof -
  let ?reclaim = "reclaim_of config debts (ce_latest_block_timestamp env)"
  let ?m = "set_debts F accounts debts (set_totals rs accounts (ms_metrics st))"
  show ?thesis
  proof (cases "plan_loop F config accounts debts ?reclaim rs (plan_empty, ?m)")
    case None
    then have "\<exists>r\<in>set rs. target_of config debts r = None" by (simp only: plan_loop_None)
    with None assms show ?thesis by (simp add: escrow_cycle_defs Let_def debts_seen_def)
  next
    case (Some pm)
    moreover obtain p m where pm: "pm = (p, m)" by (cases pm)
    ultimately have run: "plan_loop F config accounts debts ?reclaim rs (plan_empty, ?m) = Some (p, m)" by simp
    note res = plan_loop_result [OF run]
    then have "pl_adjustments p = deposits_for (decided config env allocations accounts) rs"
      by (simp add: plan_empty_def decided_def debts_def Let_def)
    with res run assms(1,2) show ?thesis
      by (auto simp: escrow_cycle_defs Let_def rs_def debts_def debts_seen_def send_deposits_capped)
  qed
qed

text \<open>The transactions of a turn, in the order they are sent.\<close>

definition transactions ::
    "escrow_config \<Rightarrow> contracts \<Rightarrow> (address \<Rightarrow> action) \<Rightarrow> address list \<Rightarrow> (address \<times> u128) list
       \<Rightarrow> escrow_call list list" where
  "transactions config ct act rs paid =
     batch (ec_dry_run config) (thaw_calls ct (thaws_for act rs)) @
     batch (ec_dry_run config) (deposit_calls ct paid) @
     batch (ec_dry_run config) (withdraw_calls ct (withdrawals_for act rs))"

lemma escrow_cycle_transactions:
  assumes "ce_allocations env (ms_subgraph_block st) = Inr allocations"
    and "ce_accounts env (ms_subgraph_block st) = Inr accounts"
    and turn: "escrow_cycle F config ct env st = Some st'"
  defines "rs \<equiv> receivers_of allocations accounts" and "act \<equiv> decided config env allocations accounts"
  shows "\<exists>paid txs. capped (deposits_for act rs) = Some paid \<and> txs = transactions config ct act rs paid \<and>
    ms_sent st' = ms_sent st @ txs \<and>
    ms_subgraph_block st' = (case greatest (landed (ce_multicall env) txs) of
       None \<Rightarrow> ms_subgraph_block st | Some b \<Rightarrow> Some b)"
proof -
  let ?debts = "debts_seen env allocations accounts" and ?mc = "ce_multicall env"
  let ?reclaim = "reclaim_of config ?debts (ce_latest_block_timestamp env)"
  let ?m = "set_debts F accounts ?debts (set_totals rs accounts (ms_metrics st))"
  obtain p m where run: "plan_loop F config accounts ?debts ?reclaim rs (plan_empty, ?m) = Some (p, m)"
    using turn assms(1,2)
    by (cases "plan_loop F config accounts ?debts ?reclaim rs (plan_empty, ?m)")
       (auto simp: escrow_cycle_defs Let_def rs_def debts_seen_def)
  note res = plan_loop_result [OF run]
  then have p: "pl_adjustments p = deposits_for act rs" "pl_thaws p = thaws_for act rs"
    "pl_withdrawals p = withdrawals_for act rs"
    by (simp_all add: plan_empty_def act_def decided_def Let_def)
  let ?start = "(None :: u64 option, st\<lparr>ms_metrics := set_plan_totals p m\<rparr>)"
  let ?thawed = "send_thaws config ct ?mc (pl_thaws p) ?start"
  obtain deposited where dep: "send_deposits config ct ?mc (pl_adjustments p) ?thawed = Some deposited"
    using turn assms(1,2) run
    by (cases "send_deposits config ct ?mc (pl_adjustments p) ?thawed")
       (auto simp: escrow_cycle_defs Let_def rs_def debts_seen_def)
  obtain b s where last: "send_withdrawals config ct ?mc (pl_withdrawals p) deposited = (b, s)"
    by (cases "send_withdrawals config ct ?mc (pl_withdrawals p) deposited")
  have st': "st' = (case b of Some t \<Rightarrow> s\<lparr>ms_subgraph_block := Some t\<rparr> | None \<Rightarrow> s)"
    using turn assms(1,2) run dep last by (auto simp: escrow_cycle_defs Let_def rs_def debts_seen_def)
  from send_deposits_sends [OF dep] obtain paid where paid: "capped (deposits_for act rs) = Some paid"
    and mid: "sends ?mc (batch (ec_dry_run config) (deposit_calls ct paid)) ?thawed deposited"
    by (auto simp: p)
  have all: "sends ?mc (transactions config ct act rs paid) ?start (b, s)"
    unfolding transactions_def last [symmetric] p(2,3) [symmetric]
    by (rule sends_trans [OF send_thaws_sends sends_trans [OF mid send_withdrawals_sends]])
  have "greatest [] = None" by (simp add: greatest_def)
  with all have "ms_sent s = ms_sent st @ transactions config ct act rs paid"
    and "ms_subgraph_block s = ms_subgraph_block st"
    and "b = greatest (landed ?mc (transactions config ct act rs paid))"
    by (auto simp: sends_def dest: spec [of _ "[]"])
  with paid st' show ?thesis by (auto split: option.split)
qed

text \<open>Any number of turns.\<close>

fun escrow_turns ::
    "alloy_fmt \<Rightarrow> escrow_config \<Rightarrow> contracts \<Rightarrow> cycle_env list \<Rightarrow> manager_state \<Rightarrow> manager_state option" where
  "escrow_turns F config ct [] st = Some st"
| "escrow_turns F config ct (env # envs) st =
     Option.bind (escrow_cycle F config ct env st) (escrow_turns F config ct envs)"

lemma escrow_cycle_dry_run:
  assumes "ec_dry_run config" and "escrow_cycle F config ct env st = Some st'"
  shows "ms_sent st' = ms_sent st \<and> ms_subgraph_block st' = ms_subgraph_block st"
proof (cases "ce_allocations env (ms_subgraph_block st)")
  case (Inl e)
  with assms(2) show ?thesis by (simp add: escrow_cycle_defs)
next
  case alloc: (Inr allocations)
  show ?thesis
  proof (cases "ce_accounts env (ms_subgraph_block st)")
    case (Inl e)
    with alloc assms(2) show ?thesis by (simp add: escrow_cycle_defs)
  next
    case (Inr accounts)
    from escrow_cycle_transactions [OF alloc Inr assms(2)] show ?thesis
      using assms(1) by (auto simp: transactions_def batch_def landed_def List.map_filter_simps greatest_def)
  qed
qed

section \<open>The deposits of a turn can be capped\<close>

lemma btree_from_iter_lookup:
  assumes "k \<in> fst ` set xs"
  shows "map_of (btree_from_iter xs) k = map_of (rev xs) k"
proof -
  from assms obtain v where "map_of (rev xs) k = Some v"
    by (metis map_of_eq_None_iff not_Some_eq set_rev)
  with assms show ?thesis by (simp add: btree_from_iter_def map_of_map_restrict)
qed

lemma btree_from_iter_value:
  assumes "distinct (map fst xs)" and "k \<in> fst ` set xs"
  shows "table_value (btree_from_iter xs) k = table_value xs k"
proof -
  from assms(2) obtain v where "(k, v) \<in> set xs" by auto
  with assms(1) have "map_of (rev xs) k = map_of xs k" by (simp add: map_of_is_SomeI rev_map [symmetric])
  with assms(2) show ?thesis by (simp add: table_value_def btree_from_iter_lookup)
qed

lemma btree_from_iter_table:
  assumes "distinct (map fst xs)"
  shows "table_total (btree_from_iter xs) = table_total xs"
proof -
  have keys: "fst ` set (btree_from_iter xs) = fst ` set xs"
    using arg_cong [OF btree_from_iter_keys [of xs], of set] by simp
  show ?thesis using btree_from_iter_value [OF assms]
    unfolding table_total_sum [OF btree_from_iter_distinct] table_total_sum [OF assms] keys
    by (intro sum.cong refl)
qed

lemma deposits_total:
  assumes "\<And>r. r \<in> set rs \<Longrightarrow> \<exists>n :: u32. target_of config debts r = Some (ucast n * GRT)"
    and act: "act = action_for config accounts debts reclaim"
  shows "table_total (deposits_for act rs) \<le> length rs * (4294967296 * 1000000000000000000)"
  using assms(1)
proof (induction rs)
  case Nil
  then show ?case by (simp add: deposits_for_def List.map_filter_simps table_total_def)
next
  case (Cons r rs)
  then have IH: "table_total (deposits_for act rs) \<le> length rs * (4294967296 * 1000000000000000000)" by simp
  obtain n :: u32 where n: "target_of config debts r = Some (ucast n * GRT)" using Cons.prems by auto
  have "unat (ucast n * GRT) = nat (uint n * wei)" by (simp flip: uint_whole_grt)
  moreover have "uint n < 4294967296" using uint_bounded [of n] by simp
  ultimately have t: "unat (ucast n * GRT) \<le> 4294967296 * 1000000000000000000" by (simp add: wei_def)
  have "unat x \<le> unat (ucast n * GRT)" if "act r = Deposit x" for x
    using that n by (simp add: act action_for_def decide_Deposit_iff)
  with t IH show ?case
    by (force simp: deposits_for_def List.map_filter_simps table_total_def split: action.split)
qed

lemma deposits_few:
  assumes "\<And>r. r \<in> set rs \<Longrightarrow> \<exists>n :: u32. target_of config debts r = Some (ucast n * GRT)"
    and "act = action_for config accounts debts reclaim"
    and rs: "distinct rs" "length rs < 5000"
  shows "card (fst ` set (deposits_for act rs)) < 5000"
    and "table_total (deposits_for act rs) < 2 ^ 128"
    and "distinct (map fst (deposits_for act rs))"
proof -
  let ?ds = "deposits_for act rs"
  show "distinct (map fst ?ds)" using rs(1) by (simp add: plan_receivers)
  have "fst ` set ?ds \<subseteq> set rs" using plan_receivers(1) [of act rs] by (metis filter_is_subset set_map)
  then have "card (fst ` set ?ds) \<le> card (set rs)" by (intro card_mono) simp_all
  with rs show "card (fst ` set ?ds) < 5000" by (simp add: distinct_card)
  have "length rs * (4294967296 * 1000000000000000000) \<le> 5000 * (4294967296 * 1000000000000000000)"
    using rs(2) by (intro mult_right_mono) simp_all
  moreover have "table_total ?ds \<le> length rs * (4294967296 * 1000000000000000000)"
    by (rule deposits_total [OF assms(1,2)])
  ultimately have "table_total ?ds \<le> 5000 * (4294967296 * 1000000000000000000)" by linarith
  then show "table_total ?ds < 2 ^ 128" by simp
qed

lemma deposits_capped:
  assumes "\<And>r. r \<in> set rs \<Longrightarrow> \<exists>n :: u32. target_of config debts r = Some (ucast n * GRT)"
    and "act = action_for config accounts debts reclaim"
    and rs: "distinct rs" "length rs < 5000"
  shows "\<exists>paid. capped (deposits_for act rs) = Some paid \<and> table_total paid < 10100000000000000000000"
proof -
  let ?ds = "deposits_for act rs"
  note few = deposits_few [OF assms]
  show ?thesis
  proof (cases "10000000000000000000000 < table_total ?ds")
    case True
    then have "?ds \<noteq> []" by (auto simp: table_total_def)
    moreover have "\<not> btree_sum ?ds \<le> MAX_ADJUSTMENT"
      using True few(2) by (simp add: word_le_nat_alt unat_btree_sum max_adjustment_nat)
    ultimately show ?thesis
      using reduce_adjustments_result [of ?ds] True few
      by (auto simp: capped_def btree_from_iter_table)
  next
    case False
    with few(2) have "btree_sum ?ds \<le> MAX_ADJUSTMENT"
      by (simp add: word_le_nat_alt unat_btree_sum max_adjustment_nat)
    with False show ?thesis by (simp add: capped_def)
  qed
qed

end
