(* ===== verification/EscrowChain.thy ===== *)
theory EscrowChain
  imports EscrowTurn
begin

text \<open>
  Turn after turn: the escrow manager's transactions change the accounts that its next turn reads.
  A \<open>funding_run\<close> is an endless sequence of turns in which every deposit that is sent has reached
  the account by the next turn and the debts stand still; the lemmas show how far the accounts are
  from their targets after each turn. The transactions take effect in the escrow contract, which
  is not part of the repository: \<open>credited\<close> states what a run relies on.
\<close>

section \<open>What a run of turns relies on\<close>

text \<open>The deposits to a receiver in a list of transactions.\<close>

definition deposited :: "escrow_call list list \<Rightarrow> address \<Rightarrow> nat" where
  "deposited txs receiver =
     sum_list (map (\<lambda>call. case call of DepositCall c r amount \<Rightarrow> if r = receiver then unat amount else 0 | _ \<Rightarrow> 0)
       (concat txs))"

text \<open>The escrow contract adds the deposits to the balances and leaves what is thawing.\<close>

definition credited ::
    "escrow_call list list \<Rightarrow> (address \<times> escrow_account) list \<Rightarrow> (address \<times> escrow_account) list \<Rightarrow> bool" where
  "credited txs before after \<longleftrightarrow>
     (\<forall>r. unat (balance (account_of after r)) = unat (balance (account_of before r)) + deposited txs r \<and>
          thawing (account_of after r) = thawing (account_of before r))"

record funding_run =
  run_env :: "nat \<Rightarrow> cycle_env"
  run_state :: "nat \<Rightarrow> manager_state"
  run_accounts :: "nat \<Rightarrow> (address \<times> escrow_account) list"

definition is_funding_run ::
    "alloy_fmt \<Rightarrow> escrow_config \<Rightarrow> contracts \<Rightarrow> allocation list \<Rightarrow> (address \<times> u128) list \<Rightarrow> address list
       \<Rightarrow> funding_run \<Rightarrow> bool" where
  "is_funding_run F config ct allocations debts rs run \<longleftrightarrow>
     (\<forall>i. ce_allocations (run_env run i) (ms_subgraph_block (run_state run i)) = Inr allocations \<and>
        ce_accounts (run_env run i) (ms_subgraph_block (run_state run i)) = Inr (run_accounts run i) \<and>
        receivers_of allocations (run_accounts run i) = rs \<and>
        debts_seen (run_env run i) allocations (run_accounts run i) = debts \<and>
        escrow_cycle F config ct (run_env run i) (run_state run i) = Some (run_state run (Suc i)) \<and>
        credited (drop (length (ms_sent (run_state run i))) (ms_sent (run_state run (Suc i))))
          (run_accounts run i) (run_accounts run (Suc i)))"

section \<open>The distance to the targets\<close>

definition shortfall ::
    "escrow_config \<Rightarrow> (address \<times> u128) list \<Rightarrow> (address \<times> escrow_account) list \<Rightarrow> address \<Rightarrow> nat" where
  "shortfall config debts accounts r =
     unat (the (target_of config debts r)) - effective (account_of accounts r)"

lemma deposited_calls:
  "distinct (map fst paid) \<Longrightarrow> deposited [deposit_calls ct paid] r = table_value paid r"
proof (induction paid)
  case Nil
  then show ?case by (simp add: deposited_def deposit_calls_def table_value_def)
next
  case (Cons p paid)
  obtain q x where p: "p = (q, x)" by (cases p)
  from Cons have IH: "deposited [deposit_calls ct paid] r = table_value paid r" and "q \<notin> fst ` set paid"
    by (simp_all add: p)
  then have "table_value paid q = 0" by (simp add: table_value_def map_of_eq_None_iff [THEN iffD2])
  moreover have "uint (ucast x :: 256 word) = uint x" by (rule uint_up_ucast) (simp add: is_up)
  then have "unat (ucast x :: 256 word) = unat x" by (simp only: unat_eq_nat_uint)
  ultimately show ?case using IH
    by (auto simp: p deposited_def deposit_calls_def table_value_def)
qed

text \<open>With nothing to reclaim, the decided deposits are the shortfalls.\<close>

lemma deposits_shortfall:
  assumes act: "act = action_for config accounts debts None" and "distinct rs"
  shows "table_value (deposits_for act rs) r = (if r \<in> set rs then shortfall config debts accounts r else 0)"
    and "thaws_for act rs = []" and "withdrawals_for act rs = []"
proof -
  have none: "act r \<noteq> Thaw x" "act r \<noteq> Withdraw" for r x
    by (simp_all add: act action_for_def decide_None)
  then have "p \<notin> set (thaws_for act rs)" for p by (cases p) (simp add: thaws_for_set)
  then show "thaws_for act rs = []" by (metis list.set_intros(1) neq_Nil_conv)
  show "withdrawals_for act rs = []" using none by (simp add: withdrawals_for_def)
  have dist: "distinct (map fst (deposits_for act rs))" using assms(2) by (simp add: plan_receivers)
  show "table_value (deposits_for act rs) r = (if r \<in> set rs then shortfall config debts accounts r else 0)"
  proof (cases "act r")
    case (Deposit x)
    then have x: "unat x = shortfall config debts accounts r"
      by (simp add: act action_for_def decide_Deposit_iff shortfall_def)
    show ?thesis
    proof (cases "r \<in> set rs")
      case True
      with Deposit have "(r, x) \<in> set (deposits_for act rs)" by (simp add: deposits_for_set)
      with dist True x show ?thesis by (simp add: table_value_def)
    next
      case False
      then have "r \<notin> fst ` set (deposits_for act rs)" by (auto simp: deposits_for_set)
      with False show ?thesis by (simp add: table_value_def map_of_eq_None_iff [THEN iffD2])
    qed
  next
    case NoAction
    then have "r \<notin> fst ` set (deposits_for act rs)" by (auto simp: deposits_for_set)
    moreover have "shortfall config debts accounts r = 0"
      using NoAction decide_NoAction_covers [of "account_of accounts r"]
      by (simp add: act action_for_def shortfall_def)
    ultimately show ?thesis by (simp add: table_value_def map_of_eq_None_iff [THEN iffD2])
  qed (use none in simp_all)
qed

text \<open>A payment covers its receiver's shortfall or is at least the smallest deposit, and it is not
  more than the greater of the two.\<close>

lemma capped_pays:
  assumes targets: "\<And>r. r \<in> set rs \<Longrightarrow> \<exists>n :: u32. target_of config debts r = Some (ucast n * GRT)"
    and act: "act = action_for config accounts debts reclaim" and rs: "distinct rs" "length rs < 5000"
    and "capped (deposits_for act rs) = Some paid" and "r \<in> fst ` set (deposits_for act rs)"
  shows "table_value paid r = table_value (deposits_for act rs) r \<or> 2000000000000000000 \<le> table_value paid r"
    and "table_value paid r \<le> max 2000000000000000000 (table_value (deposits_for act rs) r)"
proof -
  let ?ds = "deposits_for act rs"
  note small = deposits_few [OF targets act rs]
  have "table_value paid r = table_value ?ds r \<or>
      2000000000000000000 \<le> table_value paid r \<and> table_value paid r \<le> max 2000000000000000000 (table_value ?ds r)"
  proof (cases "?ds = [] \<or> btree_sum ?ds \<le> MAX_ADJUSTMENT")
    case True
    with assms(5) show ?thesis by (auto simp: capped_def)
  next
    case False
    have "10000000000000000000000 < table_total ?ds"
      using False small(2) by (simp add: word_le_nat_alt unat_btree_sum max_adjustment_nat)
    then obtain res where res: "reduce_adjustments ?ds = Some res" "scaled (btree_from_iter ?ds) res"
      using reduce_adjustments_result [of ?ds] small
      by (auto simp: btree_from_iter_table [OF small(3)])
    have "r \<in> fst ` set (btree_from_iter ?ds)"
      using assms(6) arg_cong [OF btree_from_iter_keys [of ?ds], of set] by simp
    then have "unat MIN_DEPOSIT \<le> table_value res r \<and>
        table_value res r \<le> max (unat MIN_DEPOSIT) (table_value (btree_from_iter ?ds) r)"
      using res(2) unfolding scaled_def by blast
    moreover have "unat MIN_DEPOSIT = 2000000000000000000" by (simp add: MIN_DEPOSIT_def GRT_def)
    moreover have "paid = res" using res(1) False assms(5) by (simp add: capped_def)
    ultimately show ?thesis by (simp only: btree_from_iter_value [OF small(3) assms(6)] simp_thms)
  qed
  then show "table_value paid r = table_value ?ds r \<or> 2000000000000000000 \<le> table_value paid r"
    and "table_value paid r \<le> max 2000000000000000000 (table_value ?ds r)" by auto
qed

section \<open>A turn of a run\<close>

text \<open>What the lemmas on a run assume of it: the debts have targets, the scaling of deposits ends, the
  deposits are really sent, nothing is to be reclaimed, and no account has more thawing than it holds.\<close>

definition funding ::
    "alloy_fmt \<Rightarrow> escrow_config \<Rightarrow> contracts \<Rightarrow> allocation list \<Rightarrow> (address \<times> u128) list \<Rightarrow> address list
       \<Rightarrow> funding_run \<Rightarrow> bool" where
  "funding F config ct allocations debts rs run \<longleftrightarrow>
     is_funding_run F config ct allocations debts rs run \<and>
     (\<forall>r\<in>set rs. \<exists>n :: u32. target_of config debts r = Some (ucast n * GRT)) \<and> length rs < 5000 \<and>
     \<not> ec_dry_run config \<and> \<not> (ec_withdraw_enabled config \<and> debt_ready debts) \<and>
     (\<forall>r. thawing (account_of (run_accounts run 0) r) \<le> balance (account_of (run_accounts run 0) r))"

abbreviation run_short ::
    "escrow_config \<Rightarrow> (address \<times> u128) list \<Rightarrow> funding_run \<Rightarrow> nat \<Rightarrow> address \<Rightarrow> nat" where
  "run_short config debts run i \<equiv> shortfall config debts (run_accounts run i)"

abbreviation run_action ::
    "escrow_config \<Rightarrow> (address \<times> u128) list \<Rightarrow> funding_run \<Rightarrow> nat \<Rightarrow> address \<Rightarrow> action" where
  "run_action config debts run i \<equiv> action_for config (run_accounts run i) debts None"

lemma fundingD:
  assumes "funding F config ct allocations debts rs run"
  shows "is_funding_run F config ct allocations debts rs run"
    and "\<And>r. r \<in> set rs \<Longrightarrow> \<exists>n :: u32. target_of config debts r = Some (ucast n * GRT)"
    and "length rs < 5000" and "\<not> ec_dry_run config"
    and "\<not> (ec_withdraw_enabled config \<and> debt_ready debts)"
    and "\<And>r. thawing (account_of (run_accounts run 0) r) \<le> balance (account_of (run_accounts run 0) r)"
    and "distinct rs" and "sorted rs"
  using assms by (auto simp: funding_def is_funding_run_def receivers_of_def)

lemma turn_pays:
  assumes fund: "funding F config ct allocations debts rs run"
  shows "\<exists>paid. capped (deposits_for (run_action config debts run i) rs) = Some paid \<and>
     ms_sent (run_state run (Suc i)) = ms_sent (run_state run i) @ (if paid = [] then [] else [deposit_calls ct paid]) \<and>
     credited (if paid = [] then [] else [deposit_calls ct paid]) (run_accounts run i) (run_accounts run (Suc i))"
proof -
  have reclaim: "reclaim_of config debts t = None" for t
    using fundingD(5) [OF fund] by (auto simp: reclaim_of_def)
  from fundingD(1) [OF fund] have turn: "ce_allocations (run_env run i) (ms_subgraph_block (run_state run i)) = Inr allocations"
      "ce_accounts (run_env run i) (ms_subgraph_block (run_state run i)) = Inr (run_accounts run i)"
      "escrow_cycle F config ct (run_env run i) (run_state run i) = Some (run_state run (Suc i))"
    and rs: "receivers_of allocations (run_accounts run i) = rs"
    and debts: "debts_seen (run_env run i) allocations (run_accounts run i) = debts"
    and cred: "credited (drop (length (ms_sent (run_state run i))) (ms_sent (run_state run (Suc i))))
      (run_accounts run i) (run_accounts run (Suc i))"
    by (auto simp: is_funding_run_def)
  have act: "decided config (run_env run i) allocations (run_accounts run i) = run_action config debts run i"
    by (simp add: decided_def debts reclaim Let_def)
  from escrow_cycle_transactions [OF turn, unfolded rs act] obtain paid where
    paid: "capped (deposits_for (run_action config debts run i) rs) = Some paid"
    and sent: "ms_sent (run_state run (Suc i)) = ms_sent (run_state run i) @ transactions config ct (run_action config debts run i) rs paid"
    by blast
  have "transactions config ct (run_action config debts run i) rs paid = (if paid = [] then [] else [deposit_calls ct paid])"
    using fundingD(4) [OF fund]
    by (simp add: transactions_def batch_def deposits_shortfall(2,3) [OF refl fundingD(7) [OF fund]]
        thaw_calls_def withdraw_calls_def deposit_calls_def)
  with paid sent cred show ?thesis by auto
qed

lemma paid_distinct:
  assumes fund: "funding F config ct allocations debts rs run"
    and "capped (deposits_for (run_action config debts run i) rs) = Some paid"
  shows "distinct (map fst paid)"
  using capped_keys [OF assms(2) deposits_sorted [OF fundingD(8,7) [OF fund]]]
    deposits_sorted(2) [OF fundingD(8,7) [OF fund]] by simp

text \<open>A turn adds its payments to the balances, so each shortfall falls by them.\<close>

lemma turn_step:
  assumes fund: "funding F config ct allocations debts rs run"
    and low: "\<And>r. thawing (account_of (run_accounts run i) r) \<le> balance (account_of (run_accounts run i) r)"
    and paid: "capped (deposits_for (run_action config debts run i) rs) = Some paid"
  shows "run_short config debts run (Suc i) r = run_short config debts run i r - table_value paid r"
    and "thawing (account_of (run_accounts run (Suc i)) r) \<le> balance (account_of (run_accounts run (Suc i)) r)"
proof -
  have "deposited (if paid = [] then [] else [deposit_calls ct paid]) r = table_value paid r"
    using deposited_calls [OF paid_distinct [OF fund paid], of ct r]
    by (simp add: deposited_def table_value_def)
  with turn_pays [OF fund, of i] paid have
    b: "unat (balance (account_of (run_accounts run (Suc i)) r)) =
       unat (balance (account_of (run_accounts run i) r)) + table_value paid r"
    "thawing (account_of (run_accounts run (Suc i)) r) = thawing (account_of (run_accounts run i) r)"
    by (auto simp: credited_def)
  with low [of r] show "run_short config debts run (Suc i) r = run_short config debts run i r - table_value paid r"
    and "thawing (account_of (run_accounts run (Suc i)) r) \<le> balance (account_of (run_accounts run (Suc i)) r)"
    by (simp_all add: shortfall_def effective_def word_le_nat_alt)
qed

lemma thawing_low:
  assumes fund: "funding F config ct allocations debts rs run"
  shows "thawing (account_of (run_accounts run i) r) \<le> balance (account_of (run_accounts run i) r)"
proof (induction i arbitrary: r)
  case 0
  show ?case by (rule fundingD(6) [OF fund])
next
  case (Suc i)
  from turn_pays [OF fund, of i] obtain paid where "capped (deposits_for (run_action config debts run i) rs) = Some paid" by blast
  from turn_step(2) [OF fund Suc this] show ?case .
qed

text \<open>In each turn a receiver gets all that it lacks, or at least two GRT.\<close>

lemma turn_progress:
  assumes fund: "funding F config ct allocations debts rs run" and r: "r \<in> set rs"
  shows "run_short config debts run (Suc i) r \<le> run_short config debts run i r - 2000000000000000000"
proof -
  from turn_pays [OF fund, of i] obtain paid where paid: "capped (deposits_for (run_action config debts run i) rs) = Some paid" by blast
  have "run_short config debts run i r - table_value paid r \<le> run_short config debts run i r - 2000000000000000000"
  proof (cases "r \<in> fst ` set (deposits_for (run_action config debts run i) rs)")
    case True
    from capped_pays(1) [OF fundingD(2) [OF fund] refl fundingD(7,3) [OF fund] paid True] show ?thesis
      using deposits_shortfall(1) [OF refl fundingD(7) [OF fund]] r by (auto simp: diff_le_mono2)
  next
    case False
    then have "table_value (deposits_for (run_action config debts run i) rs) r = 0"
      by (simp add: table_value_def map_of_eq_None_iff [THEN iffD2])
    then have "run_short config debts run i r = 0" using deposits_shortfall(1) [OF refl fundingD(7) [OF fund]] r by simp
    then show ?thesis by simp
  qed
  then show ?thesis by (simp add: turn_step(1) [OF fund thawing_low [OF fund] paid])
qed

lemma funded_by:
  assumes fund: "funding F config ct allocations debts rs run" and r: "r \<in> set rs"
  shows "run_short config debts run i r \<le> run_short config debts run 0 r - i * 2000000000000000000"
proof (induction i)
  case (Suc i)
  from turn_progress [OF fund r, of i] Suc show ?case by (simp add: algebra_simps)
qed simp

lemma nothing_short:
  assumes "\<And>r. r \<in> set rs \<Longrightarrow> run_short config debts run i r = 0"
  shows "deposits_for (run_action config debts run i) rs = []"
proof (rule ccontr)
  assume "deposits_for (run_action config debts run i) rs \<noteq> []"
  then obtain r x where "(r, x) \<in> set (deposits_for (run_action config debts run i) rs)" by (metis list.set_intros(1) neq_Nil_conv surj_pair)
  then have r: "r \<in> set rs" and "run_action config debts run i r = Deposit x" by (simp_all add: deposits_for_set)
  then have "effective (account_of (run_accounts run i) r) < unat (the (target_of config debts r))"
    by (simp add: action_for_def decide_Deposit_iff)
  with assms [OF r] show False by (simp add: shortfall_def)
qed

lemma quiet_once_funded:
  assumes fund: "funding F config ct allocations debts rs run"
    and none: "\<And>r. r \<in> set rs \<Longrightarrow> run_short config debts run i r = 0"
  shows "ms_sent (run_state run (Suc i)) = ms_sent (run_state run i)"
    and "r \<in> set rs \<Longrightarrow> run_short config debts run (Suc i) r = 0"
proof -
  from turn_pays [OF fund, of i] nothing_short [of rs, OF none] show "ms_sent (run_state run (Suc i)) = ms_sent (run_state run i)"
    by (auto simp: capped_def)
  show "run_short config debts run (Suc i) r = 0" if "r \<in> set rs" using turn_progress [OF fund that, of i] none [OF that] by simp
qed

text \<open>Within the limit of a turn, one turn is enough.\<close>

lemma funded_at_once:
  assumes fund: "funding F config ct allocations debts rs run"
    and total: "(\<Sum>r\<in>set rs. run_short config debts run i r) \<le> 10000000000000000000000" and r: "r \<in> set rs"
  shows "run_short config debts run (Suc i) r = 0"
proof -
  let ?ds = "deposits_for (run_action config debts run i) rs"
  note few' = deposits_few [OF fundingD(2) [OF fund] refl fundingD(7,3) [OF fund]]
  have lacks: "table_value ?ds q = run_short config debts run i q" if "q \<in> set rs" for q
    using deposits_shortfall(1) [OF refl fundingD(7) [OF fund]] that by simp
  have keys: "fst ` set ?ds \<subseteq> set rs" by (auto simp: deposits_for_set)
  have "table_total ?ds = (\<Sum>q\<in>fst ` set ?ds. table_value ?ds q)"
    by (rule table_total_sum [OF few'(3)])
  also have "\<dots> = (\<Sum>q\<in>fst ` set ?ds. run_short config debts run i q)" using keys lacks by (intro sum.cong) auto
  also have "\<dots> \<le> (\<Sum>q\<in>set rs. run_short config debts run i q)" using keys by (intro sum_mono2) simp_all
  finally have "table_total ?ds \<le> 10000000000000000000000" using total by simp
  then have "btree_sum ?ds \<le> MAX_ADJUSTMENT"
    using few'(2) by (simp add: word_le_nat_alt unat_btree_sum max_adjustment_nat)
  then have "capped ?ds = Some ?ds" by (simp add: capped_def)
  from turn_step(1) [OF fund thawing_low [OF fund] this] lacks [OF r] show ?thesis by simp
qed

lemma quiet_after:
  assumes fund: "funding F config ct allocations debts rs run"
    and none: "\<And>r. r \<in> set rs \<Longrightarrow> run_short config debts run n r = 0" and le: "n \<le> i"
  shows "(\<forall>r\<in>set rs. run_short config debts run i r = 0) \<and> ms_sent (run_state run i) = ms_sent (run_state run n)"
  using le
proof (induction rule: dec_induct)
  case (step i)
  with quiet_once_funded [OF fund, of i] show ?case by auto
qed (use none in simp)

section \<open>The end of a run\<close>

lemma fundingI:
  assumes "is_funding_run F config ct allocations debts rs run"
    and "ec_balance_fill_factor config = Fin f" and "1 / 2 ^ 50 \<le> f" and "f \<le> 1"
    and "length rs < 5000"
    and "\<And>r. r \<in> set rs \<Longrightarrow> of_int (uint (claimed_debt config debts r)) \<le> f * of_int (2 ^ 31 * wei)"
    and "\<not> ec_dry_run config" and "\<not> (ec_withdraw_enabled config \<and> debt_ready debts)"
    and "\<And>r. thawing (account_of (run_accounts run 0) r) \<le> balance (account_of (run_accounts run 0) r)"
  shows "funding F config ct allocations debts rs run"
proof -
  have "\<exists>n :: u32. target_of config debts r = Some (ucast n * GRT)" if "r \<in> set rs" for r
    using next_balance_climbs [OF assms(3,4) assms(6) [OF that]] assms(2) by (auto simp: target_of_claimed)
  with assms show ?thesis by (simp add: funding_def)
qed

lemma funding_reached:
  assumes fund: "funding F config ct allocations debts rs run"
  shows "\<exists>n\<le>2147483648.
    (\<forall>m. (\<forall>r\<in>set rs. run_short config debts run 0 r \<le> m * 2000000000000000000) \<longrightarrow> n \<le> m) \<and>
    ((\<Sum>r\<in>set rs. run_short config debts run 0 r) \<le> 10000000000000000000000 \<longrightarrow> n \<le> 1) \<and>
    (\<forall>i\<ge>n. (\<forall>r\<in>set rs. unat (the (target_of config debts r)) \<le> effective (account_of (run_accounts run i) r)) \<and>
       ms_sent (run_state run i) = ms_sent (run_state run n))"
proof -
  let ?done = "\<lambda>i. \<forall>r\<in>set rs. run_short config debts run i r = 0"
  define n where "n = (LEAST i. ?done i)"
  have by_two: "?done m" if "\<forall>r\<in>set rs. run_short config debts run 0 r \<le> m * 2000000000000000000" for m
    using that funded_by [OF fund, of _ m] by force
  have latest: "run_short config debts run 0 r \<le> 2147483648 * 2000000000000000000" if r: "r \<in> set rs" for r
  proof -
    obtain k :: u32 where k: "target_of config debts r = Some (ucast k * GRT)"
      using fundingD(2) [OF fund r] by blast
    have "unat (ucast k * GRT) = nat (uint k * wei)" by (simp flip: uint_whole_grt)
    moreover have "uint k < 4294967296" using uint_bounded [of k] by simp
    ultimately show ?thesis using k by (simp add: shortfall_def wei_def)
  qed
  have "?done 2147483648" by (rule by_two) (use latest in blast)
  then have n: "?done n" and "n \<le> 2147483648" unfolding n_def by (rule LeastI, intro Least_le)
  moreover have "n \<le> m" if "\<forall>r\<in>set rs. run_short config debts run 0 r \<le> m * 2000000000000000000" for m
    unfolding n_def by (rule Least_le) (rule by_two [OF that])
  moreover have "n \<le> 1" if "(\<Sum>r\<in>set rs. run_short config debts run 0 r) \<le> 10000000000000000000000"
    unfolding n_def using funded_at_once [OF fund that] by (intro Least_le) simp
  moreover have "(\<forall>r\<in>set rs. unat (the (target_of config debts r)) \<le> effective (account_of (run_accounts run i) r)) \<and>
      ms_sent (run_state run i) = ms_sent (run_state run n)" if "n \<le> i" for i
    using quiet_after [OF fund _ that] n by (auto simp: shortfall_def)
  ultimately show ?thesis by blast
qed

section \<open>The debt behind a target\<close>

text \<open>A target is worth more than the debt it was found for.\<close>

lemma target_above_debt:
  assumes "ec_balance_fill_factor config = Fin f" and f: "1 / 2 ^ 50 \<le> f" "f \<le> 1" "representable f"
    and low: "of_int (uint (claimed_debt config debts r)) \<le> f * of_int (2 ^ 31 * wei)"
  shows "unat (claimed_debt config debts r) < unat (the (target_of config debts r))"
proof -
  let ?debt = "claimed_debt config debts r"
  obtain n where n: "next_balance ?debt (Fin f) = Some (ucast n * GRT)"
    "climbs f (round_rat (of_int (uint ?debt))) 2 n"
    using next_balance_climbs [OF f(1,2) low] by blast
  have "0 < f" using f(1) by (rule less_le_trans [rotated]) simp
  then have "uint ?debt < uint n * wei"
    using climbs_covers [OF n(2)] climbs_covers_full [of ?debt 2 n] n(2) f(2,3) representable_below_one
    by (cases "f = 1") auto
  then have "?debt < ucast n * GRT" by (simp only: word_less_def uint_whole_grt)
  with n(1) assms(1) show ?thesis by (simp add: target_of_claimed word_less_nat_alt)
qed

text \<open>The RAV values of a receiver's allocations.\<close>

definition rav_values :: "(address \<rightharpoonup> u128) \<Rightarrow> allocation list \<Rightarrow> address \<Rightarrow> u128 list" where
  "rav_values ravs allocations r =
     map (\<lambda>a. case ravs (alloc_id a) of Some v \<Rightarrow> v | None \<Rightarrow> 0)
       (filter (\<lambda>a. alloc_indexer a = r) allocations)"

lemma indexer_ravs_value:
  "entry_or_default 0 (indexer_ravs ravs allocations) r = sum_list (rav_values ravs allocations r)"
proof -
  have "entry_or_default 0 (fold (\<lambda>a t. case ravs (alloc_id a) of
        Some value \<Rightarrow> AList.update (alloc_indexer a) (entry_or_default 0 t (alloc_indexer a) + value) t
      | None \<Rightarrow> t) allocations t) r = entry_or_default 0 t r + sum_list (rav_values ravs allocations r)" for t
    by (induction allocations arbitrary: t)
       (auto simp: rav_values_def entry_or_default_update add.assoc split: option.split)
  then show ?thesis by (simp add: indexer_ravs_def entry_or_default_simps)
qed

lemma debt_counts_ravs:
  assumes "r \<in> set (receivers_of allocations accounts)"
    and "sum_list (map unat (rav_values (ce_ravs env) allocations r)) < 2 ^ 128"
  shows "sum_list (map unat (rav_values (ce_ravs env) allocations r)) \<le>
    unat (claimed_debt config (debts_seen env allocations accounts) r)"
proof -
  let ?vs = "rav_values (ce_ravs env) allocations r"
  have "unat (sum_list ?vs) = sum_list (map unat ?vs)"
    using assms(2) by (simp add: unat_sum_list_no_wrap)
  moreover have "entry_or_default 0 (debts_seen env allocations accounts) r =
      max (case ce_receipts env r of Some v \<Rightarrow> v | None \<Rightarrow> 0) (sum_list ?vs)"
    using assms(1) by (simp add: debts_seen_def debts_of_def entry_or_default_def map_of_map_restrict
        restrict_map_def indexer_ravs_value [unfolded entry_or_default_def])
  then have "sum_list ?vs \<le> claimed_debt config (debts_seen env allocations accounts) r"
    by (simp add: claimed_debt_def le_max_iff_disj)
  ultimately show ?thesis by (simp add: word_le_nat_alt)
qed

end
