(* ===== verification/EscrowReclaim.thy ===== *)
theory EscrowReclaim
  imports EscrowChain
begin

text \<open>
  Turn after turn when the debts have fallen: the escrow above the targets is thawed, and withdrawn
  once it has matured. A \<open>reclaim_run\<close> is an endless sequence of turns in which every transaction
  that is sent takes effect in the escrow contract before the next turn, every thaw matures at some
  turn that can read the time of the chain, and the debts stand still.
\<close>

section \<open>One account\<close>

text \<open>An account from which nothing is left to reclaim.\<close>

definition reclaimed :: "u128 \<Rightarrow> reclaim \<Rightarrow> escrow_account \<Rightarrow> bool" where
  "reclaimed target r account \<longleftrightarrow> thawing account = 0 \<and> unat target \<le> unat (balance account) \<and>
     (unat (balance account) \<le> keep_floor target r \<or>
      unat (balance account) < keep_floor target r + unat (min_withdraw r))"

text \<open>The account over the turns, when each turn's action takes effect and each thaw matures.\<close>

definition reclaim_seq ::
    "u128 \<Rightarrow> (nat \<Rightarrow> reclaim) \<Rightarrow> (nat \<Rightarrow> u64) \<Rightarrow> (nat \<Rightarrow> escrow_account) \<Rightarrow> bool" where
  "reclaim_seq target rc thaw_end a \<longleftrightarrow>
     (\<forall>i. a (Suc i) = settled_account (thaw_end i) target (Some (rc i)) (a i)) \<and>
     (\<forall>i. margin_bps (rc i) = margin_bps (rc 0) \<and> min_withdraw (rc i) = min_withdraw (rc 0)) \<and>
     keep_floor target (rc 0) < 2 ^ 128 \<and>
     (\<forall>i. 0 < thawing (a i) \<longrightarrow> (\<exists>j\<ge>i. matured (a i) (Some (rc j)))) \<and>
     thawing (a 0) \<le> balance (a 0) \<and> unat target \<le> effective (a 0)"

lemma reclaim_seqD:
  assumes "reclaim_seq target rc thaw_end a"
  shows "a (Suc i) = settled_account (thaw_end i) target (Some (rc i)) (a i)"
    and "keep_floor target (rc i) = keep_floor target (rc 0)" and "keep_floor target (rc i) < 2 ^ 128"
    and "min_withdraw (rc i) = min_withdraw (rc 0)"
    and "0 < thawing (a i) \<Longrightarrow> \<exists>j\<ge>i. matured (a i) (Some (rc j))"
    and "reclaimed target (rc i) x = reclaimed target (rc 0) x"
proof -
  have "margin_bps (rc i) = margin_bps (rc 0)" and w: "min_withdraw (rc i) = min_withdraw (rc 0)"
    and small: "keep_floor target (rc 0) < 2 ^ 128"
    using assms unfolding reclaim_seq_def by blast+
  then have k: "keep_floor target (rc i) = keep_floor target (rc 0)" by (simp add: keep_floor_def)
  with w small show "keep_floor target (rc i) = keep_floor target (rc 0)" "keep_floor target (rc i) < 2 ^ 128"
      "min_withdraw (rc i) = min_withdraw (rc 0)" "reclaimed target (rc i) x = reclaimed target (rc 0) x"
    by (simp_all add: reclaimed_def)
qed (use assms in \<open>unfold reclaim_seq_def, blast+\<close>)

text \<open>No account falls below its target, so there is nothing to deposit.\<close>

lemma settled_covers:
  assumes "thawing a \<le> balance a" and "unat target \<le> effective a" and "keep_floor target r < 2 ^ 128"
  shows "thawing (settled_account te target (Some r) a) \<le> balance (settled_account te target (Some r) a)"
    and "unat target \<le> effective (settled_account te target (Some r) a)"
    and "decide a target (Some r) \<noteq> Deposit x"
proof -
  show no: "decide a target (Some r) \<noteq> Deposit x" for x using assms(2) by (simp add: decide_Deposit_iff)
  have le: "unat (thawing a) \<le> unat (balance a)" using assms(1) by (simp add: word_le_nat_alt)
  have "thawing (settled_account te target (Some r) a) \<le> balance (settled_account te target (Some r) a) \<and>
      unat target \<le> effective (settled_account te target (Some r) a)"
  proof (cases "decide a target (Some r)")
    case NoAction
    with assms show ?thesis by (simp add: settled_account_def)
  next
    case Withdraw
    with assms(1,2) le show ?thesis
      by (simp add: settled_account_def effective_def unat_sub word_le_nat_alt)
  next
    case (Thaw x)
    then have "unat x = unat (balance a) - keep_floor target r"
      using decide_Thaw_iff [OF assms(3)] by blast
    moreover have "unat target \<le> keep_floor target r" by (simp add: keep_floor_def)
    ultimately show ?thesis
      using Thaw apply_thaw_effective [OF Thaw assms(3), of te] by (simp add: settled_account_def word_le_nat_alt)
  qed (use no in blast)
  then show "thawing (settled_account te target (Some r) a) \<le> balance (settled_account te target (Some r) a)"
    and "unat target \<le> effective (settled_account te target (Some r) a)" by simp_all
qed

lemma reclaim_seq_covers:
  assumes seq: "reclaim_seq target rc thaw_end a"
  shows "thawing (a i) \<le> balance (a i) \<and> unat target \<le> effective (a i)"
proof (induction i)
  case 0
  show ?case using seq by (simp add: reclaim_seq_def)
next
  case (Suc i)
  with settled_covers(1,2) [OF conjunct1 [OF Suc] conjunct2 [OF Suc] reclaim_seqD(3) [OF seq]] show ?case
    by (simp add: reclaim_seqD(1) [OF seq])
qed

lemma reclaimed_stays:
  assumes seq: "reclaim_seq target rc thaw_end a" and rest: "reclaimed target (rc 0) (a i)"
  shows "decide (a i) target (Some (rc i)) = NoAction" and "a (Suc i) = a i"
proof -
  have "\<not> matured (a i) (Some (rc i))" using rest by (simp add: reclaimed_def matured_def)
  then have w: "decide (a i) target (Some (rc i)) \<noteq> Withdraw" by (simp add: decide_Withdraw_iff)
  have d: "decide (a i) target (Some (rc i)) \<noteq> Deposit x" for x
    using settled_covers(3) [OF _ _ reclaim_seqD(3) [OF seq]] reclaim_seq_covers [OF seq] by blast
  have "decide (a i) target (Some (rc i)) \<noteq> Thaw x" for x
  proof
    assume "decide (a i) target (Some (rc i)) = Thaw x"
    then have "unat x = unat (balance (a i)) - keep_floor target (rc 0)" "0 < x" "min_withdraw (rc 0) \<le> x"
      by (simp_all add: decide_Thaw_iff [OF reclaim_seqD(3) [OF seq]] reclaim_seqD(2,4) [OF seq, where i = i])
    with rest show False by (auto simp: reclaimed_def word_less_nat_alt word_le_nat_alt)
  qed
  with w d show no: "decide (a i) target (Some (rc i)) = NoAction" by (cases "decide (a i) target (Some (rc i))") auto
  then show "a (Suc i) = a i" by (simp add: reclaim_seqD(1) [OF seq] settled_account_def)
qed

lemma reclaimed_forever:
  assumes seq: "reclaim_seq target rc thaw_end a" and "reclaimed target (rc 0) (a n)" and "n \<le> i"
  shows "a i = a n"
  using assms(3)
proof (induction rule: dec_induct)
  case (step i)
  with reclaimed_stays(2) [OF seq, of i] assms(2) show ?case by simp
qed simp

text \<open>What is thawing stays untouched until it has matured; then it is withdrawn.\<close>

lemma thawing_withdrawn:
  assumes seq: "reclaim_seq target rc thaw_end a" and thaw: "0 < thawing (a i)"
  shows "\<exists>j>i. thawing (a j) = 0 \<and> unat (balance (a j)) = effective (a i)"
proof -
  define j where "j = (LEAST j. i \<le> j \<and> matured (a i) (Some (rc j)))"
  have j: "i \<le> j \<and> matured (a i) (Some (rc j))" unfolding j_def
    using reclaim_seqD(5) [OF seq thaw] by (rule LeastI_ex)
  have early: "\<not> matured (a i) (Some (rc k))" if "i \<le> k" "k < j" for k
    using that not_less_Least [of k "\<lambda>j. i \<le> j \<and> matured (a i) (Some (rc j))"] unfolding j_def by blast
  have same: "k \<le> j \<Longrightarrow> a k = a i" if "i \<le> k" for k
    using that
  proof (induction rule: dec_induct)
    case (step k)
    then have k: "a k = a i" "\<not> matured (a k) (Some (rc k))" using early by simp_all
    with thaw reclaim_seq_covers [OF seq, of k] have "decide (a k) target (Some (rc k)) = NoAction"
      by (intro decide_NoActionI) simp_all
    then have "a (Suc k) = a k" using reclaim_seqD(1) [OF seq, of k] by (simp add: settled_account_def)
    with k(1) show ?case by simp
  qed simp
  from same [of j] j have "a j = a i" "decide (a j) target (Some (rc j)) = Withdraw" by (simp_all add: decide_Withdraw_iff)
  then have "a (Suc j) = \<lparr>balance = balance (a i) - thawing (a i), thawing = 0, thaw_end_timestamp = 0\<rparr>"
    by (simp add: reclaim_seqD(1) [OF seq] settled_account_def)
  moreover have "unat (balance (a i) - thawing (a i)) = effective (a i)"
    using reclaim_seq_covers [OF seq, of i] by (simp add: unat_sub effective_def)
  ultimately show ?thesis using j by (intro exI [of _ "Suc j"]) simp
qed

lemma idle_reclaimed:
  assumes seq: "reclaim_seq target rc thaw_end a" and idle: "thawing (a i) = 0"
  shows "\<exists>n. reclaimed target (rc 0) (a n)"
proof (cases "reclaimed target (rc 0) (a i)")
  case False
  let ?floor = "keep_floor target (rc 0)"
  have cov: "unat target \<le> unat (balance (a i))"
    using reclaim_seq_covers [OF seq, of i] idle by (simp add: effective_def)
  with False idle have over: "?floor < unat (balance (a i))" "unat (min_withdraw (rc 0)) \<le> unat (balance (a i)) - ?floor"
    by (auto simp: reclaimed_def)
  define x where "x = (of_nat (unat (balance (a i)) - ?floor) :: u128)"
  have x: "unat x = unat (balance (a i)) - ?floor"
    unfolding x_def by (rule unat_of_nat_small) (use unat_less_power [of "balance (a i)"] in simp)
  have "\<not> matured (a i) (Some (rc i))" using idle by (simp add: matured_def)
  then have act: "decide (a i) target (Some (rc i)) = Thaw x"
    using idle over x by (simp add: decide_Thaw_iff [OF reclaim_seqD(3) [OF seq]] reclaim_seqD(2,4) [OF seq, where i = i]
        word_less_nat_alt word_le_nat_alt)
  then have "effective (a (Suc i)) = ?floor" "thawing (a (Suc i)) = x"
    using apply_thaw_effective [OF act reclaim_seqD(3) [OF seq]]
    by (simp_all add: reclaim_seqD(1) [OF seq] settled_account_def reclaim_seqD(2) [OF seq, where i = i])
  moreover have "0 < x" using over(1) x by (simp add: word_less_nat_alt)
  ultimately obtain j where "thawing (a j) = 0" "unat (balance (a j)) = ?floor"
    using thawing_withdrawn [OF seq, of "Suc i"] by auto
  then have "reclaimed target (rc 0) (a j)" by (simp add: reclaimed_def keep_floor_def)
  then show ?thesis ..
qed blast

text \<open>So every account comes to rest, at its target or at most the margin and the minimum above.\<close>

lemma reclaim_seq_settles:
  assumes seq: "reclaim_seq target rc thaw_end a"
  shows "\<exists>n. \<forall>i\<ge>n. reclaimed target (rc 0) (a i) \<and> decide (a i) target (Some (rc i)) = NoAction"
proof -
  obtain i where "thawing (a i) = 0"
    using thawing_withdrawn [OF seq, of 0] by (cases "thawing (a 0) = 0") (auto simp: word_neq_0_conv)
  from idle_reclaimed [OF seq this] obtain n where n: "reclaimed target (rc 0) (a n)" ..
  with reclaimed_forever [OF seq n] reclaimed_stays(1) [OF seq] show ?thesis by metis
qed

section \<open>The transactions in the escrow contract\<close>

text \<open>What a call makes of the account of \<open>r\<close>; \<open>thaw_end\<close> is when a thaw that it starts will mature.\<close>

fun call_effect :: "u64 \<Rightarrow> address \<Rightarrow> escrow_call \<Rightarrow> escrow_account \<Rightarrow> escrow_account" where
  "call_effect thaw_end r (DepositCall c q amount) a =
     (if q = r then a\<lparr>balance := balance a + ucast amount\<rparr> else a)"
| "call_effect thaw_end r (ThawCall c q amount) a =
     (if q = r then a\<lparr>thawing := ucast amount, thaw_end_timestamp := thaw_end\<rparr> else a)"
| "call_effect thaw_end r (WithdrawCall c q) a =
     (if q = r then \<lparr>balance = balance a - thawing a, thawing = 0, thaw_end_timestamp = 0\<rparr> else a)"

definition executed ::
    "(address \<Rightarrow> u64) \<Rightarrow> escrow_call list list \<Rightarrow> (address \<times> escrow_account) list
       \<Rightarrow> (address \<times> escrow_account) list \<Rightarrow> bool" where
  "executed thaw_end txs before after \<longleftrightarrow>
     (\<forall>r. account_of after r = fold (call_effect (thaw_end r) r) (concat txs) (account_of before r))"

record reclaim_run = funding_run +
  run_thaw_end :: "nat \<Rightarrow> address \<Rightarrow> u64"

definition is_reclaim_run ::
    "alloy_fmt \<Rightarrow> escrow_config \<Rightarrow> contracts \<Rightarrow> allocation list \<Rightarrow> (address \<times> u128) list \<Rightarrow> address list
       \<Rightarrow> reclaim_run \<Rightarrow> bool" where
  "is_reclaim_run F config ct allocations debts rs run \<longleftrightarrow>
     (\<forall>i. ce_allocations (run_env run i) (ms_subgraph_block (run_state run i)) = Inr allocations \<and>
        ce_accounts (run_env run i) (ms_subgraph_block (run_state run i)) = Inr (run_accounts run i) \<and>
        receivers_of allocations (run_accounts run i) = rs \<and>
        debts_seen (run_env run i) allocations (run_accounts run i) = debts \<and>
        escrow_cycle F config ct (run_env run i) (run_state run i) = Some (run_state run (Suc i)) \<and>
        executed (run_thaw_end run i) (drop (length (ms_sent (run_state run i))) (ms_sent (run_state run (Suc i))))
          (run_accounts run i) (run_accounts run (Suc i)))"

lemma thaw_effects:
  assumes "distinct (map fst thaws)"
  shows "fold (call_effect te r) (thaw_calls ct thaws) a =
    (case map_of thaws r of None \<Rightarrow> a | Some x \<Rightarrow> a\<lparr>thawing := x, thaw_end_timestamp := te\<rparr>)"
  using assms
proof (induction thaws arbitrary: a)
  case (Cons p thaws)
  obtain q x where p: "p = (q, x)" by (cases p)
  have "ucast (ucast x :: 256 word) = x" by transfer simp
  moreover have "map_of thaws q = None" using Cons.prems by (simp add: p map_of_eq_None_iff)
  ultimately show ?case using Cons by (auto simp: p thaw_calls_def)
qed (simp add: thaw_calls_def)

lemma withdraw_effects:
  assumes "distinct ws"
  shows "fold (call_effect te r) (withdraw_calls ct ws) a =
    (if r \<in> set ws then \<lparr>balance = balance a - thawing a, thawing = 0, thaw_end_timestamp = 0\<rparr> else a)"
  using assms by (induction ws arbitrary: a) (auto simp: withdraw_calls_def)

text \<open>Together, the thaws and withdrawals of a turn carry out each receiver's action.\<close>

lemma actions_effects:
  assumes rs: "distinct rs" and "r \<in> set rs" and no: "\<And>x. act r \<noteq> Deposit x"
  shows "fold (call_effect te r) (thaw_calls ct (thaws_for act rs) @ withdraw_calls ct (withdrawals_for act rs)) a =
    apply_action te (act r) a"
proof -
  have d: "distinct (map fst (thaws_for act rs))" "distinct (withdrawals_for act rs)"
    using rs by (simp_all add: plan_receivers withdrawals_for_def)
  have "map_of (thaws_for act rs) r = (case act r of Thaw x \<Rightarrow> Some x | _ \<Rightarrow> None)"
  proof (cases "act r")
    case (Thaw x)
    with assms(2) have "(r, x) \<in> set (thaws_for act rs)" by (simp add: thaws_for_set)
    with d(1) Thaw show ?thesis by simp
  qed (use thaws_for_set in \<open>auto simp: map_of_eq_None_iff\<close>)
  moreover have "r \<in> set (withdrawals_for act rs) \<longleftrightarrow> act r = Withdraw"
    using assms(2) by (simp add: withdrawals_for_def)
  ultimately show ?thesis
    using no by (cases "act r") (auto simp: thaw_effects [OF d(1)] withdraw_effects [OF d(2)])
qed

section \<open>A turn of a run\<close>

text \<open>What the lemmas assume of a run: the settings are those that the start accepts, reclaiming is
  enabled and trusted, the transactions are really sent, the targets exist, all accounts hold their
  targets net of what is thawing, and every thaw matures.\<close>

definition run_reclaim :: "escrow_config \<Rightarrow> ('a funding_run_scheme) \<Rightarrow> nat \<Rightarrow> reclaim" where
  "run_reclaim config run i =
     \<lparr>chain_now = (case ce_latest_block_timestamp (run_env run i) of Inr now \<Rightarrow> Some now | Inl _ \<Rightarrow> None),
      margin_bps = withdraw_margin_bps (ec_withdraw_margin config),
      min_withdraw = min_withdraw_of (ec_min_withdraw_grt config)\<rparr>"

abbreviation run_target :: "escrow_config \<Rightarrow> (address \<times> u128) list \<Rightarrow> address \<Rightarrow> u128" where
  "run_target config debts r \<equiv> the (target_of config debts r)"

definition reclaiming ::
    "alloy_fmt \<Rightarrow> escrow_config \<Rightarrow> contracts \<Rightarrow> allocation list \<Rightarrow> (address \<times> u128) list \<Rightarrow> address list
       \<Rightarrow> reclaim_run \<Rightarrow> bool" where
  "reclaiming F config ct allocations debts rs run \<longleftrightarrow>
     is_reclaim_run F config ct allocations debts rs run \<and>
     (\<forall>r\<in>set rs. \<forall>i. keep_floor (run_target config debts r) (run_reclaim config run i) < 2 ^ 128) \<and>
     \<not> ec_dry_run config \<and> ec_withdraw_enabled config \<and> debt_ready debts \<and>
     (\<forall>r\<in>set rs. thawing (account_of (run_accounts run 0) r) \<le> balance (account_of (run_accounts run 0) r) \<and>
        unat (run_target config debts r) \<le> effective (account_of (run_accounts run 0) r)) \<and>
     (\<forall>i. \<forall>r\<in>set rs. 0 < thawing (account_of (run_accounts run i) r) \<longrightarrow>
        (\<exists>j\<ge>i. matured (account_of (run_accounts run i) r) (Some (run_reclaim config run j))))"

lemma reclaimingD:
  assumes "reclaiming F config ct allocations debts rs run"
  shows "is_reclaim_run F config ct allocations debts rs run"
    and "\<And>r i. r \<in> set rs \<Longrightarrow> keep_floor (run_target config debts r) (run_reclaim config run i) < 2 ^ 128"
    and "\<not> ec_dry_run config" and "ec_withdraw_enabled config" and "debt_ready debts"
    and "\<And>r i. r \<in> set rs \<Longrightarrow> 0 < thawing (account_of (run_accounts run i) r) \<Longrightarrow>
      \<exists>j\<ge>i. matured (account_of (run_accounts run i) r) (Some (run_reclaim config run j))"
    and "distinct rs"
  using assms by (auto simp: reclaiming_def is_reclaim_run_def receivers_of_def)

abbreviation turn_action ::
    "escrow_config \<Rightarrow> (address \<times> u128) list \<Rightarrow> reclaim_run \<Rightarrow> nat \<Rightarrow> address \<Rightarrow> action" where
  "turn_action config debts run i \<equiv>
     action_for config (run_accounts run i) debts (Some (run_reclaim config run i))"

lemma turn_reclaims:
  assumes R: "reclaiming F config ct allocations debts rs run"
    and no: "\<And>r x. r \<in> set rs \<Longrightarrow> turn_action config debts run i r \<noteq> Deposit x"
  shows "r \<in> set rs \<Longrightarrow> account_of (run_accounts run (Suc i)) r =
      apply_action (run_thaw_end run i r) (turn_action config debts run i r) (account_of (run_accounts run i) r)"
    and "(\<And>r. r \<in> set rs \<Longrightarrow> turn_action config debts run i r = NoAction) \<Longrightarrow>
      ms_sent (run_state run (Suc i)) = ms_sent (run_state run i)"
proof -
  let ?act = "turn_action config debts run i"
  from reclaimingD(1) [OF R] have turn: "ce_allocations (run_env run i) (ms_subgraph_block (run_state run i)) = Inr allocations"
      "ce_accounts (run_env run i) (ms_subgraph_block (run_state run i)) = Inr (run_accounts run i)"
      "escrow_cycle F config ct (run_env run i) (run_state run i) = Some (run_state run (Suc i))"
    and rs: "receivers_of allocations (run_accounts run i) = rs"
    and debts: "debts_seen (run_env run i) allocations (run_accounts run i) = debts"
    and exec: "executed (run_thaw_end run i) (drop (length (ms_sent (run_state run i))) (ms_sent (run_state run (Suc i))))
      (run_accounts run i) (run_accounts run (Suc i))"
    by (auto simp: is_reclaim_run_def)
  have act: "decided config (run_env run i) allocations (run_accounts run i) = ?act"
    using reclaimingD(4,5) [OF R] by (simp add: decided_def debts reclaim_of_def run_reclaim_def Let_def)
  have "p \<notin> set (deposits_for ?act rs)" for p using no by (cases p) (simp add: deposits_for_set)
  then have none: "deposits_for ?act rs = []" by (metis list.set_intros(1) neq_Nil_conv)
  from escrow_cycle_transactions [OF turn, unfolded rs act none]
  have sent: "ms_sent (run_state run (Suc i)) = ms_sent (run_state run i) @ transactions config ct ?act rs []"
    by (auto simp: capped_def)
  have calls: "concat (transactions config ct ?act rs []) =
      thaw_calls ct (thaws_for ?act rs) @ withdraw_calls ct (withdrawals_for ?act rs)"
    using reclaimingD(3) [OF R] by (simp add: transactions_def batch_def deposit_calls_def)
  show "account_of (run_accounts run (Suc i)) r =
      apply_action (run_thaw_end run i r) (?act r) (account_of (run_accounts run i) r)" if "r \<in> set rs"
    using exec actions_effects [where act = ?act, OF reclaimingD(7) [OF R] that no [OF that]]
    by (simp add: executed_def sent calls)
  show "ms_sent (run_state run (Suc i)) = ms_sent (run_state run i)" if "\<And>r. r \<in> set rs \<Longrightarrow> ?act r = NoAction"
  proof -
    have "p \<notin> set (thaws_for ?act rs)" for p using that by (cases p) (auto simp: thaws_for_set)
    then have "thaws_for ?act rs = []" by (metis list.set_intros(1) neq_Nil_conv)
    moreover have "withdrawals_for ?act rs = []" using that by (auto simp: withdrawals_for_def filter_empty_conv)
    ultimately show ?thesis
      by (simp add: sent transactions_def batch_def deposit_calls_def thaw_calls_def withdraw_calls_def)
  qed
qed

text \<open>The settings that the start accepts, with a fill factor of at least 2^-50, find the targets for
  debts up to that share of 2^31 GRT, and the floors above them do not overflow.\<close>

lemma keep_floor_bound:
  assumes "check_settings (ec_balance_fill_factor config) (ec_withdraw_margin config) = Inr ()"
    and "ec_balance_fill_factor config = Fin f" and "1 / 2 ^ 50 \<le> f"
    and "of_int (uint (claimed_debt config debts r)) \<le> f * of_int (2 ^ 31 * wei)"
  shows "keep_floor (run_target config debts r) (run_reclaim config run i) < 2 ^ 128"
proof -
  have "f \<le> 1" using assms(1,2) by (auto simp: check_settings_Inr_iff)
  from next_balance_climbs [OF assms(3) this assms(4)] assms(2)
  obtain k :: u32 where k: "target_of config debts r = Some (ucast k * GRT)" by (auto simp: target_of_claimed)
  have "unat (ucast k * GRT) = nat (uint k * wei)" by (simp flip: uint_whole_grt)
  moreover have "uint k < 4294967296" using uint_bounded [of k] by simp
  ultimately have t: "unat (run_target config debts r) \<le> 4294967296 * 1000000000000000000"
    using k by (simp add: wei_def)
  let ?t = "unat (run_target config debts r)" and ?m = "unat (margin_bps (run_reclaim config run i))"
  have "uint (margin_bps (run_reclaim config run i)) \<le> 10000"
    using withdraw_margin_bps_le [OF assms(1)] by (simp add: run_reclaim_def)
  then have "?m \<le> 10000" by (simp only: unat_eq_nat_uint nat_le_iff of_nat_numeral)
  then have "?t div 10000 * ?m \<le> ?t div 10000 * 10000" by (rule mult_le_mono2)
  also have "\<dots> \<le> ?t" by (rule div_times_less_eq_dividend)
  finally have "?t + ?t div 10000 * ?m \<le> 2 * (4294967296 * 1000000000000000000)" using t by linarith
  also have "\<dots> < (2 :: nat) ^ 128" by simp
  finally show ?thesis by (simp only: keep_floor_def)
qed

section \<open>The end of a run\<close>

lemma run_covers:
  assumes R: "reclaiming F config ct allocations debts rs run"
  shows "\<forall>r\<in>set rs. thawing (account_of (run_accounts run i) r) \<le> balance (account_of (run_accounts run i) r) \<and>
     unat (run_target config debts r) \<le> effective (account_of (run_accounts run i) r)"
proof (induction i)
  case 0
  show ?case using R by (simp add: reclaiming_def)
next
  case (Suc i)
  note step = settled_covers [OF _ _ reclaimingD(2) [OF R, where i = i]]
  have no: "turn_action config debts run i r \<noteq> Deposit x" if "r \<in> set rs" for r x
    using Suc step(3) [OF _ _ that] that by (simp add: action_for_def)
  show ?case
  proof
    fix r assume r: "r \<in> set rs"
    show "thawing (account_of (run_accounts run (Suc i)) r) \<le> balance (account_of (run_accounts run (Suc i)) r) \<and>
        unat (run_target config debts r) \<le> effective (account_of (run_accounts run (Suc i)) r)"
      using step(1,2) [OF _ _ r, where a = "account_of (run_accounts run i) r"
          and te = "run_thaw_end run i r"] Suc r
      by (simp add: turn_reclaims(1) [OF R no r] action_for_def settled_account_def)
  qed
qed

lemma run_actions:
  assumes R: "reclaiming F config ct allocations debts rs run" and r: "r \<in> set rs"
  shows "turn_action config debts run i r \<noteq> Deposit x"
    and "reclaim_seq (run_target config debts r) (run_reclaim config run) (\<lambda>i. run_thaw_end run i r)
      (\<lambda>i. account_of (run_accounts run i) r)"
proof -
  have no: "turn_action config debts run i q \<noteq> Deposit x" if "q \<in> set rs" for i q x
    using run_covers [OF R, of i] settled_covers(3) [OF _ _ reclaimingD(2) [OF R that]] that
    by (simp add: action_for_def)
  show "turn_action config debts run i r \<noteq> Deposit x" by (rule no [OF r])
  have "account_of (run_accounts run (Suc i)) r =
      settled_account (run_thaw_end run i r) (run_target config debts r) (Some (run_reclaim config run i))
        (account_of (run_accounts run i) r)" for i
    using turn_reclaims(1) [OF R no r] by (simp add: settled_account_def action_for_def)
  with r R reclaimingD(2,6) [OF R r] show "reclaim_seq (run_target config debts r) (run_reclaim config run)
      (\<lambda>i. run_thaw_end run i r) (\<lambda>i. account_of (run_accounts run i) r)"
    by (simp add: reclaim_seq_def reclaiming_def run_reclaim_def)
qed

lemma reclaiming_ends:
  assumes R: "reclaiming F config ct allocations debts rs run"
  shows "\<exists>n. \<forall>i\<ge>n. ms_sent (run_state run i) = ms_sent (run_state run n) \<and>
    (\<forall>r\<in>set rs. reclaimed (run_target config debts r) (run_reclaim config run 0) (account_of (run_accounts run i) r))"
proof -
  have "\<forall>r\<in>set rs. \<exists>n. \<forall>i\<ge>n. reclaimed (run_target config debts r) (run_reclaim config run 0) (account_of (run_accounts run i) r) \<and>
      turn_action config debts run i r = NoAction"
    using reclaim_seq_settles [OF run_actions(2) [OF R]] by (simp add: action_for_def)
  then obtain k where k: "\<And>r i. r \<in> set rs \<Longrightarrow> k r \<le> i \<Longrightarrow>
      reclaimed (run_target config debts r) (run_reclaim config run 0) (account_of (run_accounts run i) r) \<and>
      turn_action config debts run i r = NoAction" by metis
  define n where "n = Max (insert 0 (k ` set rs))"
  have late: "k r \<le> i" if "r \<in> set rs" "n \<le> i" for r i
    using that unfolding n_def by (meson List.finite_set Max_ge finite_imageI finite_insert image_eqI insertI2 order_trans)
  have "ms_sent (run_state run i) = ms_sent (run_state run n)" if "n \<le> i" for i
    using that
  proof (induction rule: dec_induct)
    case (step i)
    with turn_reclaims(2) [OF R run_actions(1) [OF R], of i] k late show ?case by simp
  qed simp
  with k late show ?thesis by blast
qed

end
