(* ===== verification/EscrowStartup.thy ===== *)
theory EscrowStartup
  imports EscrowCycle
begin

text \<open>
  The start of the escrow manager: what \<open>main\<close> does up to its loop
  (\<open>crates/bin/escrow_manager/src/main.rs\<close>), and how the two Kafka consumers are started
  (\<open>receipts\<close> and \<open>ravs\<close> in \<open>kafka.rs\<close>). Keys, the Kafka client and the outside world are
  arguments; reading the configuration file and serving the metrics are not modelled.
\<close>

section \<open>Starting the consumers\<close>

text \<open>The Kafka client: making a consumer, the label and offset of the latest message of each
  partition of a topic, and assigning the partitions of topics from a start.\<close>

record kafka_client =
  kf_create :: "(string \<rightharpoonup> string) \<Rightarrow> string + unit"
  kf_latest_messages :: "string \<Rightarrow> string + (string \<times> int) list"
  kf_assign :: "string list \<Rightarrow> int \<Rightarrow> string + unit"
  kf_unassign :: "string + unit"

text \<open>A started consumer has sent \<open>cs_updates\<close> to the database and reads on from a start; one that
  is still catching up has sent the updates and waits for the next message.\<close>

datatype consumer_state =
    CatchingUp "update list"
  | Reading "string list" int "update list"

definition or_failed :: "string + 'a \<Rightarrow> ('a \<Rightarrow> (bootstrap_error + 'b) outcome) \<Rightarrow> (bootstrap_error + 'b) outcome" where
  "or_failed r f = (case r of Inl e \<Rightarrow> Returned (Inl (KafkaFailed e)) | Inr a \<Rightarrow> f a)"

text \<open>\<open>receipts\<close>, when the messages \<open>ms\<close> of the aggregated topic have arrived.\<close>

definition receipts_consumer ::
    "(byte list \<Rightarrow> string + indexer_fees_hourly) \<Rightarrow> (int \<Rightarrow> bool) \<Rightarrow> kafka_client \<Rightarrow> datetime
       \<Rightarrow> (string + aggregated_message) list \<Rightarrow> kafka_config \<Rightarrow> address list
       \<Rightarrow> (bootstrap_error + consumer_state) outcome" where
  "receipts_consumer decode in_range kf now ms config signers =
     or_failed (kf_create kf (consumer_config (kc_config config))) (\<lambda>_.
     let start = start_timestamp now in
     case kc_aggregated_topic config of
       Some aggregated_topic \<Rightarrow>
         or_failed (kf_latest_messages kf aggregated_topic) (\<lambda>latest_messages.
         let offsets = fold (\<lambda>(partition, offset). AList.update partition offset) latest_messages [] in
         or_failed (kf_assign kf [aggregated_topic] start) (\<lambda>_.
         bind_outcome (bootstrap_loop decode in_range signers (kc_aggregated_cutoff_timestamp config) ms offsets 0 [])
           (\<lambda>r. case r of
                Inl e \<Rightarrow> Returned (Inl e)
              | Inr (awaited, latest, updates) \<Rightarrow>
                  if awaited \<noteq> [] \<or> offsets = [] then Returned (Inr (CatchingUp updates))
                  else
                    or_failed (kf_unassign kf) (\<lambda>_.
                    or_failed (kf_assign kf [kc_realtime_topic config] (realtime_start latest)) (\<lambda>_.
                      Returned (Inr (Reading [kc_realtime_topic config] (realtime_start latest) updates)))))))
     | None \<Rightarrow>
         or_failed (kf_assign kf [kc_realtime_topic config] start) (\<lambda>_.
           Returned (Inr (Reading [kc_realtime_topic config] start []))))"

definition ravs_consumer :: "kafka_client \<Rightarrow> kafka_config \<Rightarrow> string + consumer_state" where
  "ravs_consumer kf config =
     rbind (kf_create kf (consumer_config (kc_config config))) (\<lambda>_.
     rbind (kf_assign kf [''gateway_ravs''] 0) (\<lambda>_.
       Inr (Reading [''gateway_ravs''] 0 [])))"

section \<open>The start of the manager\<close>

datatype startup_error = BadSettings settings_error | StartupFailed string

text \<open>What the start needs from outside. The keys are those of the signing library.\<close>

record 'k startup_env =
  su_key :: "b256 \<Rightarrow> string + 'k"
  su_address :: "'k \<Rightarrow> address"
  su_authorized_signers :: "address \<Rightarrow> string + address list"
  su_allowance_before :: "string + u128"
  su_approve :: "u128 \<Rightarrow> string + unit"
  su_allowance_after :: "string + u128"

text \<open>The contracts, the signers' addresses, the signers whose authorization was sent, and the amount
  approved, if any.\<close>

record started =
  st_contracts :: contracts
  st_signers :: "address list"
  st_authorized :: "address list"
  st_approved :: "u128 option"

definition load_signers :: "(b256 \<Rightarrow> string + 'k) \<Rightarrow> b256 list \<Rightarrow> string + 'k list" where
  "load_signers key signers =
     collect_results (\<lambda>signer. map_err (\<lambda>_. ''load signer key'') (key signer)) signers"

definition manager_startup :: "'k startup_env \<Rightarrow> escrow_config \<Rightarrow> startup_error + started" where
  "manager_startup env config =
     rbind (map_err BadSettings (check_settings (ec_balance_fill_factor config) (ec_withdraw_margin config))) (\<lambda>_.
     rbind (map_err StartupFailed (su_key env (ec_secret_key config))) (\<lambda>payer.
     let contracts = contracts_new (su_address env payer) (ec_grt_contract config)
           (ec_payments_escrow_contract config) (ec_graph_tally_collector_contract config) in
     rbind (map_err StartupFailed (load_signers (su_key env) (ec_signers config))) (\<lambda>keys.
     let signers = map (su_address env) keys in
     rbind (map_err StartupFailed
              (authorize_at_startup config (su_authorized_signers env (payer_of contracts)) signers)) (\<lambda>authorized.
     rbind (map_err StartupFailed
              (ensure_allowance config (su_allowance_before env) (su_approve env) (su_allowance_after env)))
       (\<lambda>(allowance, approved).
       Inr \<lparr>st_contracts = contracts, st_signers = signers, st_authorized = authorized,
            st_approved = approved\<rparr>)))))"

lemma startup_dry_run:
  assumes "ec_dry_run config" and "manager_startup env config = Inr s"
  shows "st_authorized s = [] \<and> st_approved s = None"
proof -
  have "authorize_at_startup config authorized signers = Inr xs \<Longrightarrow> xs = []" for authorized signers xs
    using assms(1) by (auto simp: authorize_at_startup_def signers_to_authorize_def result_simps split: if_splits)
  moreover have "ensure_allowance config b f a = Inr (v, approved) \<Longrightarrow> approved = None" for b f a v approved
    using assms(1) by (auto simp: ensure_allowance_def Let_def result_simps split: if_splits)
  ultimately show ?thesis
    using assms(2) by (auto simp: manager_startup_def Let_def result_simps)
qed

end
