(* ===== verification/EscrowMain.thy ===== *)
theory EscrowMain
  imports EscrowStartup EscrowTurn
begin

text \<open>
  The escrow manager as a program: \<open>main\<close> of \<open>crates/bin/escrow_manager/src/main.rs\<close> from the
  reading of the configuration file to its endless loop. What happens to the running program is a
  list of events; what has become of it after them is a value of \<open>main_end\<close>.
\<close>

section \<open>The loop\<close>

text \<open>What \<open>select!\<close> may wake up for. The signals are only seen between two turns.\<close>

datatype loop_event = Tick cycle_env | CtrlC | Sigterm

text \<open>Waiting for the next event, left with the error \<open>exit\<close>, or in a turn that never returns.\<close>

datatype loop_end = Looping manager_state | Exited manager_state | Hung

fun main_loop ::
    "alloy_fmt \<Rightarrow> escrow_config \<Rightarrow> contracts \<Rightarrow> loop_event list \<Rightarrow> manager_state \<Rightarrow> loop_end" where
  "main_loop F config ct [] st = Looping st"
| "main_loop F config ct (Tick env # events) st =
     (case escrow_cycle F config ct env st of
        None \<Rightarrow> Hung
      | Some st' \<Rightarrow> main_loop F config ct events st')"
| "main_loop F config ct (CtrlC # events) st = Exited st"
| "main_loop F config ct (Sigterm # events) st = Exited st"

section \<open>The program\<close>

text \<open>What \<open>main\<close> needs from outside: that of its start; the Kafka client, the clock, the messages of
  the aggregated topic that have arrived, and their decoder; whether a handler for the signal can be
  installed.\<close>

record 'k main_env =
  me_startup :: "'k startup_env"
  me_decode :: "byte list \<Rightarrow> string + indexer_fees_hourly"
  me_in_range :: "int \<Rightarrow> bool"
  me_kafka :: kafka_client
  me_now :: datetime
  me_messages :: "(string + aggregated_message) list"
  me_sigterm :: "string + unit"

text \<open>It returned an error before or after the start was complete; a task that it awaits panicked or
  it did so itself; it still catches up on the receipts; or it has reached its loop.\<close>

datatype main_error = ConsumerFailed bootstrap_error | SignalFailed string

datatype main_end =
    StartFailed startup_error
  | MainFailed started main_error
  | MainPanicked started
  | MainCatchingUp started
  | MainLoop started loop_end

definition manager_state_new :: manager_state where
  "manager_state_new = \<lparr>ms_metrics = escrow_metrics_new, ms_subgraph_block = None, ms_sent = []\<rparr>"

text \<open>The timer of the loop panics if its period is zero.\<close>

definition start_loop ::
    "alloy_fmt \<Rightarrow> string + unit \<Rightarrow> escrow_config \<Rightarrow> started \<Rightarrow> loop_event list \<Rightarrow> main_end" where
  "start_loop F sigterm config started events =
     (if ec_update_interval_seconds config = 0 then MainPanicked started
      else case sigterm of
        Inl e \<Rightarrow> MainFailed started (SignalFailed e)
      | Inr _ \<Rightarrow> MainLoop started (main_loop F config (st_contracts started) events manager_state_new))"

text \<open>The task that serves the metrics is spawned and not awaited: how it ends does not matter here.\<close>

definition escrow_main ::
    "alloy_fmt \<Rightarrow> 'k main_env \<Rightarrow> string + escrow_config \<Rightarrow> loop_event list \<Rightarrow> main_end" where
  "escrow_main F env config_file events =
     (case config_file of
        Inl _ \<Rightarrow> StartFailed (StartupFailed ''failed to load config'')
      | Inr config \<Rightarrow>
        (case manager_startup (me_startup env) config of
           Inl e \<Rightarrow> StartFailed e
         | Inr started \<Rightarrow>
           (case receipts_consumer (me_decode env) (me_in_range env) (me_kafka env) (me_now env)
                   (me_messages env) (ec_kafka config) (st_signers started) of
              Panicked \<Rightarrow> MainPanicked started
            | Returned (Inl e) \<Rightarrow> MainFailed started (ConsumerFailed e)
            | Returned (Inr (CatchingUp _)) \<Rightarrow> MainCatchingUp started
            | Returned (Inr (Reading _ _ _)) \<Rightarrow>
              (case ravs_consumer (me_kafka env) (ec_kafka config) of
                 Inl e \<Rightarrow> MainFailed started (ConsumerFailed (KafkaFailed e))
               | Inr _ \<Rightarrow> start_loop F (me_sigterm env) config started events))))"

section \<open>Lemmas\<close>

text \<open>The turns up to the first signal are those of \<open>escrow_turns\<close>.\<close>

lemma main_loop_ticks:
  "main_loop F config ct (map Tick envs @ events) st =
     (case escrow_turns F config ct envs st of
        None \<Rightarrow> Hung | Some st' \<Rightarrow> main_loop F config ct events st')"
  by (induction envs arbitrary: st) (simp_all split: option.split)

text \<open>Every list of events is some ticks and then, unless it ends there, a signal and the rest.\<close>

lemma events_cases:
  obtains envs where "events = map Tick envs"
    | envs sig rest where "events = map Tick envs @ sig # rest" "sig = CtrlC \<or> sig = Sigterm"
proof (induction events arbitrary: thesis)
  case (Cons e events)
  show ?case
  proof (cases e)
    case (Tick env)
    show ?thesis
    proof (rule Cons.IH)
      show thesis if "events = map Tick envs" for envs
        using Cons.prems(1) [of "env # envs"] that Tick by simp
      show thesis if "events = map Tick envs @ sig # rest" "sig = CtrlC \<or> sig = Sigterm" for envs sig rest
        using Cons.prems(2) [of "env # envs" sig rest] that Tick by simp
    qed
  qed (use Cons.prems(2) [of "[]" e events] in auto)
qed simp

lemma main_loop_Exited_iff:
  "main_loop F config ct events st = Exited st' \<longleftrightarrow>
     (\<exists>envs sig rest. events = map Tick envs @ sig # rest \<and> (sig = CtrlC \<or> sig = Sigterm) \<and>
        escrow_turns F config ct envs st = Some st')"
proof
  assume run: "main_loop F config ct events st = Exited st'"
  show "\<exists>envs sig rest. events = map Tick envs @ sig # rest \<and> (sig = CtrlC \<or> sig = Sigterm) \<and>
      escrow_turns F config ct envs st = Some st'"
  proof (cases rule: events_cases [of events])
    case (1 envs)
    with run main_loop_ticks [of F config ct envs "[]" st] show ?thesis by (simp split: option.splits)
  next
    case (2 envs sig rest)
    with run main_loop_ticks [of F config ct envs "sig # rest" st]
    have "escrow_turns F config ct envs st = Some st'" by (auto split: option.splits)
    with 2 show ?thesis by blast
  qed
qed (auto simp: main_loop_ticks)

lemma main_loop_Looping_iff:
  "main_loop F config ct events st = Looping st' \<longleftrightarrow>
     (\<exists>envs. events = map Tick envs \<and> escrow_turns F config ct envs st = Some st')"
proof
  assume run: "main_loop F config ct events st = Looping st'"
  show "\<exists>envs. events = map Tick envs \<and> escrow_turns F config ct envs st = Some st'"
  proof (cases rule: events_cases [of events])
    case (1 envs)
    with run main_loop_ticks [of F config ct envs "[]" st] show ?thesis by (auto split: option.splits)
  next
    case (2 envs sig rest)
    with run main_loop_ticks [of F config ct envs "sig # rest" st] show ?thesis
      by (auto split: option.splits)
  qed
next
  show "main_loop F config ct events st = Looping st'"
    if "\<exists>envs. events = map Tick envs \<and> escrow_turns F config ct envs st = Some st'"
    using that main_loop_ticks [of F config ct _ "[]" st] by auto
qed

lemma escrow_main_MainLoop_iff:
  "escrow_main F env config_file events = MainLoop started e \<longleftrightarrow>
     (\<exists>config. config_file = Inr config \<and> manager_startup (me_startup env) config = Inr started \<and>
        (\<exists>topics offset updates. receipts_consumer (me_decode env) (me_in_range env) (me_kafka env) (me_now env)
           (me_messages env) (ec_kafka config) (st_signers started) = Returned (Inr (Reading topics offset updates))) \<and>
        is_ok (ravs_consumer (me_kafka env) (ec_kafka config)) \<and>
        ec_update_interval_seconds config \<noteq> 0 \<and> is_ok (me_sigterm env) \<and>
        e = main_loop F config (st_contracts started) events manager_state_new)"
  by (auto simp: escrow_main_def start_loop_def is_ok_iff
      split: sum.splits outcome.splits consumer_state.splits if_splits)

text \<open>As long as the last message of a partition is missing, the start does not get to the loop.\<close>

lemma fold_update_map_of:
  assumes "distinct (map fst kvs)"
  shows "map_of (fold (\<lambda>(k, v). AList.update k v) kvs m) = map_of m ++ map_of kvs"
    and "distinct (map fst m) \<Longrightarrow> distinct (map fst (fold (\<lambda>(k, v). AList.update k v) kvs m))"
  using assms
proof (induction kvs arbitrary: m)
  case (Cons kv kvs)
  obtain k v where kv: "kv = (k, v)" by (cases kv)
  { case 1
    then have "map_of kvs k = None" by (simp add: kv map_of_eq_None_iff)
    with 1 Cons.IH(1) [of "AList.update k v m"] show ?case
      by (auto simp: kv update_conv' map_add_def fun_eq_iff split: option.split)
  next
    case 2
    with Cons.IH(2) [of "AList.update k v m"] show ?case by (simp add: kv distinct_update) }
qed simp_all

lemma receipts_consumer_awaits:
  assumes "kc_aggregated_topic config = Some topic" and "kc_aggregated_cutoff_timestamp config = Some cutoff"
    and "kf_latest_messages kf topic = Inr latest" and "distinct (map fst latest)" and "(p, last_offset) \<in> set latest"
    and "\<And>msg payload fees. Inr msg \<in> set ms \<Longrightarrow> am_partition msg = p \<Longrightarrow> am_offset msg = last_offset \<Longrightarrow>
      am_payload msg = Some payload \<Longrightarrow> decode payload = Inr fees \<Longrightarrow> ih_timestamp fees < cutoff"
  shows "receipts_consumer decode in_range kf now ms config signers \<noteq> Returned (Inr (Reading topics offset updates))"
proof -
  let ?offsets = "fold (\<lambda>(partition, offset). AList.update partition offset) latest []"
  have "map_of ?offsets p = Some last_offset" "distinct (map fst ?offsets)"
    using fold_update_map_of [OF assms(4), of "[]"] assms(4,5) by simp_all
  from bootstrap_awaits_skipped [OF _ this, of decode in_range signers cutoff ms 0 "[]"] assms(6)
  have "offsets' \<noteq> []" if "bootstrap_loop decode in_range signers (Some cutoff) ms ?offsets 0 [] =
      Returned (Inr (offsets', latest', sent'))" for offsets' latest' sent'
    using that by fastforce
  then show ?thesis
    by (auto simp: receipts_consumer_def assms(1-3) or_failed_def bind_outcome_def Let_def
        split: sum.splits outcome.splits prod.splits if_splits)
qed

text \<open>In a dry run a turn sends nothing, nor does any number of them.\<close>

lemma escrow_turns_dry_run:
  assumes "ec_dry_run config" and "escrow_turns F config ct envs st = Some st'"
  shows "ms_sent st' = ms_sent st \<and> ms_subgraph_block st' = ms_subgraph_block st"
  using assms(2)
proof (induction envs arbitrary: st)
  case (Cons env envs)
  then obtain st1 where "escrow_cycle F config ct env st = Some st1" "escrow_turns F config ct envs st1 = Some st'"
    by (auto simp: bind_eq_Some_conv)
  with Cons.IH escrow_cycle_dry_run [OF assms(1)] show ?case by metis
qed simp

end
