(* ===== verification/EscrowProperties.thy ===== *)
theory EscrowProperties
  imports Instances EscrowReclaim EscrowMain
begin

text \<open>
  The properties of the escrow manager: the target balance, the decision for a receiver and the
  scaling of deposits; what a turn of the loop sends and that it ends; the window of receipt values
  as a refinement of a log; the table of RAV values; catching up on the aggregated topic.
\<close>

section \<open>Planning\<close>

text \<open>C17. For a fill factor that is a double between 2^-50 and 1 and debts of at most that share of
  2^31 GRT, \<open>next_balance\<close> returns: a whole number of GRT, at least two, that is worth more than
  the debt, and no more than one step (doubling, at most 10000 GRT) above an amount that the debt has
  used up to the fill factor, unless it is the first step; and more debt never lowers it.\<close>

theorem next_balance_settles:
  assumes "1 / 2 ^ 50 \<le> f" and "f \<le> 1" and "representable f"
    and "debt \<le> debt'" and "of_int (uint debt') \<le> f * of_int (2 ^ 31 * wei)"
  shows "\<exists>n n' :: u32. next_balance debt (Fin f) = Some (ucast n * GRT) \<and>
    next_balance debt' (Fin f) = Some (ucast n' * GRT) \<and> n \<le> n' \<and> 2 \<le> n \<and>
    debt < ucast n * GRT \<and>
    (n = 2 \<or> (\<exists>p. 2 \<le> p \<and> step_limit f p \<le> round_rat (of_int (uint debt)) \<and>
       uint n \<le> 2 * uint p \<and> uint n \<le> uint p + 10000))"
proof -
  have debts: "(of_int (uint debt) :: rat) \<le> of_int (uint debt')"
    using assms(4) by (simp only: of_int_le_iff word_le_def)
  then have low: "of_int (uint debt) \<le> f * of_int (2 ^ 31 * wei)" using assms(5) by (rule order_trans)
  obtain n where n: "next_balance debt (Fin f) = Some (ucast n * GRT)"
    "climbs f (round_rat (of_int (uint debt))) 2 n"
    using next_balance_climbs [OF assms(1,2) low] by blast
  obtain n' where n': "next_balance debt' (Fin f) = Some (ucast n' * GRT)"
    "climbs f (round_rat (of_int (uint debt'))) 2 n'"
    using next_balance_climbs [OF assms(1,2,5)] by blast
  have "0 < f" using assms(1) by (rule less_le_trans [rotated]) simp
  then have "uint debt < uint n * wei"
    using climbs_covers [OF n(2)] climbs_covers_full [of debt 2 n] n(2) assms(2,3) representable_below_one
    by (cases "f = 1") auto
  then have "debt < ucast n * GRT" by (simp only: word_less_def uint_whole_grt)
  moreover have "n \<le> n'"
    using climbs_mono [OF n(2) n'(2) round_rat_mono [OF debts]] by (simp only: word_le_def)
  moreover have "2 \<le> n" using climbs_ge [OF n(2)] by (simp only: word_le_def)
  ultimately show ?thesis using n(1) n'(1) climbs_last [OF n(2)] by (simp add: word_le_def) blast
qed

theorem next_balance_settles_witness:
  "\<exists>n n' :: u32. next_balance (5 * GRT) (Fin (1 / 2)) = Some (ucast n * GRT) \<and>
    next_balance (70 * GRT) (Fin (1 / 2)) = Some (ucast n' * GRT) \<and> n \<le> n' \<and> 2 \<le> n \<and>
    5 * GRT < ucast n * GRT \<and>
    (n = 2 \<or> (\<exists>p. 2 \<le> p \<and> step_limit (1 / 2) p \<le> round_rat (of_int (uint (5 * GRT :: u128))) \<and>
       uint n \<le> 2 * uint p \<and> uint n \<le> uint p + 10000))"
proof -
  have "representable (1 / 2)" by code_simp
  moreover have "5 * GRT \<le> 70 * GRT" by (simp add: GRT_def)
  moreover have "(of_int (uint (70 * GRT)) :: rat) \<le> 1 / 2 * of_int (2 ^ 31 * wei)"
    by (simp add: GRT_def wei_def)
  ultimately show ?thesis by (intro next_balance_settles) simp_all
qed

text \<open>A turn with one allocation, whose indexer has receipts worth \<open>debt\<close>.\<close>

definition demo_config :: "bool \<Rightarrow> escrow_config" where
  "demo_config dry_run =
     \<lparr>ec_authorize_signers = False, ec_dry_run = dry_run, ec_debts = Map.empty,
      ec_payments_escrow_contract = 11, ec_graph_tally_collector_contract = 12, ec_grt_contract = 13,
      ec_grt_allowance = 1000,
      ec_kafka = \<lparr>kc_config = Map.empty, kc_realtime_topic = ''queries'', kc_aggregated_topic = None,
        kc_aggregated_cutoff_timestamp = None\<rparr>,
      ec_network_subgraph = [], ec_query_auth = [], ec_rpc_url = [], ec_secret_key = 0, ec_signers = [],
      ec_update_interval_seconds = 60, ec_port_metrics = 9090, ec_balance_fill_factor = Fin (1 / 2),
      ec_withdraw_enabled = True, ec_withdraw_margin = Fin (1 / 4), ec_min_withdraw_grt = 500\<rparr>"

definition demo_contracts :: contracts where
  "demo_contracts = contracts_new 1 13 11 12"

definition demo_env :: "u128 \<Rightarrow> cycle_env" where
  "demo_env debt =
     \<lparr>ce_allocations = (\<lambda>_. Inr [\<lparr>alloc_id = 5, alloc_indexer = 7\<rparr>]), ce_accounts = (\<lambda>_. Inr []),
      ce_receipts = [7 \<mapsto> debt], ce_ravs = Map.empty, ce_latest_block_timestamp = Inr 1000,
      ce_multicall = (\<lambda>_. Inr (Some 99))\<rparr>"

definition demo_state :: manager_state where
  "demo_state = \<lparr>ms_metrics = escrow_metrics_new, ms_subgraph_block = None, ms_sent = []\<rparr>"

lemma demo_turn [simp]:
  "ec_balance_fill_factor (demo_config dry) = Fin (1 / 2)" "ec_dry_run (demo_config dry) = dry"
  "ce_multicall (demo_env debt) = (\<lambda>_. Inr (Some 99))"
  "ce_allocations (demo_env debt) b = Inr [\<lparr>alloc_id = 5, alloc_indexer = 7\<rparr>]"
  "ce_accounts (demo_env debt) b = Inr []"
  "receivers_of [\<lparr>alloc_id = 5, alloc_indexer = 7\<rparr>] [] = [7]"
  "claimed_debt (demo_config dry) (debts_seen (demo_env debt) [\<lparr>alloc_id = 5, alloc_indexer = 7\<rparr>] []) 7 = debt"
  by (simp_all add: demo_env_def receivers_of_def claimed_debt_def debts_seen_def debts_of_def
      indexer_ravs_def demo_config_def)

text \<open>Without any debt the receiver is brought to the first step, two GRT.\<close>

lemma demo_target:
  "target_of (demo_config dry) (debts_seen (demo_env 0) [\<lparr>alloc_id = 5, alloc_indexer = 7\<rparr>] []) 7 = Some (2 * GRT)"
proof -
  have "next_balance 0 (Fin (1 / 2)) = Some (2 * GRT)" by code_simp
  then show ?thesis by (simp add: target_of_claimed)
qed

lemma demo_batches:
  defines "act \<equiv> \<lambda>dry. decided (demo_config dry) (demo_env 0) [\<lparr>alloc_id = 5, alloc_indexer = 7\<rparr>] []"
  shows "deposits_for (act dry) [7] = [(7, 2 * GRT)]" and "thaws_for (act dry) [7] = []"
    and "withdrawals_for (act dry) [7] = []"
proof -
  have "\<not> debt_ready (debts_seen (demo_env 0) [\<lparr>alloc_id = 5, alloc_indexer = 7\<rparr>] [])"
    by (simp add: debt_ready_def debts_seen_def debts_of_def demo_env_def indexer_ravs_def)
  then have "act dry 7 = decide default_account (2 * GRT) None"
    by (simp add: act_def decided_def Let_def action_for_def demo_target account_of_def reclaim_of_def)
  also have "\<dots> = Deposit (2 * GRT)" by code_simp
  finally have act: "act dry 7 = Deposit (2 * GRT)" .
  then show "deposits_for (act dry) [7] = [(7, 2 * GRT)]" and "thaws_for (act dry) [7] = []"
    and "withdrawals_for (act dry) [7] = []"
    by (simp_all add: plan_for_defs List.map_filter_simps)
qed

lemma demo_capped: "capped [(7, 2 * GRT)] = Some [(7, 2 * GRT)]"
  by (simp add: capped_def btree_sum_def MAX_ADJUSTMENT_def GRT_def)

lemma demo_turn_returns: "\<exists>st'. escrow_cycle demo_fmt (demo_config dry) ct (demo_env 0) demo_state = Some st'"
  using escrow_cycle_None [of "demo_env 0" demo_state "[\<lparr>alloc_id = 5, alloc_indexer = 7\<rparr>]" "[]" demo_fmt "demo_config dry" ct]
    demo_target [of dry] demo_batches [of dry] demo_capped
  by simp

lemma demo_state_new: "manager_state_new = demo_state"
  by (simp add: manager_state_new_def demo_state_def)

text \<open>A start with the key as the address and an allowance that suffices.\<close>

definition demo_startup :: "b256 startup_env" where
  "demo_startup =
     \<lparr>su_key = Inr, su_address = ucast, su_authorized_signers = (\<lambda>_. Inr []), su_allowance_before = Inr (- 1),
      su_approve = (\<lambda>_. Inr ()), su_allowance_after = Inr (- 1)\<rparr>"

lemma demo_started:
  "\<exists>started. manager_startup demo_startup (demo_config dry) = Inr started"
  "\<exists>started. manager_startup demo_startup ((demo_config dry)\<lparr>ec_kafka := kafka\<rparr>) = Inr started"
proof -
  have "check_settings (Fin (1 / 2)) (Fin (1 / 4)) = Inr ()" by code_simp
  then show "\<exists>started. manager_startup demo_startup (demo_config dry) = Inr started"
    and "\<exists>started. manager_startup demo_startup ((demo_config dry)\<lparr>ec_kafka := kafka\<rparr>) = Inr started"
    by (simp_all add: manager_startup_def demo_config_def demo_startup_def load_signers_def authorize_at_startup_def
        ensure_allowance_def Let_def split: if_split)
qed

text \<open>A program whose Kafka client knows one partition, and whose aggregated topic has one message.\<close>

definition demo_main :: "b256 main_env" where
  "demo_main =
     \<lparr>me_startup = demo_startup, me_decode = (\<lambda>_. Inr \<lparr>ih_timestamp = 10, ih_aggregations = []\<rparr>),
      me_in_range = (\<lambda>_. True),
      me_kafka = \<lparr>kf_create = (\<lambda>_. Inr ()), kf_latest_messages = (\<lambda>_. Inr [(''0'', 3)]),
        kf_assign = (\<lambda>_ _. Inr ()), kf_unassign = Inr ()\<rparr>,
      me_now = 0, me_messages = [Inr \<lparr>am_partition = ''0'', am_offset = 3, am_payload = Some []\<rparr>],
      me_sigterm = Inr ()\<rparr>"

lemma demo_main_loop:
  assumes "manager_startup demo_startup (demo_config dry) = Inr started"
  shows "escrow_main F demo_main (Inr (demo_config dry)) events =
    MainLoop started (main_loop F (demo_config dry) (st_contracts started) events demo_state)"
  using assms
  by (simp add: escrow_main_def start_loop_def demo_main_def receipts_consumer_def ravs_consumer_def
      or_failed_def demo_config_def demo_state_new)


text \<open>C36. Once the debt of a receiver (seen or configured) is worth 2^32 GRT or more, no step of
  \<open>next_balance\<close> is above it: the turn of the manager never ends, and no later event is seen, signals
  included.\<close>

theorem huge_debt_stalls_the_turn:
  assumes "ce_allocations env (ms_subgraph_block st) = Inr allocations"
    and "ce_accounts env (ms_subgraph_block st) = Inr accounts"
    and "ec_balance_fill_factor config = Fin f" and "0 < f" and "f \<le> 1"
    and "receiver \<in> set (receivers_of allocations accounts)"
    and "2 ^ 32 * wei \<le> uint (claimed_debt config (debts_seen env allocations accounts) receiver)"
  shows "escrow_cycle F config ct env st = None \<and>
    main_loop F config ct (Tick env # events) st = Hung"
proof -
  have "target_of config (debts_seen env allocations accounts) receiver = None"
    using next_balance_diverges [OF assms(4,5,7)] assms(3) by (simp add: target_of_claimed)
  with assms(1,2,6) have "escrow_cycle F config ct env st = None" by (simp add: escrow_cycle_None) blast
  then show ?thesis by simp
qed

theorem huge_debt_stalls_the_turn_witness:
  "main_loop demo_fmt (demo_config False) demo_contracts [Tick (demo_env (2 ^ 33 * GRT)), Sigterm] demo_state = Hung"
proof -
  have "2 ^ 32 * wei \<le> uint (2 ^ 33 * GRT :: u128)" by (simp add: wei_def GRT_def)
  then show ?thesis
    by (intro conjunct2 [OF huge_debt_stalls_the_turn [of _ _ "[\<lparr>alloc_id = 5, alloc_indexer = 7\<rparr>]" "[]" _ "1 / 2" 7]])
       simp_all
qed

text \<open>C11. What \<open>decide\<close> decides, and what is then in escrow net of what is leaving: a matured
  withdrawal goes first; otherwise a deposit is made exactly when the effective balance is below the
  target and brings it to the target; otherwise, when escrow may be reclaimed and nothing is thawing,
  the excess over the target and its margin is thawed unless it is less than the minimum.\<close>

theorem decide_keeps_targets:
  assumes "thawing account \<le> balance account" and "unat (thawing account) + unat target < 2 ^ 128"
    and "\<And>r. reclaim = Some r \<Longrightarrow> keep_floor target r < 2 ^ 128"
  shows "case decide account target reclaim of
      Withdraw \<Rightarrow> matured account reclaim \<and>
        effective (apply_action te Withdraw account) = effective account
    | Deposit x \<Rightarrow> \<not> matured account reclaim \<and> effective account < unat target \<and>
        effective (apply_action te (Deposit x) account) = unat target
    | Thaw x \<Rightarrow> \<not> matured account reclaim \<and> thawing account = 0 \<and>
        (\<exists>r. reclaim = Some r \<and> 0 < x \<and> min_withdraw r \<le> x \<and>
           effective (apply_action te (Thaw x) account) = keep_floor target r)
    | NoAction \<Rightarrow> \<not> matured account reclaim \<and> unat target \<le> effective account \<and>
        (reclaim = None \<or> 0 < thawing account \<or>
         (\<exists>r. reclaim = Some r \<and>
            unat (balance account) - keep_floor target r < max 1 (unat (min_withdraw r))))"
proof (cases "decide account target reclaim")
  case NoAction
  have m: "\<not> matured account reclaim" using NoAction by (simp flip: decide_Withdraw_iff [of account target])
  show ?thesis
  proof (cases "reclaim = None \<or> 0 < thawing account")
    case True
    with NoAction m show ?thesis by (auto simp: decide_NoAction_covers)
  next
    case False
    then obtain r where r: "reclaim = Some r" "thawing account = 0" by (auto simp: word_neq_0_conv [symmetric])
    note floor = assms(3) [OF r(1)]
    let ?x = "of_nat (unat (balance account) - keep_floor target r) :: u128"
    have x: "unat ?x = unat (balance account) - keep_floor target r"
      by (rule unat_of_nat_small) (rule less_imp_diff_less [OF unat_less_power])
    have "decide account target (Some r) \<noteq> Thaw ?x" using NoAction r by simp
    with m r x have "\<not> (0 < ?x \<and> min_withdraw r \<le> ?x)" by (simp add: decide_Thaw_iff [OF floor])
    then have "unat (balance account) - keep_floor target r < max 1 (unat (min_withdraw r))"
      by (auto simp: word_less_nat_alt word_le_nat_alt x)
    with NoAction m r show ?thesis by (simp add: decide_NoAction_covers)
  qed
next
  case Withdraw
  then have m: "matured account reclaim" by (simp add: decide_Withdraw_iff)
  have "unat (balance account - thawing account) = unat (balance account) - unat (thawing account)"
    using assms(1) by (simp add: unat_sub)
  with m Withdraw show ?thesis by (simp add: effective_def)
next
  case (Deposit x)
  then have "\<not> matured account reclaim \<and> effective account < unat target" by (simp add: decide_Deposit_iff)
  with apply_deposit_effective [OF Deposit assms(2,1)] Deposit show ?thesis by simp
next
  case (Thaw x)
  then obtain r where r: "reclaim = Some r" by (cases reclaim) (simp_all add: decide_None)
  with Thaw have d: "decide account target (Some r) = Thaw x" by simp
  then have "\<not> matured account reclaim \<and> thawing account = 0 \<and> 0 < x \<and> min_withdraw r \<le> x"
    by (simp add: decide_Thaw_iff [OF assms(3) [OF r]] r)
  with apply_thaw_effective [OF d assms(3) [OF r]] r Thaw show ?thesis by simp
qed

theorem decide_keeps_targets_witness:
  "case decide \<lparr>balance = 900, thawing = 0, thaw_end_timestamp = 0\<rparr> 300
     (Some \<lparr>chain_now = None, margin_bps = 2500, min_withdraw = 50\<rparr>) of
      Withdraw \<Rightarrow> False | Deposit x \<Rightarrow> False
    | Thaw x \<Rightarrow> effective (apply_action 7 (Thaw x) \<lparr>balance = 900, thawing = 0, thaw_end_timestamp = 0\<rparr>) =
        keep_floor 300 \<lparr>chain_now = None, margin_bps = 2500, min_withdraw = 50\<rparr>
    | NoAction \<Rightarrow> False"
proof -
  let ?a = "\<lparr>balance = 900, thawing = 0, thaw_end_timestamp = 0\<rparr>"
  let ?r = "\<lparr>chain_now = None, margin_bps = 2500, min_withdraw = 50\<rparr>"
  have d: "decide ?a 300 (Some ?r) = Thaw 600" by code_simp
  show ?thesis
    using decide_keeps_targets [of ?a 300 "Some ?r" 7]
    by (simp add: d keep_floor_def)
qed

text \<open>Decisions settle: once the decided action has been carried out, and nothing else has changed,
  nothing is left to do, except that a withdrawal may be followed by one more action. So a deposit is
  never undone by a thaw or the reverse.\<close>

lemma decisions_settle:
  assumes "thawing account \<le> balance account" and "unat (thawing account) + unat target < 2 ^ 128"
    and "\<And>r. reclaim = Some r \<Longrightarrow> keep_floor target r < 2 ^ 128"
    and "\<And>r now. reclaim = Some r \<Longrightarrow> chain_now r = Some now \<Longrightarrow> now \<le> thaw_end"
  shows "(decide account target reclaim \<noteq> Withdraw \<longrightarrow>
      decide (settled_account thaw_end target reclaim account) target reclaim = NoAction) \<and>
    decide (settled_account thaw_end target reclaim (settled_account thaw_end target reclaim account)) target reclaim =
      NoAction"
proof -
  define settle where "settle = settled_account thaw_end target reclaim"
  have "(decide account target reclaim \<noteq> Withdraw \<longrightarrow> decide (settle account) target reclaim = NoAction) \<and>
    decide (settle (settle account)) target reclaim = NoAction"
  proof (cases "decide account target reclaim = Withdraw")
    case False
    then have step: "decide (settle account) target reclaim = NoAction"
      unfolding settle_def by (rule settled_step [OF _ assms(1-4)])
    then have "settle (settle account) = settle account"
      by (simp add: settle_def settled_account_def)
    with step show ?thesis by simp
  next
    case True
    then have s: "settle account = \<lparr>balance = balance account - thawing account, thawing = 0, thaw_end_timestamp = 0\<rparr>"
      by (simp add: settle_def settled_account_def)
    have "\<not> matured (settle account) reclaim" by (simp add: s matured_def)
    then have "decide (settle account) target reclaim \<noteq> Withdraw" by (simp add: decide_Withdraw_iff)
    then have "decide (settle (settle account)) target reclaim = NoAction"
      unfolding settle_def by (rule settled_step) (use assms(2-4) in \<open>simp_all add: s [unfolded settle_def]\<close>)
    with True show ?thesis by simp
  qed
  then show ?thesis unfolding settle_def .
qed

text \<open>C18. Deposits of more than 10000 GRT are scaled down, for fewer than 5000 receivers and a
  total that does not wrap: the loop ends; the same receivers are paid, in their order, each at least
  two GRT and, beyond that, no more than was wanted; and the total reaches 10000 GRT but stays within
  100 GRT of it.\<close>

theorem reduce_adjustments_capped:
  assumes "distinct (map fst xs)" and "length xs < 5000"
    and "10000000000000000000000 < table_total xs" and "table_total xs < 2 ^ 128"
  shows "\<exists>res. reduce_adjustments xs = Some res \<and> map fst res = sort (map fst xs) \<and>
    (\<forall>(r, v)\<in>set res. 2000000000000000000 \<le> unat v \<and>
       unat v \<le> max 2000000000000000000 (table_value xs r)) \<and>
    10000000000000000000000 \<le> table_total res \<and> table_total res < 10100000000000000000000"
proof -
  have "card (fst ` set xs) < 5000"
    using assms(1,2) by (metis distinct_card length_map set_map)
  then obtain res where res: "reduce_adjustments xs = Some res" "scaled (btree_from_iter xs) res"
    "10000000000000000000000 \<le> table_total res" "table_total res < 10100000000000000000000"
    using reduce_adjustments_result [of xs] assms(3,4) by (auto simp: btree_from_iter_table [OF assms(1)])
  have keys: "map fst res = map fst (btree_from_iter xs)" using res(2) by (simp add: scaled_def)
  have sorted: "map fst res = sort (map fst xs)"
    using assms(1) by (simp add: keys btree_from_iter_keys sorted_list_of_set_sort_remdups distinct_remdups_id flip: set_map)
  have md: "unat MIN_DEPOSIT = 2000000000000000000" by (simp add: MIN_DEPOSIT_def GRT_def)
  have "2000000000000000000 \<le> unat v \<and> unat v \<le> max 2000000000000000000 (table_value xs r)"
    if "(r, v) \<in> set res" for r v
  proof -
    have "distinct (map fst res)" by (simp add: keys btree_from_iter_distinct)
    with that have "table_value res r = unat v" by (simp add: table_value_def)
    moreover have r: "r \<in> fst ` set (btree_from_iter xs)" using that keys by (metis fst_conv imageI set_map)
    moreover have "table_value (btree_from_iter xs) r = table_value xs r"
      using r by (intro btree_from_iter_value [OF assms(1)]) (simp add: btree_from_iter_keys flip: set_map)
    ultimately show ?thesis using res(2) unfolding scaled_def by (metis md)
  qed
  with res sorted show ?thesis by auto
qed

theorem reduce_adjustments_capped_witness:
  "\<exists>res. reduce_adjustments [(2, 9000 * GRT), (1, 9000 * GRT)] = Some res \<and>
    map fst res = [1, 2] \<and> table_total res < 10100000000000000000000"
proof -
  let ?xs = "[(2, 9000 * GRT), (1, 9000 * GRT)] :: (address \<times> u128) list"
  have "table_total ?xs = 18000000000000000000000" by (simp add: table_total_def GRT_def)
  moreover have "sort (map fst ?xs) = [1, 2]" by code_simp
  moreover have "distinct (map fst ?xs)" by simp
  ultimately show ?thesis using reduce_adjustments_capped [of ?xs] by fastforce
qed

section \<open>The turn\<close>

text \<open>C16. A turn of the manager ends: with a fill factor between 2^-50 and 1, debts of at most that
  share of 2^31 GRT and fewer than 5000 receivers, every target is found, the deposits can be scaled
  down to less than 10100 GRT, and the turn returns.\<close>

theorem escrow_turn_returns:
  assumes "ce_allocations env (ms_subgraph_block st) = Inr allocations"
    and "ce_accounts env (ms_subgraph_block st) = Inr accounts"
    and "ec_balance_fill_factor config = Fin f" and "1 / 2 ^ 50 \<le> f" and "f \<le> 1"
    and "length (receivers_of allocations accounts) < 5000"
    and "\<And>r. r \<in> set (receivers_of allocations accounts) \<Longrightarrow>
      of_int (uint (claimed_debt config (debts_seen env allocations accounts) r)) \<le> f * of_int (2 ^ 31 * wei)"
  shows "(\<exists>st'. escrow_cycle F config ct env st = Some st') \<and>
    (\<exists>paid. capped (deposits_for (decided config env allocations accounts) (receivers_of allocations accounts)) =
       Some paid \<and> table_total paid < 10100000000000000000000)"
proof -
  let ?rs = "receivers_of allocations accounts" and ?debts = "debts_seen env allocations accounts"
  have targets: "\<exists>n :: u32. target_of config ?debts r = Some (ucast n * GRT)" if "r \<in> set ?rs" for r
    using next_balance_climbs [OF assms(4,5) assms(7) [OF that]] assms(3) by (auto simp: target_of_claimed)
  have "distinct ?rs" by (simp add: receivers_of_def)
  then have paid: "\<exists>paid. capped (deposits_for (decided config env allocations accounts) ?rs) = Some paid \<and>
      table_total paid < 10100000000000000000000"
    using assms(6) by (intro deposits_capped [OF targets]) (simp_all add: decided_def Let_def)
  have "\<not> (\<exists>r\<in>set ?rs. target_of config ?debts r = None)" using targets by force
  with paid have "escrow_cycle F config ct env st \<noteq> None"
    by (simp add: escrow_cycle_None [OF assms(1,2)]) auto
  with paid show ?thesis by blast
qed

theorem escrow_turn_returns_witness:
  "\<exists>st'. escrow_cycle demo_fmt (demo_config False) demo_contracts (demo_env (5 * GRT)) demo_state = Some st'"
proof -
  have "(of_int (uint (5 * GRT :: u128)) :: rat) \<le> 1 / 2 * of_int (2 ^ 31 * wei)"
    by (simp add: GRT_def wei_def)
  then show ?thesis
    using escrow_turn_returns [of "demo_env (5 * GRT)" demo_state "[\<lparr>alloc_id = 5, alloc_indexer = 7\<rparr>]" "[]"
        "demo_config False" "1 / 2" demo_fmt demo_contracts]
    by simp
qed

text \<open>C7. The transactions of a turn: in this order one with the thaws, one with the deposits and one
  with the withdrawals that were decided, each only when it is not empty, and none in a dry run. The
  deposits are the decided ones, or as many scaled down to the limit, for the same receivers. No
  receiver is in two of them. The queries are then pinned to the greatest block that one of them
  landed in, if any did.\<close>

theorem escrow_turn_transactions:
  assumes "ce_allocations env (ms_subgraph_block st) = Inr allocations"
    and "ce_accounts env (ms_subgraph_block st) = Inr accounts"
    and "escrow_cycle F config ct env st = Some st'"
    and "rs = receivers_of allocations accounts" and "act = decided config env allocations accounts"
  shows "\<exists>paid txs. txs = batch (ec_dry_run config) (thaw_calls ct (thaws_for act rs)) @
      batch (ec_dry_run config) (deposit_calls ct paid) @
      batch (ec_dry_run config) (withdraw_calls ct (withdrawals_for act rs)) \<and>
    ms_sent st' = ms_sent st @ txs \<and>
    ms_subgraph_block st' = (case greatest (landed (ce_multicall env) txs) of
       None \<Rightarrow> ms_subgraph_block st | Some b \<Rightarrow> Some b) \<and>
    capped (deposits_for act rs) = Some paid \<and> map fst paid = map fst (deposits_for act rs) \<and>
    distinct (map fst (thaws_for act rs) @ map fst paid @ withdrawals_for act rs)"
proof -
  obtain paid txs where cycle: "capped (deposits_for act rs) = Some paid"
    "txs = transactions config ct act rs paid" "ms_sent st' = ms_sent st @ txs"
    "ms_subgraph_block st' = (case greatest (landed (ce_multicall env) txs) of
       None \<Rightarrow> ms_subgraph_block st | Some b \<Rightarrow> Some b)"
    using escrow_cycle_transactions [OF assms(1-3)] assms(4,5) by blast
  have rs: "sorted rs" "distinct rs" by (simp_all add: assms(4) receivers_of_def)
  have keys: "map fst paid = map fst (deposits_for act rs)"
    by (rule capped_keys [OF cycle(1) deposits_sorted [OF rs]])
  have "distinct (map fst (thaws_for act rs) @ map fst paid @ withdrawals_for act rs)"
    unfolding keys by (rule plan_batches_distinct [OF rs(2)])
  with cycle keys show ?thesis unfolding transactions_def by blast
qed

theorem escrow_turn_transactions_witness:
  "\<exists>st'. escrow_cycle demo_fmt (demo_config False) demo_contracts (demo_env 0) demo_state = Some st' \<and>
    ms_sent st' = [[DepositCall 12 7 (ucast (2 * GRT))]] \<and> ms_subgraph_block st' = Some 99"
proof -
  let ?as = "[\<lparr>alloc_id = 5, alloc_indexer = 7\<rparr>]" and ?c = "demo_config False" and ?e = "demo_env 0"
  obtain st' where st': "escrow_cycle demo_fmt ?c demo_contracts ?e demo_state = Some st'"
    using demo_turn_returns by blast
  have "ms_sent st' = [[DepositCall 12 7 (ucast (2 * GRT))]] \<and> ms_subgraph_block st' = Some 99"
    using escrow_turn_transactions [of ?e demo_state ?as "[]" demo_fmt ?c demo_contracts st' "[7]" "decided ?c ?e ?as []"]
      st' demo_batches [of False] demo_capped
    by (simp add: batch_def thaw_calls_def deposit_calls_def withdraw_calls_def demo_contracts_def contracts_new_def
        collector_of_def demo_state_def landed_def List.map_filter_simps greatest_def)
  with st' show ?thesis by blast
qed

text \<open>C10. In a dry run nothing is sent: whatever happens to the program, once it has reached its loop
  and for as long as it runs, its start has neither authorized a signer nor approved an allowance, no
  turn has sent a transaction, and the queries are pinned to no block.\<close>

theorem dry_run_sends_nothing:
  assumes "ec_dry_run config" and "escrow_main F env (Inr config) events = MainLoop started e"
    and "e = Looping st \<or> e = Exited st"
  shows "st_authorized started = [] \<and> st_approved started = None \<and>
    ms_sent st = [] \<and> ms_subgraph_block st = None"
proof -
  from assms(2) have "manager_startup (me_startup env) config = Inr started"
    and "e = main_loop F config (st_contracts started) events manager_state_new"
    by (simp_all only: escrow_main_MainLoop_iff sum.inject) blast+
  with assms(3) obtain envs where "escrow_turns F config (st_contracts started) envs manager_state_new = Some st"
    by (metis main_loop_Exited_iff main_loop_Looping_iff)
  from escrow_turns_dry_run [OF assms(1) this] startup_dry_run [OF assms(1) \<open>manager_startup _ _ = _\<close>]
  show ?thesis by (simp add: manager_state_new_def)
qed

theorem dry_run_sends_nothing_witness:
  "\<exists>started st. escrow_main demo_fmt demo_main (Inr (demo_config True)) [Tick (demo_env 0), Sigterm] =
     MainLoop started (Exited st) \<and> st_approved started = None \<and> ms_sent st = []"
proof -
  obtain started where s: "manager_startup demo_startup (demo_config True) = Inr started"
    using demo_started(1) by blast
  obtain st where "escrow_cycle demo_fmt (demo_config True) (st_contracts started) (demo_env 0) demo_state = Some st"
    using demo_turn_returns by blast
  with demo_main_loop [OF s] have run: "escrow_main demo_fmt demo_main (Inr (demo_config True))
      [Tick (demo_env 0), Sigterm] = MainLoop started (Exited st)" by simp
  have "ec_dry_run (demo_config True)" by simp
  from dry_run_sends_nothing [OF this run] run show ?thesis by auto
qed

text \<open>C32. The manager ends in one way only once it has reached its loop: by a signal, and between two
  turns. It exits with a state exactly when the start, the consumers and the signal handler have
  succeeded, the interval is not zero, and that state is the one after all turns before the first
  signal, each of them completed; what happens after the signal does not matter.\<close>

theorem escrow_main_exits:
  "escrow_main F env config_file events = MainLoop started (Exited st) \<longleftrightarrow>
     (\<exists>config envs sig rest. config_file = Inr config \<and>
        manager_startup (me_startup env) config = Inr started \<and>
        (\<exists>topics offset updates. receipts_consumer (me_decode env) (me_in_range env) (me_kafka env) (me_now env)
           (me_messages env) (ec_kafka config) (st_signers started) = Returned (Inr (Reading topics offset updates))) \<and>
        is_ok (ravs_consumer (me_kafka env) (ec_kafka config)) \<and>
        ec_update_interval_seconds config \<noteq> 0 \<and> is_ok (me_sigterm env) \<and>
        events = map Tick envs @ sig # rest \<and> (sig = CtrlC \<or> sig = Sigterm) \<and>
        escrow_turns F config (st_contracts started) envs manager_state_new = Some st)"
  unfolding escrow_main_MainLoop_iff eq_commute [of "Exited st"] main_loop_Exited_iff by blast

section \<open>Turn after turn\<close>

text \<open>C8. While the debts, the allocations and the receivers stand still and the queries
  succeed, nothing is to be reclaimed (reclaiming is disabled, or the debts are not trusted yet) and
  every deposit that is sent arrives, the manager funds all receivers and then falls silent: from
  some turn on, which is 2^31 at the latest, every account holds its target net of what is thawing,
  and no further transaction is sent. With shortfalls of at most 2n GRT each, n turns are enough;
  with at most 10000 GRT in all, one turn is. This is without the dry run, for a fill factor from
  2^-50 to 1, fewer than 5000 receivers, debts up to that share of 2^31 GRT, and accounts that at
  first have no more thawing than they hold.\<close>

theorem funding_completes:
  assumes "is_funding_run F config ct allocations debts rs run"
    and "ec_balance_fill_factor config = Fin f" and "1 / 2 ^ 50 \<le> f" and "f \<le> 1"
    and "length rs < 5000"
    and "\<And>r. r \<in> set rs \<Longrightarrow> of_int (uint (claimed_debt config debts r)) \<le> f * of_int (2 ^ 31 * wei)"
    and "\<not> ec_dry_run config" and "\<not> (ec_withdraw_enabled config \<and> debt_ready debts)"
    and "\<And>r. thawing (account_of (run_accounts run 0) r) \<le> balance (account_of (run_accounts run 0) r)"
  shows "\<exists>n\<le>2147483648.
    (\<forall>m. (\<forall>r\<in>set rs. shortfall config debts (run_accounts run 0) r \<le> m * 2000000000000000000) \<longrightarrow> n \<le> m) \<and>
    ((\<Sum>r\<in>set rs. shortfall config debts (run_accounts run 0) r) \<le> 10000000000000000000000 \<longrightarrow> n \<le> 1) \<and>
    (\<forall>i\<ge>n. (\<forall>r\<in>set rs. unat (the (target_of config debts r)) \<le> effective (account_of (run_accounts run i) r)) \<and>
       ms_sent (run_state run i) = ms_sent (run_state run n))"
  by (rule funding_reached [OF fundingI]) (use assms in auto)

text \<open>A run whose only receiver gets two GRT in the first turn.\<close>

definition demo_run_config :: escrow_config where
  "demo_run_config = (demo_config False)\<lparr>ec_withdraw_enabled := False\<rparr>"

lemma demo_run_config_simps [simp]:
  "ec_balance_fill_factor demo_run_config = Fin (1 / 2)" "\<not> ec_dry_run demo_run_config"
  "\<not> ec_withdraw_enabled demo_run_config" "ec_debts demo_run_config = Map.empty"
  by (simp_all add: demo_run_config_def demo_config_def)

definition demo_accounts :: "nat \<Rightarrow> (address \<times> escrow_account) list" where
  "demo_accounts i = (if i = 0 then [] else [(7, \<lparr>balance = 2 * GRT, thawing = 0, thaw_end_timestamp = 0\<rparr>)])"

definition demo_run_env :: "nat \<Rightarrow> cycle_env" where
  "demo_run_env i = (demo_env 0)\<lparr>ce_accounts := \<lambda>_. Inr (demo_accounts i),
     ce_allocations := \<lambda>_. Inr [\<lparr>alloc_id = 9, alloc_indexer = 7\<rparr>], ce_ravs := [9 \<mapsto> 12]\<rparr>"

fun demo_run_state :: "nat \<Rightarrow> manager_state" where
  "demo_run_state 0 = demo_state"
| "demo_run_state (Suc i) =
     the (escrow_cycle demo_fmt demo_run_config demo_contracts (demo_run_env i) (demo_run_state i))"

definition demo_run :: funding_run where
  "demo_run = \<lparr>run_env = demo_run_env, run_state = demo_run_state, run_accounts = demo_accounts\<rparr>"

lemma demo_run_env_simps [simp]:
  "ce_allocations (demo_run_env i) b = Inr [\<lparr>alloc_id = 9, alloc_indexer = 7\<rparr>]"
  "ce_accounts (demo_run_env i) b = Inr (demo_accounts i)"
  "receivers_of [\<lparr>alloc_id = 9, alloc_indexer = 7\<rparr>] (demo_accounts i) = [7]"
  "debts_seen (demo_run_env i) [\<lparr>alloc_id = 9, alloc_indexer = 7\<rparr>] (demo_accounts i) = [(7, 12)]"
  by (simp_all add: demo_run_env_def demo_env_def receivers_of_def demo_accounts_def debts_seen_def
      debts_of_def indexer_ravs_def entry_or_default_def)

lemma demo_run_target: "target_of demo_run_config [(7, 12)] 7 = Some (2 * GRT)"
proof -
  have "next_balance 12 (Fin (1 / 2)) = Some (2 * GRT)" by code_simp
  then show ?thesis by (simp add: target_of_claimed claimed_debt_def)
qed

lemma demo_run_decided:
  "deposits_for (decided demo_run_config (demo_run_env i) [\<lparr>alloc_id = 9, alloc_indexer = 7\<rparr>] (demo_accounts i)) [7] =
     (if i = 0 then [(7, 2 * GRT)] else [])" (is "deposits_for ?act [7] = _")
proof -
  have "?act 7 = decide (account_of (demo_accounts i) 7) (2 * GRT) None"
    by (simp add: decided_def Let_def action_for_def demo_run_target reclaim_of_def debt_ready_def)
  also have "\<dots> = (if i = 0 then Deposit (2 * GRT) else NoAction)"
  proof -
    have "decide default_account (2 * GRT) None = Deposit (2 * GRT)"
      "decide \<lparr>balance = 2 * GRT, thawing = 0, thaw_end_timestamp = 0\<rparr> (2 * GRT) None = NoAction" by code_simp+
    then show ?thesis by (simp add: demo_accounts_def account_of_def)
  qed
  finally show ?thesis by (simp add: plan_for_defs List.map_filter_simps)
qed

lemma demo_run_step:
  "\<exists>st'. escrow_cycle demo_fmt demo_run_config demo_contracts (demo_run_env i) st = Some st' \<and>
     ms_sent st' = ms_sent st @ (if i = 0 then [[DepositCall 12 7 (ucast (2 * GRT))]] else [])"
proof -
  let ?as = "[\<lparr>alloc_id = 9, alloc_indexer = 7\<rparr>]" and ?ds = "if i = 0 then [(7, 2 * GRT)] else []"
  have "capped [] = Some []" by (simp add: capped_def)
  with demo_capped have paid: "capped ?ds = Some ?ds" by simp
  obtain st' where st': "escrow_cycle demo_fmt demo_run_config demo_contracts (demo_run_env i) st = Some st'"
    using escrow_cycle_None [of "demo_run_env i" st ?as "demo_accounts i" demo_fmt demo_run_config demo_contracts]
      demo_run_target demo_run_decided [of i] paid
    by auto
  have act: "decided demo_run_config (demo_run_env i) ?as (demo_accounts i) = action_for demo_run_config (demo_accounts i) [(7, 12)] None"
    by (simp add: decided_def Let_def reclaim_of_def debt_ready_def)
  have "distinct [7 :: address]" by simp
  note none = deposits_shortfall(2,3) [OF refl this, of demo_run_config "demo_accounts i" "[(7, 12)]"]
  from escrow_cycle_transactions [OF demo_run_env_simps(1,2) st'] demo_run_decided [of i] paid none
  have "ms_sent st' = ms_sent st @ (if i = 0 then [[DepositCall 12 7 (ucast (2 * GRT))]] else [])"
    by (auto simp: act transactions_def batch_def thaw_calls_def deposit_calls_def withdraw_calls_def
        demo_contracts_def contracts_new_def collector_of_def split: if_splits)
  with st' show ?thesis by blast
qed

lemma demo_funding_run:
  "is_funding_run demo_fmt demo_run_config demo_contracts [\<lparr>alloc_id = 9, alloc_indexer = 7\<rparr>] [(7, 12)] [7] demo_run"
proof -
  have "credited (drop (length (ms_sent (demo_run_state i))) (ms_sent (demo_run_state (Suc i))))
      (demo_accounts i) (demo_accounts (Suc i))" for i
  proof -
    have "drop (length (ms_sent (demo_run_state i))) (ms_sent (demo_run_state (Suc i))) =
        (if i = 0 then [[DepositCall 12 7 (ucast (2 * GRT))]] else [])"
      using demo_run_step [of i "demo_run_state i"] by auto
    then show ?thesis
      by (simp add: credited_def deposited_def demo_accounts_def account_of_def GRT_def default_account_def)
  qed
  moreover have "escrow_cycle demo_fmt demo_run_config demo_contracts (demo_run_env i) (demo_run_state i) =
      Some (demo_run_state (Suc i))" for i
    using demo_run_step [of i "demo_run_state i"] by auto
  ultimately show ?thesis
    unfolding is_funding_run_def demo_run_def by (simp del: demo_run_state.simps)
qed

theorem funding_completes_witness:
  "\<exists>n\<le>1. \<forall>i\<ge>n. ms_sent (run_state demo_run i) = ms_sent (run_state demo_run n)"
proof -
  let ?short = "shortfall demo_run_config [(7, 12)] (run_accounts demo_run 0)"
  have "?short 7 = 2000000000000000000"
    by (simp add: shortfall_def demo_run_target demo_run_def demo_accounts_def account_of_def default_account_def
        effective_def GRT_def)
  then have total: "(\<Sum>r\<in>set [7]. ?short r) \<le> 10000000000000000000000" by simp
  have "thawing (account_of (run_accounts demo_run 0) r) \<le> balance (account_of (run_accounts demo_run 0) r)" for r
    by (simp add: demo_run_def demo_accounts_def account_of_def default_account_def)
  moreover have "claimed_debt demo_run_config [(7, 12)] 7 = 12"
    by (simp add: claimed_debt_def)
  then have "of_int (uint (claimed_debt demo_run_config [(7, 12)] r)) \<le> (1 / 2 :: rat) * of_int (2 ^ 31 * wei)"
    if "r \<in> set [7]" for r using that by (simp add: wei_def)
  moreover have "(1 :: rat) / 2 ^ 50 \<le> 1 / 2" "(1 :: rat) / 2 \<le> 1" "length [7 :: address] < 5000" by simp_all
  ultimately obtain n where "n \<le> 2147483648" "(\<Sum>r\<in>set [7]. ?short r) \<le> 10000000000000000000000 \<longrightarrow> n \<le> 1"
    "\<forall>i\<ge>n. ms_sent (run_state demo_run i) = ms_sent (run_state demo_run n)"
    using funding_completes [OF demo_funding_run demo_run_config_simps(1) _ _ _ _ _ _ _] by (metis demo_run_config_simps(2,3))
  with total show ?thesis by blast
qed

text \<open>C9. While the debts, the allocations and the receivers stand still and the queries
  succeed, idle escrow comes back: if reclaiming is enabled and the debts are trusted (not all of
  them are zero), the accounts hold their targets net of what is thawing, every transaction that is
  sent takes effect, and every thaw matures at some turn that can read the time of the chain, then
  from some turn on nothing is sent any more, nothing is thawing, and every account holds its target
  and no excess over the margin that is worth a thaw. Turns that cannot read the time are allowed.
  This is for settings that the start accepts, without the dry run, with a fill factor of at least
  2^-50 and debts up to that share of 2^31 GRT.\<close>

theorem reclaim_completes:
  assumes "is_reclaim_run F config ct allocations debts rs run"
    and "check_settings (ec_balance_fill_factor config) (ec_withdraw_margin config) = Inr ()"
    and "ec_balance_fill_factor config = Fin f" and "1 / 2 ^ 50 \<le> f"
    and "\<And>r. r \<in> set rs \<Longrightarrow> of_int (uint (claimed_debt config debts r)) \<le> f * of_int (2 ^ 31 * wei)"
    and "\<not> ec_dry_run config" and "ec_withdraw_enabled config" and "debt_ready debts"
    and "\<And>r. r \<in> set rs \<Longrightarrow> thawing (account_of (run_accounts run 0) r) \<le> balance (account_of (run_accounts run 0) r) \<and>
      unat (run_target config debts r) \<le> effective (account_of (run_accounts run 0) r)"
    and "\<And>r i. r \<in> set rs \<Longrightarrow> 0 < thawing (account_of (run_accounts run i) r) \<Longrightarrow>
      thaw_end_timestamp (account_of (run_accounts run i) r) \<noteq> 0 \<and>
      (\<exists>j\<ge>i. \<exists>now. ce_latest_block_timestamp (run_env run j) = Inr now \<and>
         thaw_end_timestamp (account_of (run_accounts run i) r) < now)"
  shows "\<exists>n. \<forall>i\<ge>n. ms_sent (run_state run i) = ms_sent (run_state run n) \<and>
    (\<forall>r\<in>set rs. thawing (account_of (run_accounts run i) r) = 0 \<and>
       unat (run_target config debts r) \<le> unat (balance (account_of (run_accounts run i) r)) \<and>
       (unat (balance (account_of (run_accounts run i) r)) \<le>
          unat (run_target config debts r) +
          unat (run_target config debts r) div 10000 * unat (withdraw_margin_bps (ec_withdraw_margin config)) \<or>
        unat (balance (account_of (run_accounts run i) r)) <
          unat (run_target config debts r) +
          unat (run_target config debts r) div 10000 * unat (withdraw_margin_bps (ec_withdraw_margin config)) +
          unat (min_withdraw_of (ec_min_withdraw_grt config))))"
proof -
  have "\<exists>j\<ge>i. matured (account_of (run_accounts run i) r) (Some (run_reclaim config run j))"
    if r: "r \<in> set rs" and thaw: "0 < thawing (account_of (run_accounts run i) r)" for r i
    using assms(10) [OF r thaw] thaw by (fastforce simp: matured_def run_reclaim_def)
  moreover have "keep_floor (run_target config debts r) (run_reclaim config run i) < 2 ^ 128" if "r \<in> set rs" for r i
    by (rule keep_floor_bound [OF assms(2-4) assms(5) [OF that]])
  ultimately have "reclaiming F config ct allocations debts rs run"
    unfolding reclaiming_def using assms(1,6-9) by blast
  from reclaiming_ends [OF this] show ?thesis by (simp add: reclaimed_def keep_floor_def run_reclaim_def)
qed

text \<open>A run whose only receiver holds 1000 GRT for a target of two: 997.5 GRT are thawed in the first
  turn and withdrawn in the third.\<close>

definition demo_thaw :: u128 where "demo_thaw = 997500000000000000000"

definition demo_rich :: "nat \<Rightarrow> (address \<times> escrow_account) list" where
  "demo_rich i = [(7,
     if i = 0 then \<lparr>balance = 1000 * GRT, thawing = 0, thaw_end_timestamp = 0\<rparr>
     else if i \<le> 2 then \<lparr>balance = 1000 * GRT, thawing = demo_thaw, thaw_end_timestamp = 5000\<rparr>
     else \<lparr>balance = 1000 * GRT - demo_thaw, thawing = 0, thaw_end_timestamp = 0\<rparr>)]"

definition demo_rich_env :: "nat \<Rightarrow> cycle_env" where
  "demo_rich_env i = (demo_run_env 0)\<lparr>ce_accounts := \<lambda>_. Inr (demo_rich i),
     ce_latest_block_timestamp := if i = 1 then Inl [] else if i = 0 then Inr 1000 else Inr 6000\<rparr>"

fun demo_rich_state :: "nat \<Rightarrow> manager_state" where
  "demo_rich_state 0 = demo_state"
| "demo_rich_state (Suc i) =
     the (escrow_cycle demo_fmt (demo_config False) demo_contracts (demo_rich_env i) (demo_rich_state i))"

definition demo_rich_run :: reclaim_run where
  "demo_rich_run = \<lparr>run_env = demo_rich_env, run_state = demo_rich_state, run_accounts = demo_rich,
     run_thaw_end = \<lambda>_ _. 5000\<rparr>"

lemma demo_rich_simps [simp]:
  "ce_allocations (demo_rich_env i) b = Inr [\<lparr>alloc_id = 9, alloc_indexer = 7\<rparr>]"
  "ce_accounts (demo_rich_env i) b = Inr (demo_rich i)"
  "receivers_of [\<lparr>alloc_id = 9, alloc_indexer = 7\<rparr>] (demo_rich i) = [7]"
  "debts_seen (demo_rich_env i) [\<lparr>alloc_id = 9, alloc_indexer = 7\<rparr>] (demo_rich i) = [(7, 12)]"
  "claimed_debt (demo_config False) [(7, 12)] 7 = 12"
  "ce_latest_block_timestamp (demo_rich_env i) = (if i = 1 then Inl [] else if i = 0 then Inr 1000 else Inr 6000)"
  "ec_withdraw_enabled (demo_config dry)" "ec_withdraw_margin (demo_config dry) = Fin (1 / 4)"
  "ec_min_withdraw_grt (demo_config dry) = 500"
  by (simp_all add: demo_rich_env_def demo_run_env_def demo_env_def receivers_of_def demo_rich_def debts_seen_def
      debts_of_def indexer_ravs_def entry_or_default_def claimed_debt_def demo_config_def)

lemma demo_rich_target: "target_of (demo_config False) [(7, 12)] 7 = Some (2 * GRT)"
proof -
  have "next_balance 12 (Fin (1 / 2)) = Some (2 * GRT)" by code_simp
  then show ?thesis by (simp add: target_of_claimed)
qed

lemma demo_rich_decided:
  "decided (demo_config False) (demo_rich_env i) [\<lparr>alloc_id = 9, alloc_indexer = 7\<rparr>] (demo_rich i) 7 =
     (if i = 0 then Thaw demo_thaw else if i = 2 then Withdraw else NoAction)"
proof -
  let ?r = "\<lambda>now. Some \<lparr>chain_now = now, margin_bps = 2500, min_withdraw = 500 * GRT\<rparr>"
  have settings: "withdraw_margin_bps (Fin (1 / 4)) = 2500" "min_withdraw_of 500 = 500 * GRT" by code_simp+
  have "decided (demo_config False) (demo_rich_env i) [\<lparr>alloc_id = 9, alloc_indexer = 7\<rparr>] (demo_rich i) 7 =
      decide (account_of (demo_rich i) 7) (2 * GRT)
        (?r (if i = 1 then None else if i = 0 then Some 1000 else Some 6000))"
    by (simp add: decided_def Let_def action_for_def demo_rich_target reclaim_of_def debt_ready_def settings)
  also have "\<dots> = (if i = 0 then Thaw demo_thaw else if i = 2 then Withdraw else NoAction)"
  proof -
    have "decide \<lparr>balance = 1000 * GRT, thawing = 0, thaw_end_timestamp = 0\<rparr> (2 * GRT) (?r (Some 1000)) = Thaw demo_thaw"
      "decide \<lparr>balance = 1000 * GRT, thawing = demo_thaw, thaw_end_timestamp = 5000\<rparr> (2 * GRT) (?r None) = NoAction"
      "decide \<lparr>balance = 1000 * GRT, thawing = demo_thaw, thaw_end_timestamp = 5000\<rparr> (2 * GRT) (?r (Some 6000)) = Withdraw"
      "decide \<lparr>balance = 1000 * GRT - demo_thaw, thawing = 0, thaw_end_timestamp = 0\<rparr> (2 * GRT) (?r (Some 6000)) = NoAction"
      by code_simp+
    moreover consider "i = 0" | "i = 1" | "i = 2" | "2 < i" by linarith
    ultimately show ?thesis by cases (simp_all add: demo_rich_def account_of_def entry_or_default_def)
  qed
  finally show ?thesis .
qed

lemma demo_rich_step:
  "\<exists>st'. escrow_cycle demo_fmt (demo_config False) demo_contracts (demo_rich_env i) st = Some st' \<and>
     ms_sent st' = ms_sent st @ (if i = 0 then [[ThawCall 12 7 (ucast demo_thaw)]]
       else if i = 2 then [[WithdrawCall 12 7]] else [])"
proof -
  let ?as = "[\<lparr>alloc_id = 9, alloc_indexer = 7\<rparr>]"
  let ?act = "decided (demo_config False) (demo_rich_env i) ?as (demo_rich i)"
  have paid: "capped [] = Some []" by (simp add: capped_def)
  have plan: "deposits_for ?act [7] = []" "thaws_for ?act [7] = (if i = 0 then [(7, demo_thaw)] else [])"
    "withdrawals_for ?act [7] = (if i = 2 then [7] else [])"
    using demo_rich_decided [of i] by (simp_all add: plan_for_defs List.map_filter_simps)
  obtain st' where st': "escrow_cycle demo_fmt (demo_config False) demo_contracts (demo_rich_env i) st = Some st'"
    using escrow_cycle_None [of "demo_rich_env i" st ?as "demo_rich i" demo_fmt "demo_config False" demo_contracts]
      demo_rich_target plan(1) paid by auto
  from escrow_cycle_transactions [OF demo_rich_simps(1,2) st'] plan paid
  have "ms_sent st' = ms_sent st @ (if i = 0 then [[ThawCall 12 7 (ucast demo_thaw)]]
      else if i = 2 then [[WithdrawCall 12 7]] else [])"
    by (auto simp: transactions_def batch_def thaw_calls_def deposit_calls_def withdraw_calls_def
        demo_contracts_def contracts_new_def collector_of_def split: if_splits)
  with st' show ?thesis by blast
qed

lemma demo_reclaim_run:
  "is_reclaim_run demo_fmt (demo_config False) demo_contracts [\<lparr>alloc_id = 9, alloc_indexer = 7\<rparr>] [(7, 12)] [7] demo_rich_run"
proof -
  have "ucast (ucast demo_thaw :: 256 word) = demo_thaw" by (simp add: demo_thaw_def)
  moreover have "drop (length (ms_sent (demo_rich_state i))) (ms_sent (demo_rich_state (Suc i))) =
      (if i = 0 then [[ThawCall 12 7 (ucast demo_thaw)]] else if i = 2 then [[WithdrawCall 12 7]] else [])" for i
    using demo_rich_step [of i "demo_rich_state i"] by auto
  ultimately have "executed (\<lambda>_. 5000) (drop (length (ms_sent (demo_rich_state i))) (ms_sent (demo_rich_state (Suc i))))
      (demo_rich i) (demo_rich (Suc i))" for i
    by (auto simp: executed_def demo_rich_def account_of_def entry_or_default_def)
  moreover have "escrow_cycle demo_fmt (demo_config False) demo_contracts (demo_rich_env i) (demo_rich_state i) =
      Some (demo_rich_state (Suc i))" for i
    using demo_rich_step [of i "demo_rich_state i"] by auto
  ultimately show ?thesis
    unfolding is_reclaim_run_def demo_rich_run_def by (simp del: demo_rich_state.simps)
qed

theorem reclaim_completes_witness:
  "\<exists>n. \<forall>i\<ge>n. ms_sent (run_state demo_rich_run i) = ms_sent (run_state demo_rich_run n) \<and>
     thawing (account_of (run_accounts demo_rich_run i) 7) = 0"
proof -
  let ?c = "demo_config False" and ?a = "\<lambda>i. account_of (run_accounts demo_rich_run i)"
  have "check_settings (Fin (1 / 2)) (Fin (1 / 4)) = Inr ()" by code_simp
  then have settings: "check_settings (ec_balance_fill_factor ?c) (ec_withdraw_margin ?c) = Inr ()" by simp
  have fill: "ec_balance_fill_factor ?c = Fin (1 / 2)" "(1 :: rat) / 2 ^ 50 \<le> 1 / 2" by simp_all
  have debts: "of_int (uint (claimed_debt ?c [(7, 12)] r)) \<le> (1 / 2 :: rat) * of_int (2 ^ 31 * wei)"
    if "r \<in> set [7]" for r using that by (simp add: wei_def)
  have on: "\<not> ec_dry_run ?c" "ec_withdraw_enabled ?c" "debt_ready [(7, 12)]" by (simp_all add: debt_ready_def)
  have covered: "thawing (?a 0 r) \<le> balance (?a 0 r) \<and> unat (run_target ?c [(7, 12)] r) \<le> effective (?a 0 r)"
    if "r \<in> set [7]" for r
    using that demo_rich_target
    by (simp add: demo_rich_run_def demo_rich_def account_of_def entry_or_default_def effective_def GRT_def)
  have matures: "thaw_end_timestamp (?a i r) \<noteq> 0 \<and>
      (\<exists>j\<ge>i. \<exists>now. ce_latest_block_timestamp (run_env demo_rich_run j) = Inr now \<and> thaw_end_timestamp (?a i r) < now)"
    if "r \<in> set [7]" "0 < thawing (?a i r)" for r i
    using that
    by (auto simp: demo_rich_run_def demo_rich_def account_of_def entry_or_default_def
        split: if_splits intro!: exI [of _ "i + 2"])
  from reclaim_completes [OF demo_reclaim_run settings fill debts on covered matures] show ?thesis
    by auto
qed

section \<open>The window of receipt values\<close>

text \<open>The task behind \<open>spawn\<close> over a sequence of turns, and the updates it has taken in.\<close>

definition db_run :: "datetime \<Rightarrow> (datetime \<times> update list) list \<Rightarrow> db_task" where
  "db_run start turns = fold (\<lambda>(now, buffer). db_turn now buffer) turns (db_spawn start)"

definition taken_in :: "(datetime \<times> update list) list \<Rightarrow> update list" where
  "taken_in turns = concat (map (\<lambda>(now, buffer). log_accept now buffer) turns)"

lemma hourly_timestamp_mono:
  assumes "t \<le> t'"
  shows "hourly_timestamp t \<le> hourly_timestamp t'"
proof -
  have "dt_timestamp t \<le> dt_timestamp t'" using assms by (simp add: dt_timestamp_def zdiv_mono1 nanos_def)
  moreover have "s - s smod 3600 = (if 0 \<le> s then 3600 * (s div 3600) else - (3600 * (- s div 3600)))" for s :: int
  proof -
    have "- s mod 3600 = - s - 3600 * (- s div 3600)" and "s mod 3600 = s - 3600 * (s div 3600)"
      using mult_div_mod_eq [of 3600 "- s"] mult_div_mod_eq [of 3600 s] by linarith+
    then show ?thesis by (simp add: signed_modulo_int_def abs_if sgn_if)
  qed
  moreover have "3600 * (s div 3600) \<le> 3600 * (s' div 3600)" if "s \<le> s'" for s s' :: int
    using that by (simp add: zdiv_mono1)
  ultimately show ?thesis unfolding hourly_timestamp_def Let_def
    by (smt (verit) pos_imp_zdiv_nonneg_iff)
qed

lemma log_total_prune:
  assumes "\<And>h. P h \<Longrightarrow> hourly_timestamp (now - window) < h"
  shows "log_total (log_prune now kept) i P = log_total kept i P"
proof -
  have "filter (\<lambda>u. upd_indexer u = i \<and> P (upd_hour u)) (log_prune now kept) =
      filter (\<lambda>u. upd_indexer u = i \<and> P (upd_hour u)) kept"
    unfolding log_prune_def filter_filter using assms by (intro filter_cong) auto
  then show ?thesis by (simp only: log_total_def)
qed

text \<open>At all times the database represents a log that agrees with everything taken in on the hours
  that the last turn's pruning would keep.\<close>

lemma db_run_represents:
  assumes "sorted (map fst turns)"
  shows "\<exists>kept. represents (task_db (db_run start turns)) kept \<and>
    (\<forall>i P. (\<forall>h now. P h \<and> now \<in> set (map fst turns) \<longrightarrow> hourly_timestamp (now - window) < h) \<longrightarrow>
       log_total kept i P = log_total (taken_in turns) i P)"
  using assms
proof (induction turns rule: rev_induct)
  case Nil
  then show ?case using represents_new by (auto simp: db_run_def db_spawn_def taken_in_def)
next
  case (snoc turn turns)
  obtain now buffer where turn: "turn = (now, buffer)" by (cases turn)
  from snoc obtain kept where kept: "represents (task_db (db_run start turns)) kept"
    "\<And>i P. (\<forall>h now. P h \<and> now \<in> set (map fst turns) \<longrightarrow> hourly_timestamp (now - window) < h) \<Longrightarrow>
       log_total kept i P = log_total (taken_in turns) i P"
    by (auto simp: sorted_append)
  let ?publish = "nanos \<le> now - last_snapshot (db_run start turns)"
  have "log_total (log_turn now ?publish buffer kept) i P = log_total (taken_in (turns @ [turn])) i P"
    if P: "\<forall>h n. P h \<and> n \<in> set (map fst (turns @ [turn])) \<longrightarrow> hourly_timestamp (n - window) < h" for i P
    using P kept(2) [of P i]
    by (simp add: log_turn_def Let_def log_total_prune log_total_append taken_in_def turn)
  with db_turn_refines(1) [OF kept(1), of now buffer] show ?case
    by (auto simp: db_run_def turn)
qed

text \<open>C12. With a clock that does not go back, the snapshot that the database publishes is, for each
  indexer, the sum of the fees of all updates that were not older than the window when they arrived
  and whose hour is still inside it: whatever the order of the updates, the turns they arrived in and
  the pruning in between.\<close>

theorem receipt_window_total:
  assumes "sorted (map fst (turns @ [(now, buffer)]))"
    and "nanos \<le> now - last_snapshot (db_run start turns)"
  shows "entry_or_default 0 (watched (db_run start (turns @ [(now, buffer)]))) indexer =
    log_total (taken_in (turns @ [(now, buffer)])) indexer (\<lambda>h. hourly_timestamp (now - window) < h)"
proof -
  from assms(1) have times: "sorted (map fst turns)" "\<And>n. n \<in> set (map fst turns) \<Longrightarrow> n \<le> now"
    by (auto simp: sorted_append)
  obtain kept where kept: "represents (task_db (db_run start turns)) kept"
    "\<And>i P. (\<forall>h n. P h \<and> n \<in> set (map fst turns) \<longrightarrow> hourly_timestamp (n - window) < h) \<Longrightarrow>
       log_total kept i P = log_total (taken_in turns) i P"
    using db_run_represents [OF times(1), of start] by blast
  let ?P = "\<lambda>h. hourly_timestamp (now - window) < h"
  have old: "log_total kept indexer ?P = log_total (taken_in turns) indexer ?P"
  proof (rule kept(2), intro allI impI)
    fix h n assume "hourly_timestamp (now - window) < h \<and> n \<in> set (map fst turns)"
    moreover from this have "hourly_timestamp (n - window) \<le> hourly_timestamp (now - window)"
      by (intro hourly_timestamp_mono) (simp only: diff_right_mono times(2))
    ultimately show "hourly_timestamp (n - window) < h" by linarith
  qed
  have "entry_or_default 0 (watched (db_run start (turns @ [(now, buffer)]))) indexer =
      log_total (log_turn now True buffer kept) indexer (\<lambda>_. True)"
    using db_turn_refines(2) [OF kept(1) assms(2), of buffer indexer] by (simp add: db_run_def)
  also have "\<dots> = log_total (kept @ log_accept now buffer) indexer ?P"
    unfolding log_turn_def Let_def log_total_def log_prune_def by (simp add: conj_commute)
  also have "\<dots> = log_total (taken_in (turns @ [(now, buffer)])) indexer ?P"
    by (simp add: log_total_append old taken_in_def)
  finally show ?thesis .
qed

text \<open>Two turns: the second drops an update that is too old, adds one, and publishes.\<close>

theorem receipt_window_total_witness:
  "entry_or_default 0 (watched (db_run 0
     [(5000000 * nanos, [\<lparr>upd_timestamp = 4999000 * nanos, upd_indexer = 7, upd_fee = 30\<rparr>]),
      (5000002 * nanos, [\<lparr>upd_timestamp = 1000 * nanos, upd_indexer = 7, upd_fee = 50\<rparr>,
                         \<lparr>upd_timestamp = 5000001 * nanos, upd_indexer = 7, upd_fee = 4\<rparr>])])) 7 = 34"
proof -
  let ?first = "[(5000000 * nanos, [\<lparr>upd_timestamp = 4999000 * nanos, upd_indexer = 7, upd_fee = 30\<rparr>])]"
  let ?buffer = "[\<lparr>upd_timestamp = 1000 * nanos, upd_indexer = 7, upd_fee = 50\<rparr>,
    \<lparr>upd_timestamp = 5000001 * nanos, upd_indexer = 7, upd_fee = 4\<rparr>]"
  have "nanos \<le> 5000002 * nanos - last_snapshot (db_run 0 ?first)" by code_simp
  moreover have "sorted (map fst (?first @ [(5000002 * nanos, ?buffer)]))" by (simp add: nanos_def)
  moreover have "log_total (taken_in (?first @ [(5000002 * nanos, ?buffer)])) 7
      (\<lambda>h. hourly_timestamp (5000002 * nanos - window) < h) = 34"
    by code_simp
  ultimately show ?thesis
    using receipt_window_total [of ?first "5000002 * nanos" ?buffer 0 7] by simp
qed

section \<open>RAV values and catching up\<close>

text \<open>C34. After any sequence of messages the table holds, for each allocation, the greatest value of
  the well-formed records for it whose first part is an accepted signer, and nothing for an allocation
  without one.\<close>

theorem rav_table_greatest:
  "fold (process_rav_message F signers) msgs Map.empty allocation =
     (let vs = map rec_value (filter (\<lambda>r. rec_allocation r = allocation) (accepted_records F signers msgs)) in
      if vs = [] then None else Some (Max (set vs)))"
proof -
  let ?rs = "accepted_records F signers msgs"
  let ?vs = "map rec_value (filter (\<lambda>r. rec_allocation r = allocation) ?rs)"
  note found = fold_store_rav_value [of ?rs Map.empty allocation]
  show ?thesis
  proof (cases "?vs = []")
    case True
    then have "fold store_rav_value ?rs Map.empty allocation \<noteq> Some v" for v
      using found [of v] by (simp add: Let_def)
    with True show ?thesis by (auto simp: process_rav_messages not_Some_eq [symmetric])
  next
    case False
    then have "Max (set ?vs) \<in> set ?vs" by (metis Max_in List.finite_set set_empty)
    moreover have "\<forall>w\<in>set ?vs. w \<le> Max (set ?vs)" by simp
    ultimately have "fold store_rav_value ?rs Map.empty allocation = Some (Max (set ?vs))"
      using found [of "Max (set ?vs)"] by (simp add: Let_def)
    with False show ?thesis by (simp only: process_rav_messages Let_def if_False)
  qed
qed

text \<open>C37. Catching up never finishes when the last message of a partition lies before the cutoff: the
  loop skips such a message together with the test for the last offset, so the partition stays among
  the awaited ones whatever else arrives, and the manager does not reach its loop.\<close>

theorem skipped_partition_awaited:
  assumes "kc_aggregated_topic (ec_kafka config) = Some topic"
    and "kc_aggregated_cutoff_timestamp (ec_kafka config) = Some cutoff"
    and "kf_latest_messages (me_kafka env) topic = Inr latest"
    and "distinct (map fst latest)" and "(p, last_offset) \<in> set latest"
    and "\<And>msg payload fees. Inr msg \<in> set (me_messages env) \<Longrightarrow> am_partition msg = p \<Longrightarrow>
      am_offset msg = last_offset \<Longrightarrow> am_payload msg = Some payload \<Longrightarrow> me_decode env payload = Inr fees \<Longrightarrow>
      ih_timestamp fees < cutoff"
  shows "escrow_main F env (Inr config) events \<noteq> MainLoop started e"
  using receipts_consumer_awaits [OF assms(1-5), of "me_messages env" "me_decode env" "me_in_range env" "me_now env"
      "st_signers started"] assms(6)
  unfolding escrow_main_MainLoop_iff by blast

definition demo_catching_up :: escrow_config where
  "demo_catching_up = (demo_config True)
     \<lparr>ec_kafka := \<lparr>kc_config = Map.empty, kc_realtime_topic = ''queries'', kc_aggregated_topic = Some ''hours'',
        kc_aggregated_cutoff_timestamp = Some 20\<rparr>\<rparr>"

theorem skipped_partition_awaited_witness:
  "(\<exists>started. escrow_main demo_fmt demo_main (Inr demo_catching_up) [] = MainCatchingUp started) \<and>
   (\<forall>started e. escrow_main demo_fmt demo_main (Inr demo_catching_up) [] \<noteq> MainLoop started e)"
proof
  obtain started where "manager_startup demo_startup demo_catching_up = Inr started"
    unfolding demo_catching_up_def using demo_started(2) by blast
  then show "\<exists>started. escrow_main demo_fmt demo_main (Inr demo_catching_up) [] = MainCatchingUp started"
    by (simp add: escrow_main_def demo_main_def receipts_consumer_def or_failed_def bind_outcome_def
        demo_catching_up_def)
  show "\<forall>started e. escrow_main demo_fmt demo_main (Inr demo_catching_up) [] \<noteq> MainLoop started e"
    by (intro allI skipped_partition_awaited [where topic = "''hours''" and cutoff = 20 and latest = "[(''0'', 3)]"
          and p = "''0''" and last_offset = 3])
      (auto simp: demo_main_def demo_catching_up_def)
qed

text \<open>C38. Catching up panics on a late message: when all messages of a partition up to its last offset
  have arrived while another partition is still awaited, one more message of the partition that is not
  before the cutoff meets the \<open>unwrap\<close> of an offset that is no longer there.\<close>

theorem late_message_panics:
  assumes "bootstrap_loop decode in_range signers cutoff ms offsets latest sent =
      Returned (Inr (offsets', latest', sent'))"
    and "offsets' \<noteq> []" and "map_of offsets' (am_partition msg) = None"
    and "am_payload msg = Some payload" and "decode payload = Inr fees"
    and "\<And>c. cutoff = Some c \<Longrightarrow> c \<le> ih_timestamp fees"
    and "send_aggregations in_range signers (ih_timestamp fees) (ih_aggregations fees) sent' = Returned (Inr updates)"
  shows "bootstrap_loop decode in_range signers cutoff (ms @ [Inr msg]) offsets latest sent = Panicked"
proof -
  have "\<not> (case cutoff of Some c \<Rightarrow> ih_timestamp fees < c | None \<Rightarrow> False)"
    using assms(6) by (cases cutoff) auto
  with assms(3-5,7) have "bootstrap_loop decode in_range signers cutoff [Inr msg] offsets' latest' sent' = Panicked"
    by (simp add: Let_def bind_outcome_def)
  with bootstrap_loop_append [OF assms(1,2), of "[Inr msg]"] show ?thesis by simp
qed

theorem late_message_panics_witness:
  "bootstrap_loop (\<lambda>_. Inr \<lparr>ih_timestamp = 10, ih_aggregations = []\<rparr>) (\<lambda>_. True) [] None
     ([Inr \<lparr>am_partition = ''0'', am_offset = 3, am_payload = Some []\<rparr>] @
      [Inr \<lparr>am_partition = ''0'', am_offset = 4, am_payload = Some []\<rparr>]) [(''0'', 3), (''1'', 7)] 0 [] = Panicked"
proof -
  let ?decode = "\<lambda>_. Inr \<lparr>ih_timestamp = 10, ih_aggregations = []\<rparr>"
  let ?msg = "\<lparr>am_partition = ''0'', am_offset = 4, am_payload = Some []\<rparr>"
  have "bootstrap_loop ?decode (\<lambda>_. True) [] None [Inr \<lparr>am_partition = ''0'', am_offset = 3, am_payload = Some []\<rparr>]
      [(''0'', 3), (''1'', 7)] 0 [] = Returned (Inr ([(''1'', 7)], 10, []))"
    by (simp add: bind_outcome_def)
  from late_message_panics [OF this, of ?msg "[]" "\<lparr>ih_timestamp = 10, ih_aggregations = []\<rparr>"] show ?thesis by simp
qed

end
