(* ===== verification/Composition.thy ===== *)
theory Composition
  imports CoreProperties AggregatorProperties EscrowProperties
begin

text \<open>
  Where the components meet: a manager's request goes to the aggregation service and the RAV comes
  back to the manager; the record that the service publishes for a RAV is read by the escrow manager.
\<close>

section \<open>A request and its RAV\<close>

lemma request_batch:
  assumes "aggregate_checked valid prev = Inr expected"
  shows "batch_rav (map rx_receipt valid) prev = expected" and "valid \<noteq> []"
    and "prev_value prev + total_value (map rx_receipt valid) < 2 ^ 128"
proof -
  obtain f fs where valid: "valid = f # fs"
    using assms by (auto simp: aggregate_checked_def split: list.splits)
  have sr: "map signed_receipt valid = map rx_receipt valid" by (simp add: signed_receipt_def)
  from assms have "aggregate_receipts (rcpt_collection_id (message (rx_receipt f))) (rcpt_payer (message (rx_receipt f)))
      (rcpt_data_service (message (rx_receipt f))) (rcpt_service_provider (message (rx_receipt f)))
      (map rx_receipt valid) prev = Inr expected"
    unfolding aggregate_checked_def sr by (simp add: valid signed_receipt_def)
  then have *: "prev_value prev + total_value (map rx_receipt valid) < 2 ^ 128 \<and>
      batch_rav (map rx_receipt valid) prev = expected"
    unfolding aggregate_receipts_Inr_iff by (simp add: valid batch_rav_def)
  then show "batch_rav (map rx_receipt valid) prev = expected"
    and "prev_value prev + total_value (map rx_receipt valid) < 2 ^ 128" by simp_all
  show "valid \<noteq> []" by (simp add: valid)
qed

lemma request_is_valid_batch:
  assumes inv: "mem_inv c"
    and req: "create_rav_request in_memory_adapters (signed_receipt_ops (lib_crypto L)) rav_timestampNs
       aggregate_checked M since_epoch ctx buffer limit c = Inr req"
    and expected: "req_expected_rav req = Inr expected"
    and signed: "\<forall>v\<in>set (req_valid_receipts req).
       (\<exists>a\<in>A. recover_signer (lib_crypto L) (lib_receipt_hash L) d (rx_receipt v) = Inr a) \<and>
       same_channel (message (rx_receipt v)) (message (rx_receipt (hd (req_valid_receipts req))))"
    and prev: "\<forall>p. rav_storage c = Some p \<longrightarrow>
       (\<exists>a\<in>A. recover_signer (lib_crypto L) (lib_rav_hash L) d p = Inr a) \<and>
       continues_channel (message p) (message (rx_receipt (hd (req_valid_receipts req)))) \<and>
       rav_timestampNs (message p) < - 1"
  shows "valid_batch L d (map rx_receipt (req_valid_receipts req)) (rav_storage c) A"
proof -
  note run = mem.create_rav_request_Inr [OF inv req]
  have agg: "aggregate_checked (req_valid_receipts req) (rav_storage c) = Inr expected"
    using run(2) expected by simp
  have uid: "op_unique_id (signed_receipt_ops (lib_crypto L)) = (\<lambda>r. get_signature_bytes (lib_crypto L) (signature r))"
    by (simp add: signed_receipt_ops_def signed_message_ops_def)
  note valid = mem.collect_receipts_valid [OF inv graph.ops_ts [of "lib_crypto L"] run(3), unfolded uid]
  have hd: "hd (map rx_receipt (req_valid_receipts req)) = rx_receipt (hd (req_valid_receipts req))"
    using request_batch(2) [OF agg] by (simp add: hd_map)
  have "rav_timestampNs (message p) < rcpt_timestamp_ns (message (rx_receipt v))"
    if "rav_storage c = Some p" "v \<in> set (req_valid_receipts req)" for p v
  proof -
    have "rav_timestampNs (message p) < rav_timestampNs (message p) + 1"
      using prev that(1) by (simp add: less_succ)
    also have "\<dots> \<le> rcpt_timestamp_ns (message (rx_receipt v))"
      using valid(2) [OF that(2)] that(1) by (simp add: min_timestamp_after_def)
    finally show ?thesis .
  qed
  with valid(1) signed prev request_batch(3) [OF agg] show ?thesis
    unfolding valid_batch_def hd by (auto simp: comp_def)
qed

section \<open>Published RAVs as debts\<close>

text \<open>The message that a consumer of the RAV topic receives for a published RAV.\<close>

definition published_message :: "alloy_fmt \<Rightarrow> rav \<Rightarrow> rav_message" where
  "published_message F v =
     RavMessage (Some (fmt_address_debug F (rav_payer v) @ '':'' @ fmt_b256_debug F (rav_collectionId v)))
       (Some (show_word (rav_valueAggregate v)))"

text \<open>It is the record that the service hands to Kafka after a success.\<close>

lemma after_success_message:
  assumes "rpc_kafka impl = Some send" and "\<And>rec. is_ok (send rec)"
  shows "map (\<lambda>rec. RavMessage (Some (kr_key rec)) (Some (kr_payload rec))) (published (after_success F impl v grt n sv)) =
    map (\<lambda>rec. RavMessage (Some (kr_key rec)) (Some (kr_payload rec))) (published sv) @ [published_message F v]"
  by (simp add: after_success_published assms published_message_def Let_def)

definition collection_allocation :: "rav \<Rightarrow> address" where
  "collection_allocation v = ucast (rav_collectionId v)"

lemma table_has_published:
  assumes "address_text_law F" and "b256_text_law F"
    and "published_message F v \<in> set msgs" and "rav_payer v \<in> set signers"
  shows "\<exists>w. fold (process_rav_message F signers) msgs Map.empty (collection_allocation v) = Some w \<and>
    rav_valueAggregate v \<le> w"
proof -
  let ?rs = "accepted_records F signers msgs"
  let ?vs = "set (map rec_value (filter (\<lambda>r. rec_allocation r = collection_allocation v) ?rs))"
  let ?r = "\<lparr>rec_signer = rav_payer v, rec_allocation = collection_allocation v, rec_value = rav_valueAggregate v\<rparr>"
  have "?r \<in> set ?rs"
    using assms(3,4) parse_published_record [OF assms(1,2), of "rav_payer v" "rav_collectionId v" "rav_valueAggregate v"]
    by (force simp: accepted_records_def List.map_filter_def published_message_def collection_allocation_def)
  then have v: "rav_valueAggregate v \<in> ?vs" by force
  then have "Max ?vs \<in> ?vs" by (intro Max_in) auto
  then have "fold store_rav_value ?rs Map.empty (collection_allocation v) = Some (Max ?vs)"
    by (simp add: fold_store_rav_value Let_def)
  moreover have "rav_valueAggregate v \<le> Max ?vs" using v by (intro Max_ge) simp_all
  ultimately show ?thesis by (auto simp: process_rav_messages)
qed

lemma sum_set_le_sum_list: "sum g (set xs) \<le> sum_list (map (g :: 'a \<Rightarrow> nat) xs)"
proof (induction xs)
  case (Cons x xs)
  have "sum g (insert x (set xs)) \<le> g x + sum g (set xs)" by (simp add: sum.insert_if)
  with Cons show ?case by simp
qed simp

text \<open>RAVs of different allocations of a receiver are all part of its debt.\<close>

lemma ravs_within_debt:
  assumes "distinct (map collection_allocation vs)"
    and "\<And>v. v \<in> set vs \<Longrightarrow> \<lparr>alloc_id = collection_allocation v, alloc_indexer = r\<rparr> \<in> set allocations"
    and "\<And>v. v \<in> set vs \<Longrightarrow> \<exists>w. table (collection_allocation v) = Some w \<and> rav_valueAggregate v \<le> w"
  shows "sum_list (map (\<lambda>v. unat (rav_valueAggregate v)) vs) \<le> sum_list (map unat (rav_values table allocations r))"
proof -
  let ?g = "\<lambda>a. unat (case table (alloc_id a) of Some v \<Rightarrow> v | None \<Rightarrow> 0)"
  let ?a = "\<lambda>v. \<lparr>alloc_id = collection_allocation v, alloc_indexer = r\<rparr>"
  let ?as = "filter (\<lambda>a. alloc_indexer a = r) allocations"
  have dist: "distinct vs" "inj_on collection_allocation (set vs)" using assms(1) by (simp_all add: distinct_map)
  have "unat (rav_valueAggregate v) \<le> ?g (?a v)" if "v \<in> set vs" for v
    using assms(3) [OF that] by (auto simp: word_le_nat_alt)
  then have "sum_list (map (\<lambda>v. unat (rav_valueAggregate v)) vs) \<le> (\<Sum>v\<in>set vs. ?g (?a v))"
    using dist(1) by (simp add: sum_list_distinct_conv_sum_set sum_mono)
  also have "\<dots> = (\<Sum>a\<in>?a ` set vs. ?g a)"
    using dist(2) by (subst sum.reindex) (auto simp: inj_on_def)
  also have "\<dots> \<le> (\<Sum>a\<in>set ?as. ?g a)" using assms(2) by (intro sum_mono2) auto
  also have "\<dots> \<le> sum_list (map ?g ?as)" by (rule sum_set_le_sum_list)
  finally show ?thesis by (simp add: rav_values_def comp_def)
qed

end
