(* ===== verification/MetricsServers.thy ===== *)
theory MetricsServers
  imports Text
begin

text \<open>
  The HTTP servers of the metrics: \<open>metrics.rs\<close> of the aggregation service, and \<open>handle_metrics\<close>
  in the escrow manager's \<open>main.rs\<close>. The encoder of the Prometheus library and the web server are
  arguments: what the encoder returned, and how binding and serving ended.
\<close>

section \<open>The aggregation service\<close>

text \<open>\<open>encode_to_string\<close>, and the answer to a request for the metrics: the status and the body.\<close>

definition handler_metrics :: "string + string \<Rightarrow> nat \<times> string" where
  "handler_metrics encoded =
     (case encoded of
        Inr s \<Rightarrow> (200, s)
      | Inl e \<Rightarrow> (500, ''Error encoding metrics: '' @ e))"

definition handler_404 :: "nat \<times> string" where
  "handler_404 = (404, ''404 Not Found'')"

text \<open>The server as a task: it panics when the port cannot be bound or serving ends with an error.\<close>

definition run_metrics_task :: "string + 'l \<Rightarrow> ('l \<Rightarrow> string + unit) \<Rightarrow> unit outcome" where
  "run_metrics_task bound serve =
     (case bound of
        Inl _ \<Rightarrow> Panicked
      | Inr listener \<Rightarrow> (case serve listener of Inl _ \<Rightarrow> Panicked | Inr _ \<Rightarrow> Returned ()))"

text \<open>A panic of the task aborts the process instead of being ignored.\<close>

datatype task_end = TaskDone | ProcessAborted

definition run_metrics_server :: "string + 'l \<Rightarrow> ('l \<Rightarrow> string + unit) \<Rightarrow> task_end" where
  "run_metrics_server bound serve =
     (case run_metrics_task bound serve of Returned _ \<Rightarrow> TaskDone | Panicked \<Rightarrow> ProcessAborted)"

section \<open>The escrow manager\<close>

text \<open>\<open>encode\<close> writes into a buffer and may fail half-way; \<open>utf8\<close> is \<open>String::from_utf8\<close>. On an error
  the buffer gets a message, but the answer has an empty body.\<close>

definition handle_metrics ::
    "('b list \<Rightarrow> string option) \<Rightarrow> (string + unit) \<times> 'b list \<Rightarrow> (nat \<times> string) outcome" where
  "handle_metrics utf8 encoded =
     (case encoded of
        (Inl _, _) \<Rightarrow> Returned (500, [])
      | (Inr _, buffer) \<Rightarrow>
          (case utf8 buffer of Some body \<Rightarrow> Returned (200, body) | None \<Rightarrow> Panicked))"

section \<open>Lemmas\<close>

lemma run_metrics_server_done_iff:
  "run_metrics_server bound serve = TaskDone \<longleftrightarrow> (\<exists>l. bound = Inr l \<and> is_ok (serve l))"
  by (cases bound; simp add: run_metrics_server_def run_metrics_task_def is_ok_def split: sum.split)

text \<open>A failed encoding is reported with its text by one server, without it by the other.\<close>

lemma metrics_error_answers:
  "handler_metrics (Inl e) = (500, ''Error encoding metrics: '' @ e)"
  "handle_metrics utf8 (Inl e, buffer) = Returned (500, [])"
  by (simp_all add: handler_metrics_def handle_metrics_def)

end
