(* ===== verification/EscrowFunding.thy ===== *)
theory EscrowFunding
  imports EscrowReclaim
begin

text \<open>
  Turn after turn with debts to cover, whether the escrow manager reclaims or not: in a
  \<open>reclaim_run\<close> every receiver's account reaches its target and stays there. Until then each turn
  deposits at least two GRT or all that is missing, or withdraws what had been thawing, which does
  not change what the account holds for its debts and happens once.
\<close>

section \<open>One account\<close>

text \<open>A turn carries out the decided action; a deposit of \<open>x\<close> may have been scaled to \<open>p\<close>.\<close>

definition scaled_action :: "u128 \<Rightarrow> action \<Rightarrow> action" where
  "scaled_action p act = (case act of Deposit x \<Rightarrow> Deposit p | _ \<Rightarrow> act)"

text \<open>The distance to the target: what is missing, and two GRT for a withdrawal that may come first.\<close>

definition distance :: "u128 \<Rightarrow> escrow_account \<Rightarrow> nat" where
  "distance target account =
     (if unat target \<le> effective account then 0
      else unat target - effective account + (if thawing account = 0 then 0 else 2000000000000000000))"

definition sound_account :: "u128 \<Rightarrow> escrow_account \<Rightarrow> bool" where
  "sound_account target account \<longleftrightarrow> thawing account \<le> balance account \<and>
     (unat target \<le> effective account \<or> unat (thawing account) < 2 ^ 127)"

definition is_payment :: "u128 \<Rightarrow> u128 \<Rightarrow> bool" where
  "is_payment p x \<longleftrightarrow> (p = x \<or> 2000000000000000000 \<le> unat p) \<and> unat p \<le> max 2000000000000000000 (unat x)"

lemma covered_stays:
  assumes "thawing a \<le> balance a" and "unat target \<le> effective a"
    and "\<And>r. reclaim = Some r \<Longrightarrow> keep_floor target r < 2 ^ 128"
  shows "thawing (settled_account te target reclaim a) \<le> balance (settled_account te target reclaim a) \<and>
    unat target \<le> effective (settled_account te target reclaim a)"
proof (cases reclaim)
  case None
  with assms(2) have "decide a target reclaim = NoAction"
    by (intro decide_NoActionI) (simp_all add: matured_def)
  with assms(1,2) show ?thesis by (simp add: settled_account_def)
next
  case (Some r)
  with settled_covers(1,2) [OF assms(1,2) assms(3)] show ?thesis by simp
qed

lemma deposit_step:
  assumes le: "thawing a \<le> balance a" and low: "unat (thawing a) < 2 ^ 127"
    and t: "unat target \<le> 4294967296 * 1000000000000000000"
    and dep: "decide a target reclaim = Deposit x" and pay: "is_payment p x"
  shows "sound_account target (a\<lparr>balance := balance a + p\<rparr>) \<and>
    distance target (a\<lparr>balance := balance a + p\<rparr>) \<le> distance target a - 2000000000000000000"
proof -
  let ?a = "a\<lparr>balance := balance a + p\<rparr>"
  from dep have x: "effective a < unat target" "unat x = unat target - effective a"
    by (simp_all add: decide_Deposit_iff)
  have bal: "unat (balance a) = effective a + unat (thawing a)"
    using le by (simp add: effective_def word_le_nat_alt)
  have "unat p \<le> 4294967296 * 1000000000000000000" using pay x t by (auto simp: is_payment_def)
  moreover have "unat (balance a) < 4294967296 * 1000000000000000000 + 2 ^ 127" using bal x t low by linarith
  ultimately have "unat (balance a) + unat p < 2 ^ 128" by simp
  then have b: "unat (balance a + p) = unat (balance a) + unat p" by (simp add: unat_add_no_wrap)
  have "effective ?a = unat (balance a + p) - unat (thawing a)" by (simp add: effective_def)
  with b bal have e: "effective ?a = effective a + unat p" by linarith
  have "unat (thawing a) \<le> unat (balance a + p)" using b bal by linarith
  then have "thawing ?a \<le> balance ?a" by (simp add: word_le_nat_alt)
  with low have "sound_account target ?a" by (simp add: sound_account_def)
  moreover have "distance target ?a \<le> distance target a - 2000000000000000000"
    using pay x by (auto simp: distance_def e is_payment_def)
  ultimately show ?thesis ..
qed

lemma withdraw_step:
  assumes "thawing a \<le> balance a" and "effective a < unat target" and "thawing a \<noteq> 0"
  shows "sound_account target (apply_action te Withdraw a) \<and>
    distance target (apply_action te Withdraw a) \<le> distance target a - 2000000000000000000"
proof -
  have "unat (balance a - thawing a) = effective a"
    using assms(1) by (simp add: unat_sub effective_def)
  then have "effective (apply_action te Withdraw a) = effective a" by (simp add: effective_def)
  with assms(2,3) show ?thesis by (simp add: sound_account_def distance_def)
qed

text \<open>Each turn brings the account nearer to its target, or keeps it there.\<close>

lemma account_step:
  fixes te :: u64
  assumes sound: "sound_account target a"
    and t: "unat target \<le> 4294967296 * 1000000000000000000"
    and floor: "\<And>r. reclaim = Some r \<Longrightarrow> keep_floor target r < 2 ^ 128"
    and pay: "\<And>x. decide a target reclaim = Deposit x \<Longrightarrow> is_payment p x"
  defines "a' \<equiv> apply_action te (scaled_action p (decide a target reclaim)) a"
  shows "sound_account target a' \<and> distance target a' \<le> distance target a - 2000000000000000000"
proof (cases "unat target \<le> effective a")
  case True
  then have "decide a target reclaim \<noteq> Deposit x" for x by (simp add: decide_Deposit_iff)
  then have "a' = settled_account te target reclaim a"
    by (simp add: a'_def settled_account_def scaled_action_def split: action.split)
  with covered_stays [OF _ True floor] sound show ?thesis by (simp add: sound_account_def distance_def)
next
  case False
  with sound have le: "thawing a \<le> balance a" and low: "unat (thawing a) < 2 ^ 127"
    by (simp_all add: sound_account_def)
  show ?thesis
  proof (cases "decide a target reclaim")
    case (Deposit x)
    with deposit_step [OF le low t Deposit pay [OF Deposit]] show ?thesis by (simp add: a'_def scaled_action_def)
  next
    case Withdraw
    then have "thawing a \<noteq> 0" by (auto simp: decide_Withdraw_iff matured_def)
    with withdraw_step [OF le] False Withdraw show ?thesis by (simp add: a'_def scaled_action_def)
  next
    case NoAction
    with decide_NoAction_covers False show ?thesis by blast
  next
    case (Thaw x)
    then obtain r where "reclaim = Some r" by (cases reclaim) (simp_all add: decide_None)
    with Thaw False floor show ?thesis by (auto simp: decide_Thaw_iff keep_floor_def effective_def word_less_nat_alt)
  qed
qed

section \<open>The transactions of a turn\<close>

lemma deposit_effects:
  assumes "distinct (map fst paid)"
  shows "fold (call_effect te r) (deposit_calls ct paid) a =
    (case map_of paid r of None \<Rightarrow> a | Some x \<Rightarrow> a\<lparr>balance := balance a + x\<rparr>)"
  using assms
proof (induction paid arbitrary: a)
  case (Cons p paid)
  obtain q x where p: "p = (q, x)" by (cases p)
  have "ucast (ucast x :: 256 word) = x" by transfer simp
  moreover have "map_of paid q = None" using Cons.prems by (simp add: p map_of_eq_None_iff)
  ultimately show ?case using Cons by (auto simp: p deposit_calls_def)
qed (simp add: deposit_calls_def)

lemma map_of_thaws:
  assumes "distinct rs" and "r \<in> set rs"
  shows "map_of (thaws_for act rs) r = (case act r of Thaw x \<Rightarrow> Some x | _ \<Rightarrow> None)"
proof (cases "act r")
  case (Thaw x)
  with assms(2) have "(r, x) \<in> set (thaws_for act rs)" by (simp add: thaws_for_set)
  with assms(1) Thaw show ?thesis by (simp add: plan_receivers)
qed (use thaws_for_set in \<open>auto simp: map_of_eq_None_iff\<close>)

text \<open>Together, the transactions of a turn carry out each receiver's action, with its payment.\<close>

lemma transactions_effects:
  assumes rs: "distinct rs" and r: "r \<in> set rs" and paid: "map fst paid = map fst (deposits_for act rs)"
  shows "fold (call_effect te r)
      (thaw_calls ct (thaws_for act rs) @ deposit_calls ct paid @ withdraw_calls ct (withdrawals_for act rs)) a =
    apply_action te (scaled_action (the (map_of paid r)) (act r)) a"
proof -
  have d: "distinct (map fst (thaws_for act rs))" "distinct (map fst paid)" "distinct (withdrawals_for act rs)"
    unfolding paid using rs by (simp_all add: plan_receivers withdrawals_for_def)
  have "fst ` set paid = {q \<in> set rs. case act q of Deposit _ \<Rightarrow> True | _ \<Rightarrow> False}"
    using arg_cong [OF paid, of set] by (simp add: plan_receivers)
  then have keys: "map_of paid r = None \<longleftrightarrow> (\<forall>x. act r \<noteq> Deposit x)"
    using r by (simp add: map_of_eq_None_iff split: action.split)
  have w: "r \<in> set (withdrawals_for act rs) \<longleftrightarrow> act r = Withdraw" using r by (simp add: withdrawals_for_def)
  note effects = thaw_effects [OF d(1)] deposit_effects [OF d(2)] withdraw_effects [OF d(3)]
  show ?thesis
  proof (cases "map_of paid r")
    case None
    with keys have "act r \<noteq> Deposit x" for x by blast
    with None show ?thesis
      by (cases "act r") (auto simp: effects map_of_thaws [OF rs r] w scaled_action_def)
  next
    case (Some p)
    with keys obtain x where "act r = Deposit x" by auto
    with Some show ?thesis by (simp add: effects map_of_thaws [OF rs r] w scaled_action_def)
  qed
qed

text \<open>A payment of a turn is the deposit that was decided, or a scaled one.\<close>

lemma paid_is_payment:
  assumes targets: "\<And>r. r \<in> set rs \<Longrightarrow> \<exists>n :: u32. target_of config debts r = Some (ucast n * GRT)"
    and act: "act = action_for config accounts debts reclaim" and rs: "distinct rs" "length rs < 5000"
    and paid: "capped (deposits_for act rs) = Some paid" and r: "r \<in> set rs" and dep: "act r = Deposit x"
    and keys: "map fst paid = map fst (deposits_for act rs)"
  shows "is_payment (the (map_of paid r)) x"
proof -
  from r dep have mem: "(r, x) \<in> set (deposits_for act rs)" by (simp add: deposits_for_set)
  then have r': "r \<in> fst ` set (deposits_for act rs)" by force
  have "distinct (map fst (deposits_for act rs))" using rs(1) by (simp add: plan_receivers)
  with mem have x: "table_value (deposits_for act rs) r = unat x" by (simp add: table_value_def)
  note bounds = capped_pays [OF targets act rs paid r', unfolded x]
  have "r \<in> fst ` set paid" using r' arg_cong [OF keys, of set] by simp
  then obtain p where "map_of paid r = Some p" by (metis map_of_eq_None_iff not_Some_eq)
  then show ?thesis
    using bounds by (simp add: is_payment_def table_value_def word_unat_eq_iff)
qed

section \<open>A run\<close>

text \<open>What the lemmas assume of a run: the targets exist and the floors above them do not overflow, the
  transactions are really sent, and no account has more thawing than it holds or absurdly much.\<close>

definition paying ::
    "alloy_fmt \<Rightarrow> escrow_config \<Rightarrow> contracts \<Rightarrow> allocation list \<Rightarrow> (address \<times> u128) list \<Rightarrow> address list
       \<Rightarrow> reclaim_run \<Rightarrow> bool" where
  "paying F config ct allocations debts rs run \<longleftrightarrow>
     is_reclaim_run F config ct allocations debts rs run \<and>
     (\<forall>r\<in>set rs. \<exists>n :: u32. target_of config debts r = Some (ucast n * GRT)) \<and>
     (\<forall>r\<in>set rs. \<forall>i. keep_floor (run_target config debts r) (run_reclaim config run i) < 2 ^ 128) \<and>
     length rs < 5000 \<and> \<not> ec_dry_run config \<and>
     (\<forall>r\<in>set rs. thawing (account_of (run_accounts run 0) r) \<le> balance (account_of (run_accounts run 0) r) \<and>
        unat (thawing (account_of (run_accounts run 0) r)) < 2 ^ 127)"

lemma payingD:
  assumes "paying F config ct allocations debts rs run"
  shows "is_reclaim_run F config ct allocations debts rs run"
    and "\<And>r. r \<in> set rs \<Longrightarrow> \<exists>n :: u32. target_of config debts r = Some (ucast n * GRT)"
    and "\<And>r i. r \<in> set rs \<Longrightarrow> keep_floor (run_target config debts r) (run_reclaim config run i) < 2 ^ 128"
    and "length rs < 5000" and "\<not> ec_dry_run config"
    and "distinct rs" and "sorted rs"
  using assms by (auto simp: paying_def is_reclaim_run_def receivers_of_def)

lemma paying_target:
  assumes pay: "paying F config ct allocations debts rs run" and r: "r \<in> set rs"
  shows "unat (run_target config debts r) \<le> 4294967296 * 1000000000000000000"
proof -
  obtain k :: u32 where k: "target_of config debts r = Some (ucast k * GRT)"
    using payingD(2) [OF pay r] by blast
  have "unat (ucast k * GRT) = nat (uint k * wei)" by (simp flip: uint_whole_grt)
  moreover have "uint k < 4294967296" using uint_bounded [of k] by simp
  ultimately show ?thesis using k by (simp add: wei_def)
qed

text \<open>The reclaim settings of a turn, if any.\<close>

abbreviation turn_reclaim :: "escrow_config \<Rightarrow> (address \<times> u128) list \<Rightarrow> reclaim_run \<Rightarrow> nat \<Rightarrow> reclaim option" where
  "turn_reclaim config debts run i \<equiv> reclaim_of config debts (ce_latest_block_timestamp (run_env run i))"

lemma turn_reclaim_Some: "turn_reclaim config debts run i = Some r \<Longrightarrow> r = run_reclaim config run i"
  by (auto simp: reclaim_of_def run_reclaim_def Let_def split: if_splits)

lemma paying_turn:
  assumes pay: "paying F config ct allocations debts rs run" and r: "r \<in> set rs"
  shows "\<exists>p. account_of (run_accounts run (Suc i)) r =
      apply_action (run_thaw_end run i r) (scaled_action p
        (decide (account_of (run_accounts run i) r) (run_target config debts r) (turn_reclaim config debts run i)))
        (account_of (run_accounts run i) r) \<and>
    (\<forall>x. decide (account_of (run_accounts run i) r) (run_target config debts r) (turn_reclaim config debts run i) = Deposit x \<longrightarrow>
       is_payment p x)"
proof -
  let ?act = "action_for config (run_accounts run i) debts (turn_reclaim config debts run i)"
  from payingD(1) [OF pay] have turn: "ce_allocations (run_env run i) (ms_subgraph_block (run_state run i)) = Inr allocations"
      "ce_accounts (run_env run i) (ms_subgraph_block (run_state run i)) = Inr (run_accounts run i)"
      "escrow_cycle F config ct (run_env run i) (run_state run i) = Some (run_state run (Suc i))"
    and rs: "receivers_of allocations (run_accounts run i) = rs"
    and debts: "debts_seen (run_env run i) allocations (run_accounts run i) = debts"
    and exec: "executed (run_thaw_end run i) (drop (length (ms_sent (run_state run i))) (ms_sent (run_state run (Suc i))))
      (run_accounts run i) (run_accounts run (Suc i))"
    by (auto simp: is_reclaim_run_def)
  have act: "decided config (run_env run i) allocations (run_accounts run i) = ?act"
    by (simp add: decided_def debts Let_def)
  from escrow_cycle_transactions [OF turn, unfolded rs act] obtain paid where
    paid: "capped (deposits_for ?act rs) = Some paid"
    and sent: "ms_sent (run_state run (Suc i)) = ms_sent (run_state run i) @ transactions config ct ?act rs paid"
    by blast
  have keys: "map fst paid = map fst (deposits_for ?act rs)"
    by (rule capped_keys [OF paid deposits_sorted [OF payingD(7,6) [OF pay]]])
  have calls: "concat (transactions config ct ?act rs paid) =
      thaw_calls ct (thaws_for ?act rs) @ deposit_calls ct paid @ withdraw_calls ct (withdrawals_for ?act rs)"
    using payingD(5) [OF pay] by (simp add: transactions_def batch_def)
  have "account_of (run_accounts run (Suc i)) r = apply_action (run_thaw_end run i r)
      (scaled_action (the (map_of paid r)) (?act r)) (account_of (run_accounts run i) r)"
    using exec transactions_effects [where act = ?act, OF payingD(6) [OF pay] r keys]
    by (simp add: executed_def sent calls)
  moreover have "is_payment (the (map_of paid r)) x" if "?act r = Deposit x" for x
    by (rule paid_is_payment [where act = ?act, OF payingD(2) [OF pay] refl payingD(6,4) [OF pay] paid r that keys])
  ultimately show ?thesis by (auto simp: action_for_def)
qed

text \<open>So an account reaches its target within one turn more than it takes to pay the whole target at
  two GRT a turn, and keeps it.\<close>

lemma paying_distance:
  assumes pay: "paying F config ct allocations debts rs run" and r: "r \<in> set rs"
  shows "sound_account (run_target config debts r) (account_of (run_accounts run i) r) \<and>
    distance (run_target config debts r) (account_of (run_accounts run i) r) \<le>
      distance (run_target config debts r) (account_of (run_accounts run 0) r) - i * 2000000000000000000"
proof (induction i)
  case 0
  show ?case using pay r by (simp add: paying_def sound_account_def)
next
  case (Suc i)
  from paying_turn [OF pay r, of i] obtain p where p: "account_of (run_accounts run (Suc i)) r =
      apply_action (run_thaw_end run i r) (scaled_action p
        (decide (account_of (run_accounts run i) r) (run_target config debts r) (turn_reclaim config debts run i)))
        (account_of (run_accounts run i) r)"
    "\<And>x. decide (account_of (run_accounts run i) r) (run_target config debts r) (turn_reclaim config debts run i) = Deposit x \<Longrightarrow>
       is_payment p x" by blast
  have floor: "keep_floor (run_target config debts r) s < 2 ^ 128" if "turn_reclaim config debts run i = Some s" for s
    using payingD(3) [OF pay r, of i] turn_reclaim_Some [OF that] by simp
  from account_step [where reclaim = "turn_reclaim config debts run i" and te = "run_thaw_end run i r",
      OF conjunct1 [OF Suc] paying_target [OF pay r] floor p(2)]
  have "sound_account (run_target config debts r) (account_of (run_accounts run (Suc i)) r) \<and>
      distance (run_target config debts r) (account_of (run_accounts run (Suc i)) r) \<le>
        distance (run_target config debts r) (account_of (run_accounts run i) r) - 2000000000000000000"
    unfolding p(1) .
  with conjunct2 [OF Suc] show ?case unfolding mult_Suc by linarith
qed

lemma paying_reached:
  assumes pay: "paying F config ct allocations debts rs run" and r: "r \<in> set rs"
    and late: "unat (run_target config debts r) + 2000000000000000000 \<le> i * 2000000000000000000"
  shows "unat (run_target config debts r) \<le> effective (account_of (run_accounts run i) r)"
proof -
  let ?d = "\<lambda>i. distance (run_target config debts r) (account_of (run_accounts run i) r)"
  have "?d 0 \<le> unat (run_target config debts r) + 2000000000000000000" unfolding distance_def by auto
  with late have "?d i = 0" using paying_distance [OF pay r, of i] by linarith
  then show ?thesis by (simp add: distance_def split: if_splits)
qed

lemma payingI:
  assumes "is_reclaim_run F config ct allocations debts rs run"
    and start: "check_settings (ec_balance_fill_factor config) (ec_withdraw_margin config) = Inr ()"
    and f: "ec_balance_fill_factor config = Fin f" "1 / 2 ^ 50 \<le> f"
    and "length rs < 5000"
    and debts: "\<And>r. r \<in> set rs \<Longrightarrow> of_int (uint (claimed_debt config debts r)) \<le> f * of_int (2 ^ 31 * wei)"
    and "\<not> ec_dry_run config"
    and "\<And>r. r \<in> set rs \<Longrightarrow> thawing (account_of (run_accounts run 0) r) \<le> balance (account_of (run_accounts run 0) r)"
    and "\<And>r. r \<in> set rs \<Longrightarrow> unat (thawing (account_of (run_accounts run 0) r)) < 2 ^ 127"
  shows "paying F config ct allocations debts rs run"
proof -
  have "f \<le> 1" using start f(1) by (auto simp: check_settings_Inr_iff)
  then have "\<exists>n :: u32. target_of config debts r = Some (ucast n * GRT)" if "r \<in> set rs" for r
    using next_balance_climbs [OF f(2) _ debts [OF that]] f(1) by (auto simp: target_of_claimed)
  moreover have "keep_floor (run_target config debts r) (run_reclaim config run i) < 2 ^ 128" if "r \<in> set rs" for r i
    by (rule keep_floor_bound [OF start f debts [OF that]])
  ultimately show ?thesis using assms by (simp add: paying_def)
qed

end
