(* ===== verification/Spec2Isabelle.thy ===== *)
theory Spec2Isabelle
  imports Composition MetricsServers EscrowFunding
begin

text \<open>
  A model of graph-tally, the receipts and receipt aggregate vouchers (RAVs) of The Graph's payments.

  \<^bold>\<open>The program.\<close> A payer's signed receipts reach a service provider, whose manager
  (\<open>crates/core\<close>) checks and stores them and builds RAV requests. The payer's aggregation
  service (\<open>crates/bin/aggregator\<close>) aggregates the receipts of a request, signs the RAV and
  publishes its value. The manager verifies and stores the RAV and drops the receipts it covers. The
  escrow manager (\<open>crates/bin/escrow_manager\<close>) follows the payer's debts, from the receipts seen
  and the RAVs published, and keeps the escrow of each receiver at its target.

  \<^bold>\<open>Theories and code.\<close>
  \<^item> \<open>Prelude\<close>, \<open>Text\<close>: errors as sums (\<open>rbind\<close>, \<open>map_err\<close>), checked
    and saturating words, ranges; splitting, trimming and numbers in texts.
  \<^item> \<open>Eip712\<close>: \<open>crates/eip712_message\<close>. Signing, recovery and hashing are the record
    \<open>crypto\<close> of functions; what is relied on are the laws \<open>signing_law\<close>,
    \<open>normalization_law\<close> and \<open>signature_bytes_law\<close>.
  \<^item> \<open>Receipt\<close>, \<open>Graph\<close>: \<open>crates/receipt\<close> and \<open>crates/graph\<close>, the states of a
    receipt, its checks, and the aggregation into a RAV.
  \<^item> \<open>Adapters\<close>, \<open>Manager\<close>, \<open>Memory\<close>: \<open>crates/core/src\<close>. The storage traits are the record
    \<open>adapters\<close> and the locale \<open>receipt_context\<close>, in which the manager's lemmas are proved;
    \<open>Memory\<close> has the in-memory context and its interpretation.
  \<^item> \<open>Interleaving\<close>, \<open>Lifecycle\<close>: the manager's operations cut at their calls to the context, and
    a step relation in which the pieces of any number of operations interleave, the request and its
    answer included; the locale \<open>lifecycle\<close> with the invariants, interpreted for the receipts and RAVs
    of The Graph; each operation of \<open>Manager\<close> as a run of its calls.
  \<^item> \<open>Signers\<close>, \<open>Aggregator\<close>: \<open>signers.rs\<close> and \<open>aggregator.rs\<close> of the service.
    The parallel check of signatures reports one of the errors, picked by the library.
  \<^item> \<open>Bytes\<close>, \<open>Grpc\<close>, \<open>GrpcV2\<close>: \<open>grpc.rs\<close>, the conversions of the messages of both gRPC
    services.
  \<^item> \<open>F64\<close>: IEEE doubles as rationals with rounding to nearest, ties to even.
  \<^item> \<open>Server\<close>, \<open>Routing\<close>, \<open>AggregatorMain\<close>: \<open>server.rs\<close>,
    \<open>api_versioning.rs\<close>, \<open>error_codes.rs\<close>, \<open>jsonrpsee_helpers.rs\<close>: the handlers with their
    counters and Kafka records, the services with their limits and the two routers of \<open>run_server\<close>;
    \<open>main.rs\<close>: the arguments, the reading of the configuration texts, and \<open>main\<close> up to the running
    server. \<open>MetricsServers\<close>: \<open>metrics.rs\<close> of the service and the escrow manager's metrics endpoint.
  \<^item> \<open>EscrowPlan\<close>, \<open>EscrowKafka\<close>, \<open>EscrowContracts\<close>, \<open>EscrowCycle\<close>: the escrow manager:
    targets, decisions and scaling (\<open>main.rs\<close>); the consumers (\<open>kafka.rs\<close>); what is read and
    sent (\<open>config.rs\<close>, \<open>subgraphs.rs\<close>, \<open>contracts.rs\<close>); one turn of the loop and the
    metrics (\<open>main.rs\<close>, \<open>metrics.rs\<close>). \<open>EscrowStartup\<close>: \<open>main\<close> up to its loop and
    the start of the consumers; \<open>EscrowMain\<close>: \<open>main\<close> as a program, over the list of its
    ticks and signals. \<open>EscrowTurn\<close>: the lemmas on a turn; \<open>EscrowChain\<close>,
    \<open>EscrowReclaim\<close> and \<open>EscrowFunding\<close>: turn after turn, with accounts that the transactions of
    each turn reach before the next; deposits alone, reclaiming alone, and both together.
  \<^item> \<open>Instances\<close>: concrete cryptography and text forms that satisfy the laws, used by the witnesses.

  \<^bold>\<open>What is shown.\<close> \<open>CoreProperties\<close>: aggregation as a reference
  function, its incrementality, the checks, requests faithful to the store, the identifiers of the
  in-memory context, exact accounting over any interleaving of the operations' calls, the runs in
  which a late answer or a store after a RAV loses a receipt, and the boundary cases that lose
  progress or wrap. \<open>AggregatorProperties\<close>: the registry, the exact contract and
  errors of the service, aggregation in steps, the wire messages, agreement of the entry points,
  the counters, what stands in front of each. \<open>EscrowProperties\<close>: that targets are
  found, cover the debt and are minimal up to a step; what is decided, that decisions settle, and
  how deposits are scaled; what a turn sends and that it ends; how the program ends, and that it
  sends nothing in a dry run; that the turns fund every receiver, or take back what lies idle, and
  then fall silent; the window of receipts as a refinement of a log of updates; the RAV table;
  where catching up waits forever or panics. This theory: a settlement round from request to
  cleanup, a published RAV on its way to the escrow manager, and that the RAVs that were published
  end up funded, whether escrow is reclaimed at the same time or not. What the escrow contract does is a hypothesis on a run of turns:
  \<open>credited\<close> for deposits alone, \<open>executed\<close> for all its calls.

  \<^bold>\<open>Bounds.\<close> Machine integers are words of their width and wrap where the release build does.
  \<open>next_balance\<close> and \<open>reduce_adjustments\<close> are partial functions, and \<open>None\<close> is a call that
  never returns: targets are found for fill factors from 2^-50 to 1 and debts up to that share of
  2^31 GRT, scaling ends for fewer than 5000 receivers; both bounds are far beyond the program's use,
  and a debt of 2^32 GRT is shown not to return. \<open>None\<close> of \<open>reduce_adjustments\<close> also stands for
  its failed assertion, which is never reached from a turn. No other definition uses fuel.

  \<^bold>\<open>Not modelled.\<close> Sockets, HTTP and gRPC framing, reading files and arguments, logging and
  durations; the Prometheus registry; Protobuf and ABI encodings, which are generated; the
  subgraph client, the RPC provider, Kafka, the JSON and CLI parsers, which are libraries: what they
  return is an argument: a function of what they are given, so the pick of the thread pool among several
  errors depends on the errors and Kafka's answer on the record. Concurrency is modelled where the code shares state: the operations of a
  manager interleave between their calls to the context, and each call of the in-memory context is
  one step, as its locks make it.
\<close>

section \<open>Properties that span components\<close>

text \<open>C2. A settlement round goes through: when a manager's request has an expected RAV, its
  valid receipts name one channel and are signed by signers accepted for the payer, and the previous
  RAV, if any, is such a signer's for the same channel and before the greatest timestamp, then the
  service (with the payer's key, if that signs at all) signs exactly the expected RAV. Whatever the
  context has become when the answer arrives, the manager stores the RAV if it accepts that key's
  address, and the following cleanup leaves exactly the receipts after the RAV, those that came
  meanwhile included.\<close>

theorem settlement_round_completes:
  assumes "mem_inv c" and "signing_law (lib_crypto L)"
    and "create_rav_request in_memory_adapters (signed_receipt_ops (lib_crypto L)) rav_timestampNs
       aggregate_checked M since_epoch ctx buffer limit c = Inr req"
    and "req_expected_rav req = Inr expected"
    and "resolve R (rav_payer expected) = Some (k, A)"
    and "mem_inv c1" and "sender_address c1 = Some (key_address (lib_crypto L) k)"
    and "sign_hash_sync (lib_crypto L) k (lib_rav_hash L (mgr_domain_separator M) expected) = Inr sg"
    and "\<forall>v\<in>set (req_valid_receipts req).
       (\<exists>a\<in>A. recover_signer (lib_crypto L) (lib_receipt_hash L) (mgr_domain_separator M) (rx_receipt v) = Inr a) \<and>
       same_channel (message (rx_receipt v)) (message (rx_receipt (hd (req_valid_receipts req))))"
    and "\<forall>p. rav_storage c = Some p \<longrightarrow>
       (\<exists>a\<in>A. recover_signer (lib_crypto L) (lib_rav_hash L) (mgr_domain_separator M) p = Inr a) \<and>
       continues_channel (message p) (message (rx_receipt (hd (req_valid_receipts req)))) \<and>
       rav_timestampNs (message p) < - 1"
  shows "\<exists>c' c''. check_and_aggregate_receipts L (mgr_domain_separator M) (map rx_receipt (req_valid_receipts req))
       (req_previous_rav req) R = Inr \<lparr>message = expected, signature = sg\<rparr> \<and>
    verify_and_store_rav in_memory_adapters (lib_crypto L) (lib_rav_hash L) M expected
       \<lparr>message = expected, signature = sg\<rparr> c1 = (Inr () :: rav core_error + unit, c') \<and>
    rav_storage c' = Some \<lparr>message = expected, signature = sg\<rparr> \<and>
    remove_obsolete_receipts in_memory_adapters rav_timestampNs c' = (Inr () :: rav core_error + unit, c'') \<and>
    mem_stored c'' = filter_mset (\<lambda>r. rav_timestampNs expected < rcpt_timestamp_ns (message r)) (mem_stored c1)"
proof -
  let ?sm = "\<lparr>message = expected, signature = sg\<rparr>" and ?valid = "req_valid_receipts req"
  note run = mem.create_rav_request_Inr [OF assms(1,3)]
  have agg: "aggregate_checked ?valid (rav_storage c) = Inr expected" using run(2) assms(4) by simp
  note batch = request_batch [OF agg] and ok = request_is_valid_batch [OF assms(1,3,4,9,10)]
  have "rav_payer expected = rcpt_payer (message (hd (map rx_receipt ?valid)))"
    by (simp add: batch_rav_def flip: batch(1))
  with ok assms(5,8) batch(1,2) have service: "check_and_aggregate_receipts L (mgr_domain_separator M)
      (map rx_receipt ?valid) (req_previous_rav req) R = Inr ?sm"
    unfolding check_and_aggregate_Inr_iff run(1) by simp
  have "recover_signer (lib_crypto L) (lib_rav_hash L) (mgr_domain_separator M) ?sm =
      Inr (key_address (lib_crypto L) k)"
    using assms(2,8) by (simp add: recover_signer_Inr_iff signing_law_def)
  then have "check_signature in_memory_adapters (lib_crypto L) (lib_rav_hash L) ?sm (mgr_domain_separator M) c1 =
      (Inr () :: rav core_error + unit)"
    using assms(7) by (simp add: check_signature_Inr_iff mem_adapter_defs)
  from mem.verify_and_store_rav_ok [OF assms(6) this] obtain c' where
    c': "verify_and_store_rav in_memory_adapters (lib_crypto L) (lib_rav_hash L) M expected ?sm c1 =
        (Inr () :: rav core_error + unit, c')"
      "mem_inv c'" "rav_storage c' = Some ?sm" "mem_stored c' = mem_stored c1"
    by auto
  from mem.remove_obsolete_receipts_result [OF c'(2), of rav_timestampNs] c'(3,4) service c'(1) show ?thesis
    by auto
qed

theorem settlement_round_completes_witness:
  "\<exists>c''. check_and_aggregate_receipts demo_lib demo_domain [demo_signed 10 5, demo_signed 20 7] None demo_registry =
      Inr (demo_signed_rav 20 12) \<and> mem_stored c'' = {#demo_signed 30 1#} \<and>
    (\<exists>c'. remove_obsolete_receipts in_memory_adapters rav_timestampNs c' = (Inr () :: rav core_error + unit, c'') \<and>
       rav_storage c' = Some (demo_signed_rav 20 12))"
proof -
  let ?c1 = "snd (mem_store_receipt (receipt_new (demo_signed 30 1)) demo_context)"
  let ?req = "\<lparr>req_valid_receipts = [\<lparr>rx_receipt = demo_signed 10 5, rx_state = Checked\<rparr>,
           \<lparr>rx_receipt = demo_signed 20 7, rx_state = Checked\<rparr>],
         req_previous_rav = None :: demo_signature signed_rav option, req_invalid_receipts = [],
         req_expected_rav = Inr (demo_rav 20 12)\<rparr>"
  have req: "create_rav_request in_memory_adapters (signed_receipt_ops (lib_crypto demo_lib)) rav_timestampNs
      aggregate_checked demo_manager (Inr 1000) () 0 None demo_context = Inr ?req"
    by (simp add: demo_request)
  have inv: "mem_inv ?c1" and stored: "mem_stored ?c1 = {#demo_signed 10 5, demo_signed 20 7, demo_signed 30 1#}"
    by (simp_all add: mem_inv_def mem_store_receipt_def Let_def mem_stored_def demo_context_def receipt_new_def)
  have dom: "mgr_domain_separator demo_manager = demo_domain"
    by (simp add: demo_manager_def manager_new_def)
  have hyps: "req_expected_rav ?req = Inr (demo_rav 20 12)"
    "resolve demo_registry (rav_payer (demo_rav 20 12)) = Some (5, {5, 6})"
    "sender_address ?c1 = Some (key_address (lib_crypto demo_lib) 5)"
    "sign_hash_sync (lib_crypto demo_lib) 5 (lib_rav_hash demo_lib (mgr_domain_separator demo_manager) (demo_rav 20 12)) =
       Inr (5, 12, False)"
    by (simp_all add: demo_rav_def demo_registry_def demo_context_def demo_crypto_def demo_rav_hash_def resolve_def
        mem_store_receipt_def Let_def)
  have signed: "\<forall>v\<in>set (req_valid_receipts ?req).
       (\<exists>a\<in>{5, 6}. recover_signer (lib_crypto demo_lib) (lib_receipt_hash demo_lib)
          (mgr_domain_separator demo_manager) (rx_receipt v) = Inr a) \<and>
       same_channel (message (rx_receipt v)) (message (rx_receipt (hd (req_valid_receipts ?req))))"
    by (simp add: recover_signer_Inr_iff demo_crypto_def demo_receipt_hash_def demo_signed_def demo_receipt_def
        same_channel_def)
  have new: "\<forall>p. rav_storage demo_context = Some p \<longrightarrow>
       (\<exists>a\<in>{5, 6}. recover_signer (lib_crypto demo_lib) (lib_rav_hash demo_lib) (mgr_domain_separator demo_manager) p = Inr a) \<and>
       continues_channel (message p) (message (rx_receipt (hd (req_valid_receipts ?req)))) \<and>
       rav_timestampNs (message p) < - 1"
    by (simp add: demo_context_def)
  have sm: "\<lparr>message = demo_rav 20 12, signature = (5, 12, False)\<rparr> = demo_signed_rav 20 12"
    by (simp add: demo_signed_rav_def)
  have law: "signing_law (lib_crypto demo_lib)" by (simp add: demo_signing_law)
  have none: "filter_mset (\<lambda>r. rav_timestampNs (demo_rav 20 12) < rcpt_timestamp_ns (message r)) (mem_stored ?c1) = {#demo_signed 30 1#}"
    unfolding stored by (simp add: demo_rav_def demo_signed_def demo_receipt_def)
  have batch: "map rx_receipt (req_valid_receipts ?req) = [demo_signed 10 5, demo_signed 20 7]"
    "req_previous_rav ?req = None" by simp_all
  from settlement_round_completes [OF demo_context_inv law req hyps(1,2) inv hyps(3,4) signed new]
  show ?thesis unfolding none sm dom batch by blast
qed

text \<open>C23. What the escrow manager makes of a published RAV: the record that the service publishes
  after a success raises the table's entry for the collection (as an allocation) to the RAV's value,
  if the payer of the RAV is among the signers the manager accepts; otherwise it is dropped.\<close>

theorem published_rav_reaches_escrow:
  assumes "address_text_law F" and "b256_text_law F"
    and "rpc_kafka impl = Some send" and "\<And>rec. is_ok (send rec)"
  shows "\<exists>rec. published (after_success F impl v grt n sv) = published sv @ [rec] \<and>
    process_rav_message F signers (RavMessage (Some (kr_key rec)) (Some (kr_payload rec))) table =
      (if rav_payer v \<in> set signers
       then table(ucast (rav_collectionId v) \<mapsto>
              (case table (ucast (rav_collectionId v)) of
                 None \<Rightarrow> rav_valueAggregate v | Some w \<Rightarrow> max w (rav_valueAggregate v)))
       else table)"
proof -
  let ?r = "\<lparr>rec_signer = rav_payer v, rec_allocation = ucast (rav_collectionId v), rec_value = rav_valueAggregate v\<rparr>"
  have "store_rav_value ?r table = table(ucast (rav_collectionId v) \<mapsto>
      (case table (ucast (rav_collectionId v)) of
         None \<Rightarrow> rav_valueAggregate v | Some w \<Rightarrow> max w (rav_valueAggregate v)))"
    by (rule ext) (simp add: store_rav_value_lookup split: option.split)
  then show ?thesis
    using parse_published_record [OF assms(1,2), of "rav_payer v" "rav_collectionId v" "rav_valueAggregate v"]
    by (simp add: after_success_published assms(3,4) Let_def process_rav_message_def)
qed

theorem published_rav_reaches_escrow_witness:
  "\<exists>rec. published (after_success demo_fmt
        \<lparr>rpc_signers = demo_registry, rpc_domain_separator = demo_domain, rpc_kafka = Some (\<lambda>_. Inr ())\<rparr>
        (demo_rav 20 12) 12 2 service_start) = [rec] \<and>
    process_rav_message demo_fmt [1] (RavMessage (Some (kr_key rec)) (Some (kr_payload rec))) Map.empty = [9 \<mapsto> 12]"
  using published_rav_reaches_escrow [OF demo_address_text_law demo_b256_text_law, of
      "\<lparr>rpc_signers = demo_registry, rpc_domain_separator = demo_domain, rpc_kafka = Some (\<lambda>_. Inr ())\<rparr>"
      "\<lambda>_. Inr ()" "demo_rav 20 12" 12 2 service_start "[1]" Map.empty]
  by (simp add: demo_rav_def service_start_def)

text \<open>C3. What the service signs gets funded: take RAVs of one receiver for different
  allocations that were published and received by the escrow manager, in any order and among any
  other messages, for payers it accepts as signers. In a run of its turns, whether it reclaims
  escrow or not, in which the queries succeed, every transaction that is sent takes effect in the
  escrow contract before the next turn, and the allocations, the receivers and the debts, which
  these RAVs are part of, stand still, the receiver's account comes to hold more than the RAVs are
  worth together, net of what is thawing, and keeps it: n turns are enough for a target of up to 2(n
  - 1) GRT, and no target exceeds 2^32 GRT. This is for settings that the start accepts, without the
  dry run, with a fill factor that is a double of at least 2^-50, fewer than 5000 receivers, debts
  up to that share of 2^31 GRT, allocations whose RAVs sum to less than 2^128, accounts that at
  first have no more thawing than they hold and less than 2^127, and addresses and ids whose texts
  are read back as what they are.\<close>

theorem published_ravs_funded:
  assumes "address_text_law F" and "b256_text_law F"
    and "is_reclaim_run F config ct allocations debts rs run"
    and "check_settings (ec_balance_fill_factor config) (ec_withdraw_margin config) = Inr ()"
    and "ec_balance_fill_factor config = Fin f" and "1 / 2 ^ 50 \<le> f" and "representable f"
    and "length rs < 5000"
    and "\<And>r. r \<in> set rs \<Longrightarrow> of_int (uint (claimed_debt config debts r)) \<le> f * of_int (2 ^ 31 * wei)"
    and "\<not> ec_dry_run config"
    and "\<And>r. r \<in> set rs \<Longrightarrow> thawing (account_of (run_accounts run 0) r) \<le> balance (account_of (run_accounts run 0) r)"
    and "\<And>r. r \<in> set rs \<Longrightarrow> unat (thawing (account_of (run_accounts run 0) r)) < 2 ^ 127"
    and "ce_ravs (run_env run 0) = fold (process_rav_message F signers) msgs Map.empty"
    and "r \<in> set rs" and "sum_list (map unat (rav_values (ce_ravs (run_env run 0)) allocations r)) < 2 ^ 128"
    and "distinct (map collection_allocation vs)"
    and "\<And>v. v \<in> set vs \<Longrightarrow> published_message F v \<in> set msgs \<and> rav_payer v \<in> set signers \<and>
      \<lparr>alloc_id = collection_allocation v, alloc_indexer = r\<rparr> \<in> set allocations"
  shows "unat (run_target config debts r) \<le> 2 ^ 32 * 1000000000000000000 \<and>
    (\<forall>i. unat (run_target config debts r) + 2000000000000000000 \<le> i * 2000000000000000000 \<longrightarrow>
       sum_list (map (\<lambda>v. unat (rav_valueAggregate v)) vs) < effective (account_of (run_accounts run i) r))"
proof -
  have seen: "debts_seen (run_env run 0) allocations (run_accounts run 0) = debts"
    "r \<in> set (receivers_of allocations (run_accounts run 0))"
    using assms(3,14) by (auto simp: is_reclaim_run_def)
  have "f \<le> 1" using assms(4,5) by (auto simp: check_settings_Inr_iff)
  have pay: "paying F config ct allocations debts rs run"
    by (rule payingI [OF assms(3-6,8-12)])
  have "sum_list (map (\<lambda>v. unat (rav_valueAggregate v)) vs) \<le>
      sum_list (map unat (rav_values (ce_ravs (run_env run 0)) allocations r))"
    using assms(17) table_has_published [OF assms(1,2)] unfolding assms(13)
    by (intro ravs_within_debt [OF assms(16)]) blast+
  also have "\<dots> \<le> unat (claimed_debt config debts r)"
    using debt_counts_ravs [OF seen(2) assms(15)] by (simp only: seen(1))
  also have "\<dots> < unat (run_target config debts r)"
    by (rule target_above_debt [OF assms(5,6) \<open>f \<le> 1\<close> assms(7) assms(9) [OF assms(14)]])
  finally have "sum_list (map (\<lambda>v. unat (rav_valueAggregate v)) vs) < unat (run_target config debts r)" .
  then have "sum_list (map (\<lambda>v. unat (rav_valueAggregate v)) vs) < effective (account_of (run_accounts run i) r)"
    if "unat (run_target config debts r) + 2000000000000000000 \<le> i * 2000000000000000000" for i
    by (rule order_less_le_trans) (rule paying_reached [OF pay assms(14) that])
  with paying_target [OF pay assms(14)] show ?thesis by simp
qed

text \<open>A run that reclaims: at first the receiver is owed twelve, and all that its account holds has
  finished thawing. This is withdrawn in the first turn; the target of two GRT is deposited in the second.\<close>

definition demo_owed :: "nat \<Rightarrow> (address \<times> escrow_account) list" where
  "demo_owed i = [(7,
     if i = 0 then \<lparr>balance = GRT, thawing = GRT, thaw_end_timestamp = 5000\<rparr>
     else if i = 1 then \<lparr>balance = 0, thawing = 0, thaw_end_timestamp = 0\<rparr>
     else \<lparr>balance = 2 * GRT, thawing = 0, thaw_end_timestamp = 0\<rparr>)]"

definition demo_owed_env :: "nat \<Rightarrow> cycle_env" where
  "demo_owed_env i = (demo_run_env 0)\<lparr>ce_accounts := \<lambda>_. Inr (demo_owed i), ce_latest_block_timestamp := Inr 6000\<rparr>"

fun demo_owed_state :: "nat \<Rightarrow> manager_state" where
  "demo_owed_state 0 = demo_state"
| "demo_owed_state (Suc i) =
     the (escrow_cycle demo_fmt (demo_config False) demo_contracts (demo_owed_env i) (demo_owed_state i))"

definition demo_owed_run :: reclaim_run where
  "demo_owed_run = \<lparr>run_env = demo_owed_env, run_state = demo_owed_state, run_accounts = demo_owed,
     run_thaw_end = \<lambda>_ _. 5000\<rparr>"

lemma demo_owed_simps [simp]:
  "ce_allocations (demo_owed_env i) b = Inr [\<lparr>alloc_id = 9, alloc_indexer = 7\<rparr>]"
  "ce_accounts (demo_owed_env i) b = Inr (demo_owed i)"
  "receivers_of [\<lparr>alloc_id = 9, alloc_indexer = 7\<rparr>] (demo_owed i) = [7]"
  "debts_seen (demo_owed_env i) [\<lparr>alloc_id = 9, alloc_indexer = 7\<rparr>] (demo_owed i) = [(7, 12)]"
  "ce_latest_block_timestamp (demo_owed_env i) = Inr 6000"
  by (simp_all add: demo_owed_env_def demo_run_env_def demo_env_def receivers_of_def demo_owed_def debts_seen_def
      debts_of_def indexer_ravs_def entry_or_default_def)

lemma demo_owed_decided:
  "decided (demo_config False) (demo_owed_env i) [\<lparr>alloc_id = 9, alloc_indexer = 7\<rparr>] (demo_owed i) 7 =
     (if i = 0 then Withdraw else if i = 1 then Deposit (2 * GRT) else NoAction)"
proof -
  let ?r = "Some \<lparr>chain_now = Some 6000, margin_bps = 2500, min_withdraw = 500 * GRT\<rparr>"
  have settings: "withdraw_margin_bps (Fin (1 / 4)) = 2500" "min_withdraw_of 500 = 500 * GRT" by code_simp+
  have "decided (demo_config False) (demo_owed_env i) [\<lparr>alloc_id = 9, alloc_indexer = 7\<rparr>] (demo_owed i) 7 =
      decide (account_of (demo_owed i) 7) (2 * GRT) ?r"
    by (simp add: decided_def Let_def action_for_def demo_rich_target reclaim_of_def debt_ready_def settings)
  also have "\<dots> = (if i = 0 then Withdraw else if i = 1 then Deposit (2 * GRT) else NoAction)"
  proof -
    have "decide \<lparr>balance = GRT, thawing = GRT, thaw_end_timestamp = 5000\<rparr> (2 * GRT) ?r = Withdraw"
      "decide \<lparr>balance = 0, thawing = 0, thaw_end_timestamp = 0\<rparr> (2 * GRT) ?r = Deposit (2 * GRT)"
      "decide \<lparr>balance = 2 * GRT, thawing = 0, thaw_end_timestamp = 0\<rparr> (2 * GRT) ?r = NoAction"
      by code_simp+
    then show ?thesis by (simp add: demo_owed_def account_of_def entry_or_default_def)
  qed
  finally show ?thesis .
qed

lemma demo_owed_step:
  "\<exists>st'. escrow_cycle demo_fmt (demo_config False) demo_contracts (demo_owed_env i) st = Some st' \<and>
     ms_sent st' = ms_sent st @ (if i = 0 then [[WithdrawCall 12 7]]
       else if i = 1 then [[DepositCall 12 7 (ucast (2 * GRT))]] else [])"
proof -
  let ?as = "[\<lparr>alloc_id = 9, alloc_indexer = 7\<rparr>]" and ?ds = "if i = 1 then [(7, 2 * GRT)] else []"
  let ?act = "decided (demo_config False) (demo_owed_env i) ?as (demo_owed i)"
  have "capped [] = Some []" by (simp add: capped_def)
  with demo_capped have paid: "capped ?ds = Some ?ds" by simp
  have plan: "deposits_for ?act [7] = ?ds" "thaws_for ?act [7] = []"
    "withdrawals_for ?act [7] = (if i = 0 then [7] else [])"
    using demo_owed_decided [of i] by (simp_all add: plan_for_defs List.map_filter_simps)
  obtain st' where st': "escrow_cycle demo_fmt (demo_config False) demo_contracts (demo_owed_env i) st = Some st'"
    using escrow_cycle_None [of "demo_owed_env i" st ?as "demo_owed i" demo_fmt "demo_config False" demo_contracts]
      demo_rich_target plan(1) paid by auto
  from escrow_cycle_transactions [OF demo_owed_simps(1,2) st'] plan paid
  have "ms_sent st' = ms_sent st @ (if i = 0 then [[WithdrawCall 12 7]]
      else if i = 1 then [[DepositCall 12 7 (ucast (2 * GRT))]] else [])"
    by (auto simp: transactions_def batch_def thaw_calls_def deposit_calls_def withdraw_calls_def
        demo_contracts_def contracts_new_def collector_of_def split: if_splits)
  with st' show ?thesis by blast
qed

lemma demo_owed_is_run:
  "is_reclaim_run demo_fmt (demo_config False) demo_contracts [\<lparr>alloc_id = 9, alloc_indexer = 7\<rparr>] [(7, 12)] [7] demo_owed_run"
proof -
  have "ucast (ucast (2 * GRT) :: 256 word) = 2 * GRT" by (simp add: GRT_def)
  moreover have "drop (length (ms_sent (demo_owed_state i))) (ms_sent (demo_owed_state (Suc i))) =
      (if i = 0 then [[WithdrawCall 12 7]] else if i = 1 then [[DepositCall 12 7 (ucast (2 * GRT))]] else [])" for i
    using demo_owed_step [of i "demo_owed_state i"] by auto
  ultimately have "executed (\<lambda>_. 5000) (drop (length (ms_sent (demo_owed_state i))) (ms_sent (demo_owed_state (Suc i))))
      (demo_owed i) (demo_owed (Suc i))" for i
    by (auto simp: executed_def demo_owed_def account_of_def entry_or_default_def)
  moreover have "escrow_cycle demo_fmt (demo_config False) demo_contracts (demo_owed_env i) (demo_owed_state i) =
      Some (demo_owed_state (Suc i))" for i
    using demo_owed_step [of i "demo_owed_state i"] by auto
  ultimately show ?thesis
    unfolding is_reclaim_run_def demo_owed_run_def by (simp del: demo_owed_state.simps)
qed

lemma demo_owed_table:
  "ce_ravs (run_env demo_owed_run 0) =
     fold (process_rav_message demo_fmt [1]) [RavReceiveError, published_message demo_fmt (demo_rav 20 12)] Map.empty"
proof -
  have "parse_record demo_fmt (Some (fmt_address_debug demo_fmt 1 @ '':'' @ fmt_b256_debug demo_fmt 9)) (Some (show_word (12 :: u128))) =
      Inr (V2 \<lparr>rec_signer = 1, rec_allocation = 9, rec_value = 12\<rparr>)"
    using parse_published_record [OF demo_address_text_law demo_b256_text_law, of 1 9 12] by simp
  then show ?thesis
    by (simp add: process_rav_message_def published_message_def demo_rav_def store_rav_value_def demo_owed_run_def
        demo_owed_env_def demo_run_env_def)
qed

theorem published_ravs_funded_witness:
  "ec_withdraw_enabled (demo_config False) \<and> debt_ready [(7, 12)] \<and>
   (\<forall>n. unat (rav_valueAggregate (demo_rav 20 12)) < effective (account_of (run_accounts demo_owed_run (n + 2)) 7))"
proof -
  let ?c = "demo_config False" and ?ravs = "[demo_rav 20 12]" and ?as = "[\<lparr>alloc_id = 9, alloc_indexer = 7\<rparr>]"
  have "check_settings (Fin (1 / 2)) (Fin (1 / 4)) = Inr ()" by code_simp
  then have settings: "check_settings (ec_balance_fill_factor ?c) (ec_withdraw_margin ?c) = Inr ()" by simp
  have fill: "ec_balance_fill_factor ?c = Fin (1 / 2)" "(1 :: rat) / 2 ^ 50 \<le> 1 / 2" by simp_all
  have rep: "representable (1 / 2)" by code_simp
  have few: "length [7 :: address] < 5000" by simp
  have debts: "of_int (uint (claimed_debt ?c [(7, 12)] r)) \<le> (1 / 2 :: rat) * of_int (2 ^ 31 * wei)"
    if "r \<in> set [7]" for r using that by (simp add: wei_def)
  have low: "thawing (account_of (run_accounts demo_owed_run 0) r) \<le> balance (account_of (run_accounts demo_owed_run 0) r)"
    "unat (thawing (account_of (run_accounts demo_owed_run 0) r)) < 2 ^ 127" if "r \<in> set [7]" for r
    using that by (simp_all add: demo_owed_run_def demo_owed_def account_of_def entry_or_default_def GRT_def)
  have small: "sum_list (map unat (rav_values (ce_ravs (run_env demo_owed_run 0)) ?as 7)) < 2 ^ 128"
    by (simp add: rav_values_def demo_owed_run_def demo_owed_env_def demo_run_env_def)
  have apart: "distinct (map collection_allocation ?ravs)" by simp
  have received: "published_message demo_fmt v \<in> set [RavReceiveError, published_message demo_fmt (demo_rav 20 12)] \<and>
      rav_payer v \<in> set [1] \<and> \<lparr>alloc_id = collection_allocation v, alloc_indexer = 7\<rparr> \<in> set ?as"
    if "v \<in> set ?ravs" for v using that by (simp add: demo_rav_def collection_allocation_def)
  have seven: "(7 :: address) \<in> set [7]" and sent: "\<not> ec_dry_run ?c" by simp_all
  have "unat (run_target ?c [(7, 12)] 7) = 2000000000000000000" by (simp add: demo_rich_target GRT_def)
  with published_ravs_funded [OF demo_address_text_law demo_b256_text_law demo_owed_is_run settings fill rep few
      debts sent low demo_owed_table seven small apart received]
  show ?thesis by (simp add: debt_ready_def)
qed

end
